(* ===== verification/Cyber_Prelude.thy ===== *)
theory Cyber_Prelude
  imports Main "HOL-Library.Word" "HOL-Library.AList"
begin

text \<open>
  Shared vocabulary of the development: machine integers, the C++ containers the sources use, and
  the generic transition-system interface that the concurrent components instantiate.

  \<^item> \<open>uint64_t\<close>, \<open>uint32_t\<close> are words of that width; their arithmetic wraps.
  \<^item> \<open>std::unordered_map\<close> is an association list with distinct keys. The order of the list plays
    the role of the unspecified iteration order: every theorem quantifies over all such lists.
  \<^item> \<open>operator[]\<close> of a map default-constructs a missing entry; \<open>um_at\<close> and \<open>um_touch\<close> write
    that out.
\<close>

section \<open>Machine integers\<close>

type_synonym u64 = "64 word"
type_synonym u32 = "32 word"

named_theorems u64_simps \<open>reading 64-bit counters as natural numbers\<close>

lemma unat_u64_bound [simp]: "unat (x :: u64) < 18446744073709551616"
  using unsigned_less [of x, where ?'a = nat] by simp

lemma unat_u64_add [u64_simps]:
  "unat x + unat y < 18446744073709551616 \<Longrightarrow> unat (x + y :: u64) = unat x + unat y"
  by (simp add: unat_word_ariths)

lemma unat_u64_inc [u64_simps]:
  "unat x + 1 < 18446744073709551616 \<Longrightarrow> unat (x + 1 :: u64) = unat x + 1"
  by (simp add: unat_word_ariths)

lemma unat_u64_sub [u64_simps]:
  "unat y \<le> unat x \<Longrightarrow> unat (x - y :: u64) = unat x - unat y"
  by (simp add: unat_sub word_le_nat_alt)

lemma unat_u64_of_nat [u64_simps]:
  "n < 18446744073709551616 \<Longrightarrow> unat (of_nat n :: u64) = n"
  by (simp add: unat_of_nat)

lemma u64_eq_iff: "(x :: u64) = y \<longleftrightarrow> unat x = unat y"
  by (simp add: word_unat_eq_iff)

lemmas u64_to_nat = u64_eq_iff word_less_nat_alt word_le_nat_alt

section \<open>Unordered maps\<close>

type_synonym ('k, 'v) umap = "('k \<times> 'v) list"

abbreviation um_find :: "('k, 'v) umap \<Rightarrow> 'k \<Rightarrow> 'v option" where
  "um_find m k \<equiv> map_of m k"

abbreviation um_put :: "'k \<Rightarrow> 'v \<Rightarrow> ('k, 'v) umap \<Rightarrow> ('k, 'v) umap" where
  "um_put k v m \<equiv> AList.update k v m"

abbreviation um_erase :: "'k \<Rightarrow> ('k, 'v) umap \<Rightarrow> ('k, 'v) umap" where
  "um_erase k m \<equiv> AList.delete k m"

abbreviation um_keys :: "('k, 'v) umap \<Rightarrow> 'k set" where
  "um_keys m \<equiv> fst ` set m"

definition um_ok :: "('k, 'v) umap \<Rightarrow> bool" where
  "um_ok m \<longleftrightarrow> distinct (map fst m)"

definition um_at :: "'v \<Rightarrow> ('k, 'v) umap \<Rightarrow> 'k \<Rightarrow> 'v" where
  "um_at d m k = (case um_find m k of None \<Rightarrow> d | Some v \<Rightarrow> v)"

definition um_touch :: "'v \<Rightarrow> 'k \<Rightarrow> ('k, 'v) umap \<Rightarrow> ('k, 'v) umap" where
  "um_touch d k m = (case um_find m k of None \<Rightarrow> um_put k d m | Some _ \<Rightarrow> m)"

named_theorems um_simps \<open>laws of the association-list maps\<close>

lemma um_ok_Nil [simp]: "um_ok []"
  by (simp add: um_ok_def)

lemma um_ok_put [simp, intro]: "um_ok m \<Longrightarrow> um_ok (um_put k v m)"
  by (simp add: um_ok_def distinct_update)

lemma um_ok_erase [simp, intro]: "um_ok m \<Longrightarrow> um_ok (um_erase k m)"
  by (simp add: um_ok_def distinct_delete)

lemma um_ok_touch [simp, intro]: "um_ok m \<Longrightarrow> um_ok (um_touch d k m)"
  by (simp add: um_touch_def split: option.split)

lemma um_find_put [um_simps]: "um_find (um_put k v m) k' = (if k' = k then Some v else um_find m k')"
  by (simp add: update_conv')

lemma um_find_erase [um_simps]: "um_find (um_erase k m) k' = (if k' = k then None else um_find m k')"
  by (simp add: delete_conv')

lemma um_find_touch [um_simps]:
  "um_find (um_touch d k m) k' =
     (if k' = k then Some (um_at d m k) else um_find m k')"
  by (auto simp: um_touch_def um_at_def update_conv' split: option.split)

lemma um_at_put [um_simps]: "um_at d (um_put k v m) k' = (if k' = k then v else um_at d m k')"
  by (simp add: um_at_def um_find_put)

lemma um_at_erase [um_simps]: "um_at d (um_erase k m) k' = (if k' = k then d else um_at d m k')"
  by (simp add: um_at_def um_find_erase)

lemma um_at_touch [um_simps]: "um_at d (um_touch d k m) k' = um_at d m k'"
  by (auto simp: um_at_def um_find_touch)

lemma um_keys_find: "k \<in> um_keys m \<longleftrightarrow> (\<exists>v. um_find m k = Some v)"
  by (metis domD domI dom_map_of_conv_image_fst)

lemma um_keys_put [simp]: "um_keys (um_put k v m) = insert k (um_keys m)"
  by (simp add: dom_update)

lemma um_keys_erase [simp]: "um_keys (um_erase k m) = um_keys m - {k}"
  by (metis delete_keys list.set_map set_removeAll)

lemma um_keys_touch [simp]: "um_keys (um_touch d k m) = insert k (um_keys m)"
  by (auto simp: um_touch_def um_keys_find[symmetric] dom_update map_of_eq_None_iff
      split: option.split)

lemma um_touch_present [simp]: "k \<in> um_keys m \<Longrightarrow> um_touch d k m = m"
  by (auto simp: um_touch_def um_keys_find split: option.split)

lemma um_set_iff: "um_ok m \<Longrightarrow> (k, v) \<in> set m \<longleftrightarrow> um_find m k = Some v"
  by (simp add: um_ok_def)

lemma um_values_iff: "um_ok m \<Longrightarrow> v \<in> snd ` set m \<longleftrightarrow> (\<exists>k. um_find m k = Some v)"
  by (force simp: um_set_iff[symmetric])

section \<open>Transition systems\<close>

text \<open>
  The interface every concurrent component implements: a set of start states, a step relation and
  a predicate that holds at the start and is kept by each step. What the interface gives its users
  is the predicate in every reachable state.
\<close>

inductive reachable_from :: "('s \<Rightarrow> bool) \<Rightarrow> ('s \<Rightarrow> 's \<Rightarrow> bool) \<Rightarrow> 's \<Rightarrow> bool"
  for init :: "'s \<Rightarrow> bool" and step :: "'s \<Rightarrow> 's \<Rightarrow> bool" where
  reach_init: "init s \<Longrightarrow> reachable_from init step s"
| reach_step: "reachable_from init step s \<Longrightarrow> step s t \<Longrightarrow> reachable_from init step t"

locale invariant_system =
  fixes init :: "'s \<Rightarrow> bool"
    and step :: "'s \<Rightarrow> 's \<Rightarrow> bool"
    and inv :: "'s \<Rightarrow> bool"
  assumes inv_init: "init s \<Longrightarrow> inv s"
    and inv_step: "inv s \<Longrightarrow> step s t \<Longrightarrow> inv t"
begin

lemma reachable_inv: "reachable_from init step s \<Longrightarrow> inv s"
  by (induction rule: reachable_from.induct) (auto intro: inv_init inv_step)

lemma reachable_step_inv: "reachable_from init step s \<Longrightarrow> step s t \<Longrightarrow> inv s \<and> inv t"
  using reachable_inv inv_step by blast

end

end
