(* ===== verification/Role_Warehouse.thy ===== *)
theory Role_Warehouse
  imports Cyber_Prelude "HOL-Library.Multiset"
begin

text \<open>
  Roles and role containers of service discovery: \<open>service_discovery/role/role.{h,cc}\<close> and the two
  implementations of \<open>WarehouseBase\<close>, \<open>SingleValueWarehouse\<close> (at most one role per key) and
  \<open>MultiValueWarehouse\<close> (any number). The contract the managers rely on is the locale
  \<open>role_warehouse\<close>; both containers are interpretations of it.

  A role pointer held by a warehouse is never null (the managers create roles with
  \<open>make_shared\<close>), so a container stores roles. An output pointer is an \<open>out\<close> value: \<open>None\<close> is
  \<open>nullptr\<close>, \<open>Some x\<close> is a cell holding \<open>x\<close>. The read/write lock makes each operation atomic.
\<close>

section \<open>Role attributes\<close>

datatype qos_history = HISTORY_SYSTEM_DEFAULT | HISTORY_KEEP_LAST | HISTORY_KEEP_ALL
datatype qos_reliability = RELIABILITY_SYSTEM_DEFAULT | RELIABILITY_RELIABLE | RELIABILITY_BEST_EFFORT
datatype qos_durability = DURABILITY_SYSTEM_DEFAULT | DURABILITY_TRANSIENT_LOCAL | DURABILITY_VOLATILE

record qos_profile =
  qos_history_opt :: "qos_history option"
  qos_depth_opt :: "u32 option"
  qos_mps_opt :: "u32 option"
  qos_reliability_opt :: "qos_reliability option"
  qos_durability_opt :: "qos_durability option"

text \<open>
  The protobuf message \<open>RoleAttributes\<close>: every field is optional, reading an absent field gives
  the type's default.
\<close>

record role_attributes =
  host_name_opt :: "string option"
  host_ip_opt :: "string option"
  process_id_opt :: "int option"
  node_name_opt :: "string option"
  node_id_opt :: "u64 option"
  channel_name_opt :: "string option"
  channel_id_opt :: "u64 option"
  message_type_opt :: "string option"
  proto_desc_opt :: "string option"
  id_opt :: "u64 option"
  qos_profile_opt :: "qos_profile option"
  socket_addr_opt :: "(string option \<times> u32 option) option"
  service_name_opt :: "string option"
  service_id_opt :: "u64 option"

definition RoleAttributes :: role_attributes where
  "RoleAttributes = \<lparr>host_name_opt = None, host_ip_opt = None, process_id_opt = None,
     node_name_opt = None, node_id_opt = None, channel_name_opt = None, channel_id_opt = None,
     message_type_opt = None, proto_desc_opt = None, id_opt = None, qos_profile_opt = None,
     socket_addr_opt = None, service_name_opt = None, service_id_opt = None\<rparr>"

abbreviation pb_get :: "'a \<Rightarrow> 'a option \<Rightarrow> 'a" where
  "pb_get d f \<equiv> case_option d (\<lambda>x. x) f"

abbreviation "host_name a \<equiv> pb_get [] (host_name_opt a)"
abbreviation "host_ip a \<equiv> pb_get [] (host_ip_opt a)"
abbreviation "process_id a \<equiv> pb_get 0 (process_id_opt a)"
abbreviation "node_name a \<equiv> pb_get [] (node_name_opt a)"
abbreviation "node_id a \<equiv> pb_get 0 (node_id_opt a)"
abbreviation "channel_name a \<equiv> pb_get [] (channel_name_opt a)"
abbreviation "channel_id a \<equiv> pb_get 0 (channel_id_opt a)"
abbreviation "message_type a \<equiv> pb_get [] (message_type_opt a)"
abbreviation "proto_desc a \<equiv> pb_get [] (proto_desc_opt a)"
abbreviation "role_id a \<equiv> pb_get 0 (id_opt a)"
abbreviation "service_name a \<equiv> pb_get [] (service_name_opt a)"
abbreviation "service_id a \<equiv> pb_get 0 (service_id_opt a)"

section \<open>Roles\<close>

text \<open>The dynamic type of a role; readers are \<open>RoleWriter\<close>, clients are \<open>RoleServer\<close>.\<close>

datatype role_class = RoleBase | RoleWriter | RoleServer

record role =
  role_class :: role_class
  attributes :: role_attributes
  timestamp_ns :: u64

definition RoleBase_Match :: "role_attributes \<Rightarrow> role_attributes \<Rightarrow> bool" where
  "RoleBase_Match attrs target_attr =
     (if node_id_opt target_attr \<noteq> None \<and> node_id target_attr \<noteq> node_id attrs then False
      else if process_id_opt target_attr \<noteq> None \<and> process_id target_attr \<noteq> process_id attrs then False
      else if host_name_opt target_attr \<noteq> None \<and> host_name target_attr \<noteq> host_name attrs then False
      else True)"

definition RoleWriter_Match :: "role_attributes \<Rightarrow> role_attributes \<Rightarrow> bool" where
  "RoleWriter_Match attrs target_attr =
     (if channel_id_opt target_attr \<noteq> None \<and> channel_id target_attr \<noteq> channel_id attrs then False
      else if id_opt target_attr \<noteq> None \<and> role_id target_attr \<noteq> role_id attrs then False
      else RoleBase_Match attrs target_attr)"

definition RoleServer_Match :: "role_attributes \<Rightarrow> role_attributes \<Rightarrow> bool" where
  "RoleServer_Match attrs target_attr =
     (if service_id_opt target_attr \<noteq> None \<and> service_id target_attr \<noteq> service_id attrs then False
      else RoleBase_Match attrs target_attr)"

definition Match :: "role \<Rightarrow> role_attributes \<Rightarrow> bool" where
  "Match r target_attr =
     (case role_class r of
        RoleBase \<Rightarrow> RoleBase_Match (attributes r) target_attr
      | RoleWriter \<Rightarrow> RoleWriter_Match (attributes r) target_attr
      | RoleServer \<Rightarrow> RoleServer_Match (attributes r) target_attr)"

definition IsEarlierThan :: "role \<Rightarrow> role \<Rightarrow> bool" where
  "IsEarlierThan r other = (timestamp_ns r < timestamp_ns other)"

definition role_new :: "role_class \<Rightarrow> role_attributes \<Rightarrow> u64 \<Rightarrow> role" where
  "role_new c attr ts = \<lparr>role_class = c, attributes = attr, timestamp_ns = ts\<rparr>"

lemma Match_self [simp]: "Match r (attributes r)"
  by (simp add: Match_def RoleBase_Match_def RoleWriter_Match_def RoleServer_Match_def
      split: role_class.split)

lemma Match_empty [simp]: "Match r RoleAttributes"
  by (simp add: Match_def RoleBase_Match_def RoleWriter_Match_def RoleServer_Match_def
      RoleAttributes_def split: role_class.split)

lemma Match_module:
  "Match r (RoleAttributes\<lparr>host_name_opt := Some h, process_id_opt := Some p\<rparr>)
     \<longleftrightarrow> host_name (attributes r) = h \<and> process_id (attributes r) = p"
  by (auto simp: Match_def RoleBase_Match_def RoleWriter_Match_def RoleServer_Match_def
      RoleAttributes_def split: role_class.split)

section \<open>The single-value warehouse\<close>

type_synonym 'a out = "'a option"
type_synonym role_ptr = "role option"

record single_value_warehouse =
  sv_roles :: "(u64, role) umap"

definition SV_new :: single_value_warehouse where
  "SV_new = \<lparr>sv_roles = []\<rparr>"

definition SV_Add :: "single_value_warehouse \<Rightarrow> u64 \<Rightarrow> role \<Rightarrow> bool \<Rightarrow> bool \<times> single_value_warehouse" where
  "SV_Add w key r ignore_if_exist =
     (if \<not> ignore_if_exist \<and> um_find (sv_roles w) key \<noteq> None then (False, w)
      else (True, w\<lparr>sv_roles := um_put key r (sv_roles w)\<rparr>))"

definition SV_Clear :: "single_value_warehouse \<Rightarrow> single_value_warehouse" where
  "SV_Clear w = w\<lparr>sv_roles := []\<rparr>"

definition SV_Size :: "single_value_warehouse \<Rightarrow> nat" where
  "SV_Size w = length (sv_roles w)"

definition SV_Remove_key :: "single_value_warehouse \<Rightarrow> u64 \<Rightarrow> single_value_warehouse" where
  "SV_Remove_key w key = w\<lparr>sv_roles := um_erase key (sv_roles w)\<rparr>"

definition SV_Remove_role :: "single_value_warehouse \<Rightarrow> u64 \<Rightarrow> role \<Rightarrow> single_value_warehouse" where
  "SV_Remove_role w key r =
     (case um_find (sv_roles w) key of
        None \<Rightarrow> w
      | Some found \<Rightarrow>
          if \<not> Match found (attributes r) then w
          else w\<lparr>sv_roles := um_erase key (sv_roles w)\<rparr>)"

definition SV_Remove_attr :: "single_value_warehouse \<Rightarrow> role_attributes \<Rightarrow> single_value_warehouse" where
  "SV_Remove_attr w target_attr =
     w\<lparr>sv_roles := filter (\<lambda>item. \<not> Match (snd item) target_attr) (sv_roles w)\<rparr>"

definition SV_Search_key_ptr ::
  "single_value_warehouse \<Rightarrow> u64 \<Rightarrow> role_ptr out \<Rightarrow> bool \<times> role_ptr out" where
  "SV_Search_key_ptr w key first_matched_role =
     (case first_matched_role of
        None \<Rightarrow> (False, None)
      | Some old \<Rightarrow>
          (case um_find (sv_roles w) key of
             None \<Rightarrow> (False, Some old)
           | Some r \<Rightarrow> (True, Some (Some r))))"

definition SV_Search_key :: "single_value_warehouse \<Rightarrow> u64 \<Rightarrow> bool" where
  "SV_Search_key w key = fst (SV_Search_key_ptr w key (Some None))"

definition SV_Search_key_attr ::
  "single_value_warehouse \<Rightarrow> u64 \<Rightarrow> role_attributes out \<Rightarrow> bool \<times> role_attributes out" where
  "SV_Search_key_attr w key first_matched_role_attr =
     (case first_matched_role_attr of
        None \<Rightarrow> (False, None)
      | Some old \<Rightarrow>
          (case SV_Search_key_ptr w key (Some None) of
             (True, Some (Some r)) \<Rightarrow> (True, Some (attributes r))
           | _ \<Rightarrow> (False, Some old)))"

definition SV_Search_key_roles ::
  "single_value_warehouse \<Rightarrow> u64 \<Rightarrow> role list out \<Rightarrow> bool \<times> role list out" where
  "SV_Search_key_roles w key matched_roles =
     (case matched_roles of
        None \<Rightarrow> (False, None)
      | Some vec \<Rightarrow>
          (case SV_Search_key_ptr w key (Some None) of
             (True, Some (Some r)) \<Rightarrow> (True, Some (vec @ [r]))
           | _ \<Rightarrow> (False, Some vec)))"

definition SV_Search_key_attrs ::
  "single_value_warehouse \<Rightarrow> u64 \<Rightarrow> role_attributes list out \<Rightarrow> bool \<times> role_attributes list out" where
  "SV_Search_key_attrs w key matched_roles_attr =
     (case matched_roles_attr of
        None \<Rightarrow> (False, None)
      | Some vec \<Rightarrow>
          (case SV_Search_key_ptr w key (Some None) of
             (True, Some (Some r)) \<Rightarrow> (True, Some (vec @ [attributes r]))
           | _ \<Rightarrow> (False, Some vec)))"

text \<open>The scanning searches walk the whole container; they share these two loops.\<close>

fun first_match :: "(u64 \<times> role) list \<Rightarrow> role_attributes \<Rightarrow> role_ptr" where
  "first_match [] target_attr = None"
| "first_match (item # items) target_attr =
     (if Match (snd item) target_attr then Some (snd item) else first_match items target_attr)"

fun collect_matches :: "(role \<Rightarrow> 'b) \<Rightarrow> (u64 \<times> role) list \<Rightarrow> role_attributes \<Rightarrow> bool \<times> 'b list \<Rightarrow> bool \<times> 'b list" where
  "collect_matches f [] target_attr acc = acc"
| "collect_matches f (item # items) target_attr (found_any, vec) =
     collect_matches f items target_attr
       (if Match (snd item) target_attr then (True, vec @ [f (snd item)]) else (found_any, vec))"

definition scan_ptr :: "(u64 \<times> role) list \<Rightarrow> role_attributes \<Rightarrow> role_ptr out \<Rightarrow> bool \<times> role_ptr out" where
  "scan_ptr items target_attr first_matched_role =
     (case first_matched_role of
        None \<Rightarrow> (False, None)
      | Some old \<Rightarrow>
          (case first_match items target_attr of
             None \<Rightarrow> (False, Some old)
           | Some r \<Rightarrow> (True, Some (Some r))))"

definition scan_vec :: "(role \<Rightarrow> 'b) \<Rightarrow> (u64 \<times> role) list \<Rightarrow> role_attributes \<Rightarrow> 'b list out \<Rightarrow> bool \<times> 'b list out" where
  "scan_vec f items target_attr out =
     (case out of
        None \<Rightarrow> (False, None)
      | Some vec \<Rightarrow> (case collect_matches f items target_attr (False, vec) of (found_any, vec') \<Rightarrow> (found_any, Some vec')))"

definition SV_Search_attr_ptr ::
  "single_value_warehouse \<Rightarrow> role_attributes \<Rightarrow> role_ptr out \<Rightarrow> bool \<times> role_ptr out" where
  "SV_Search_attr_ptr w target_attr out = scan_ptr (sv_roles w) target_attr out"

definition SV_Search_attr :: "single_value_warehouse \<Rightarrow> role_attributes \<Rightarrow> bool" where
  "SV_Search_attr w target_attr = fst (SV_Search_attr_ptr w target_attr (Some None))"

definition SV_Search_attr_attr ::
  "single_value_warehouse \<Rightarrow> role_attributes \<Rightarrow> role_attributes out \<Rightarrow> bool \<times> role_attributes out" where
  "SV_Search_attr_attr w target_attr first_matched_role_attr =
     (case first_matched_role_attr of
        None \<Rightarrow> (False, None)
      | Some old \<Rightarrow>
          (case SV_Search_attr_ptr w target_attr (Some None) of
             (True, Some (Some r)) \<Rightarrow> (True, Some (attributes r))
           | _ \<Rightarrow> (False, Some old)))"

definition SV_Search_attr_roles ::
  "single_value_warehouse \<Rightarrow> role_attributes \<Rightarrow> role list out \<Rightarrow> bool \<times> role list out" where
  "SV_Search_attr_roles w target_attr out = scan_vec (\<lambda>r. r) (sv_roles w) target_attr out"

definition SV_Search_attr_attrs ::
  "single_value_warehouse \<Rightarrow> role_attributes \<Rightarrow> role_attributes list out \<Rightarrow> bool \<times> role_attributes list out" where
  "SV_Search_attr_attrs w target_attr out = scan_vec attributes (sv_roles w) target_attr out"

definition SV_GetAllRoles :: "single_value_warehouse \<Rightarrow> role list out \<Rightarrow> role list out" where
  "SV_GetAllRoles w roles = map_option (\<lambda>vec. vec @ map snd (sv_roles w)) roles"

definition SV_GetAllRoles_attr ::
  "single_value_warehouse \<Rightarrow> role_attributes list out \<Rightarrow> role_attributes list out" where
  "SV_GetAllRoles_attr w roles_attr = map_option (\<lambda>vec. vec @ map (attributes \<circ> snd) (sv_roles w)) roles_attr"

section \<open>The multi-value warehouse\<close>

text \<open>
  \<open>unordered_multimap\<close>: a list of pairs in which a key may repeat. \<open>find\<close> returns some entry of
  the key; nothing below depends on which one.
\<close>

record multi_value_warehouse =
  mv_roles :: "(u64 \<times> role) list"

definition MV_new :: multi_value_warehouse where
  "MV_new = \<lparr>mv_roles = []\<rparr>"

definition equal_range :: "u64 \<Rightarrow> (u64 \<times> role) list \<Rightarrow> (u64 \<times> role) list" where
  "equal_range key items = filter (\<lambda>item. fst item = key) items"

definition MV_Add :: "multi_value_warehouse \<Rightarrow> u64 \<Rightarrow> role \<Rightarrow> bool \<Rightarrow> bool \<times> multi_value_warehouse" where
  "MV_Add w key r ignore_if_exist =
     (if \<not> ignore_if_exist \<and> um_find (mv_roles w) key \<noteq> None then (False, w)
      else (True, w\<lparr>mv_roles := mv_roles w @ [(key, r)]\<rparr>))"

definition MV_Clear :: "multi_value_warehouse \<Rightarrow> multi_value_warehouse" where
  "MV_Clear w = w\<lparr>mv_roles := []\<rparr>"

definition MV_Size :: "multi_value_warehouse \<Rightarrow> nat" where
  "MV_Size w = length (mv_roles w)"

definition MV_Remove_key :: "multi_value_warehouse \<Rightarrow> u64 \<Rightarrow> multi_value_warehouse" where
  "MV_Remove_key w key = w\<lparr>mv_roles := filter (\<lambda>item. fst item \<noteq> key) (mv_roles w)\<rparr>"

definition MV_Remove_role :: "multi_value_warehouse \<Rightarrow> u64 \<Rightarrow> role \<Rightarrow> multi_value_warehouse" where
  "MV_Remove_role w key r =
     w\<lparr>mv_roles := filter (\<lambda>item. \<not> (fst item = key \<and> Match (snd item) (attributes r))) (mv_roles w)\<rparr>"

definition MV_Remove_attr :: "multi_value_warehouse \<Rightarrow> role_attributes \<Rightarrow> multi_value_warehouse" where
  "MV_Remove_attr w target_attr =
     w\<lparr>mv_roles := filter (\<lambda>item. \<not> Match (snd item) target_attr) (mv_roles w)\<rparr>"

definition MV_Search_key_ptr ::
  "multi_value_warehouse \<Rightarrow> u64 \<Rightarrow> role_ptr out \<Rightarrow> bool \<times> role_ptr out" where
  "MV_Search_key_ptr w key first_matched_role =
     (case first_matched_role of
        None \<Rightarrow> (False, None)
      | Some old \<Rightarrow>
          (case um_find (mv_roles w) key of
             None \<Rightarrow> (False, Some old)
           | Some r \<Rightarrow> (True, Some (Some r))))"

definition MV_Search_key :: "multi_value_warehouse \<Rightarrow> u64 \<Rightarrow> bool" where
  "MV_Search_key w key = fst (MV_Search_key_ptr w key (Some None))"

definition MV_Search_key_attr ::
  "multi_value_warehouse \<Rightarrow> u64 \<Rightarrow> role_attributes out \<Rightarrow> bool \<times> role_attributes out" where
  "MV_Search_key_attr w key first_matched_role_attr =
     (case first_matched_role_attr of
        None \<Rightarrow> (False, None)
      | Some old \<Rightarrow>
          (case MV_Search_key_ptr w key (Some None) of
             (True, Some (Some r)) \<Rightarrow> (True, Some (attributes r))
           | _ \<Rightarrow> (False, Some old)))"

definition range_vec :: "(role \<Rightarrow> 'b) \<Rightarrow> (u64 \<times> role) list \<Rightarrow> 'b list out \<Rightarrow> bool \<times> 'b list out" where
  "range_vec f rng out =
     (case out of
        None \<Rightarrow> (False, None)
      | Some vec \<Rightarrow>
          (case fold (\<lambda>item (found_any, vec). (True, vec @ [f (snd item)])) rng (False, vec) of
             (found_any, vec') \<Rightarrow> (found_any, Some vec')))"

definition MV_Search_key_roles ::
  "multi_value_warehouse \<Rightarrow> u64 \<Rightarrow> role list out \<Rightarrow> bool \<times> role list out" where
  "MV_Search_key_roles w key out = range_vec (\<lambda>r. r) (equal_range key (mv_roles w)) out"

definition MV_Search_key_attrs ::
  "multi_value_warehouse \<Rightarrow> u64 \<Rightarrow> role_attributes list out \<Rightarrow> bool \<times> role_attributes list out" where
  "MV_Search_key_attrs w key out = range_vec attributes (equal_range key (mv_roles w)) out"

definition MV_Search_attr_ptr ::
  "multi_value_warehouse \<Rightarrow> role_attributes \<Rightarrow> role_ptr out \<Rightarrow> bool \<times> role_ptr out" where
  "MV_Search_attr_ptr w target_attr out = scan_ptr (mv_roles w) target_attr out"

definition MV_Search_attr :: "multi_value_warehouse \<Rightarrow> role_attributes \<Rightarrow> bool" where
  "MV_Search_attr w target_attr = fst (MV_Search_attr_ptr w target_attr (Some None))"

definition MV_Search_attr_attr ::
  "multi_value_warehouse \<Rightarrow> role_attributes \<Rightarrow> role_attributes out \<Rightarrow> bool \<times> role_attributes out" where
  "MV_Search_attr_attr w target_attr first_matched_role_attr =
     (case first_matched_role_attr of
        None \<Rightarrow> (False, None)
      | Some old \<Rightarrow>
          (case MV_Search_attr_ptr w target_attr (Some None) of
             (True, Some (Some r)) \<Rightarrow> (True, Some (attributes r))
           | _ \<Rightarrow> (False, Some old)))"

definition MV_Search_attr_roles ::
  "multi_value_warehouse \<Rightarrow> role_attributes \<Rightarrow> role list out \<Rightarrow> bool \<times> role list out" where
  "MV_Search_attr_roles w target_attr out = scan_vec (\<lambda>r. r) (mv_roles w) target_attr out"

definition MV_Search_attr_attrs ::
  "multi_value_warehouse \<Rightarrow> role_attributes \<Rightarrow> role_attributes list out \<Rightarrow> bool \<times> role_attributes list out" where
  "MV_Search_attr_attrs w target_attr out = scan_vec attributes (mv_roles w) target_attr out"

definition MV_GetAllRoles :: "multi_value_warehouse \<Rightarrow> role list out \<Rightarrow> role list out" where
  "MV_GetAllRoles w roles = map_option (\<lambda>vec. vec @ map snd (mv_roles w)) roles"

definition MV_GetAllRoles_attr ::
  "multi_value_warehouse \<Rightarrow> role_attributes list out \<Rightarrow> role_attributes list out" where
  "MV_GetAllRoles_attr w roles_attr = map_option (\<lambda>vec. vec @ map (attributes \<circ> snd) (mv_roles w)) roles_attr"

section \<open>The contract of a warehouse\<close>

text \<open>
  What the managers rely on, in terms of the multiset of (key, role) pairs a container holds. The
  two containers differ only in what adding to an occupied key does to the old roles of that key,
  which the contract leaves open.
\<close>

locale role_warehouse =
  fixes ok :: "'w \<Rightarrow> bool"
    and entries :: "'w \<Rightarrow> (u64 \<times> role) multiset"
    and add :: "'w \<Rightarrow> u64 \<Rightarrow> role \<Rightarrow> bool \<Rightarrow> bool \<times> 'w"
    and clear :: "'w \<Rightarrow> 'w"
    and size_of :: "'w \<Rightarrow> nat"
    and remove_key :: "'w \<Rightarrow> u64 \<Rightarrow> 'w"
    and remove_role :: "'w \<Rightarrow> u64 \<Rightarrow> role \<Rightarrow> 'w"
    and remove_attr :: "'w \<Rightarrow> role_attributes \<Rightarrow> 'w"
    and search_key :: "'w \<Rightarrow> u64 \<Rightarrow> bool"
    and search_attr :: "'w \<Rightarrow> role_attributes \<Rightarrow> bool"
    and key_roles :: "'w \<Rightarrow> u64 \<Rightarrow> role list out \<Rightarrow> bool \<times> role list out"
    and attr_roles :: "'w \<Rightarrow> role_attributes \<Rightarrow> role list out \<Rightarrow> bool \<times> role list out"
    and all_roles :: "'w \<Rightarrow> role list out \<Rightarrow> role list out"
  assumes ok_add: "ok w \<Longrightarrow> ok (snd (add w k r ig))"
    and ok_clear: "ok (clear w)"
    and ok_remove_key: "ok w \<Longrightarrow> ok (remove_key w k)"
    and ok_remove_role: "ok w \<Longrightarrow> ok (remove_role w k r)"
    and ok_remove_attr: "ok w \<Longrightarrow> ok (remove_attr w a)"
    and add_occupied: "ok w \<Longrightarrow> (k, r') \<in># entries w \<Longrightarrow> add w k r False = (False, w)"
    and add_fresh: "ok w \<Longrightarrow> \<forall>r'. (k, r') \<notin># entries w \<Longrightarrow>
      fst (add w k r ig) \<and> entries (snd (add w k r ig)) = add_mset (k, r) (entries w)"
    and add_stores: "ok w \<Longrightarrow> fst (add w k r True) \<and> (k, r) \<in># entries (snd (add w k r True))"
    and add_other: "ok w \<Longrightarrow> {#e \<in># entries (snd (add w k r ig)). fst e \<noteq> k#} = {#e \<in># entries w. fst e \<noteq> k#}"
    and entries_clear: "entries (clear w) = {#}"
    and entries_remove_key: "ok w \<Longrightarrow> entries (remove_key w k) = {#e \<in># entries w. fst e \<noteq> k#}"
    and entries_remove_role: "ok w \<Longrightarrow> entries (remove_role w k r) =
      {#e \<in># entries w. \<not> (fst e = k \<and> Match (snd e) (attributes r))#}"
    and entries_remove_attr: "ok w \<Longrightarrow> entries (remove_attr w a) = {#e \<in># entries w. \<not> Match (snd e) a#}"
    and size_of_entries: "size_of w = size (entries w)"
    and search_key_iff: "search_key w k \<longleftrightarrow> (\<exists>r. (k, r) \<in># entries w)"
    and search_attr_iff: "search_attr w a \<longleftrightarrow> (\<exists>k r. (k, r) \<in># entries w \<and> Match r a)"
    and key_roles_spec: "ok w \<Longrightarrow> \<exists>rs. key_roles w k (Some vec) = (rs \<noteq> [], Some (vec @ rs))
      \<and> mset rs = image_mset snd {#e \<in># entries w. fst e = k#}"
    and attr_roles_spec: "\<exists>rs. attr_roles w a (Some vec) = (rs \<noteq> [], Some (vec @ rs))
      \<and> mset rs = image_mset snd {#e \<in># entries w. Match (snd e) a#}"
    and all_roles_spec: "\<exists>rs. all_roles w (Some vec) = Some (vec @ rs) \<and> mset rs = image_mset snd (entries w)"
begin

lemmas ok_ops = ok_add ok_clear ok_remove_key ok_remove_role ok_remove_attr

lemma add_found: "ok w \<Longrightarrow> search_key (snd (add w k r True)) k"
  using add_stores by (auto simp: search_key_iff)

lemma add_keeps_other:
  assumes "ok w" and "k' \<noteq> k"
  shows "search_key (snd (add w k r ig)) k' = search_key w k'"
proof -
  have "(k', r') \<in># entries (snd (add w k r ig)) \<longleftrightarrow> (k', r') \<in># entries w" for r'
    using add_other [OF assms(1), of k r ig] assms(2)
    by (metis (mono_tags, lifting) fst_conv mem_Collect_eq set_mset_filter)
  then show ?thesis by (simp add: search_key_iff)
qed

lemma add_remove_roundtrip:
  assumes "ok w" and "\<not> search_key w k"
  shows "entries (remove_key (snd (add w k r ig)) k) = entries w"
proof -
  have "\<forall>r'. (k, r') \<notin># entries w" using assms(2) by (simp add: search_key_iff)
  then have "{#e \<in># entries w. fst e \<noteq> k#} = entries w"
    by (intro multiset_eqI) (auto simp: not_in_iff)
  then show ?thesis
    using assms(1) by (simp add: entries_remove_key ok_add add_other)
qed

lemma remove_key_gone: "ok w \<Longrightarrow> \<not> search_key (remove_key w k) k"
  by (auto simp: search_key_iff entries_remove_key)

lemma remove_role_gone: "ok w \<Longrightarrow> (k, r) \<notin># entries (remove_role w k r)"
  by (simp add: entries_remove_role)

lemma remove_attr_gone: "ok w \<Longrightarrow> \<not> search_attr (remove_attr w a) a"
  by (auto simp: search_attr_iff entries_remove_attr)

lemma remove_attr_keeps: "ok w \<Longrightarrow> \<not> Match r a \<Longrightarrow> (k, r) \<in># entries (remove_attr w a) \<longleftrightarrow> (k, r) \<in># entries w"
  by (simp add: entries_remove_attr)

lemma search_size: "search_attr w a \<Longrightarrow> 0 < size_of w"
  by (auto simp: search_attr_iff size_of_entries dest!: multi_member_split)

end

section \<open>Both warehouses meet the contract\<close>

lemma first_match_iff: "first_match items a = None \<longleftrightarrow> (\<forall>item \<in> set items. \<not> Match (snd item) a)"
  by (induction items) auto

lemma collect_matches_eq:
  "collect_matches f items a (found_any, vec) =
     (found_any \<or> filter (\<lambda>item. Match (snd item) a) items \<noteq> [],
      vec @ map (f \<circ> snd) (filter (\<lambda>item. Match (snd item) a) items))"
  by (induction items arbitrary: found_any vec) auto

lemma range_fold_eq:
  "fold (\<lambda>item (found_any, vec). (True, vec @ [f (snd item)])) rng (found_any, vec) =
     (found_any \<or> rng \<noteq> [], vec @ map (f \<circ> snd) rng)"
  by (induction rng arbitrary: found_any vec) auto

lemma scan_ptr_found: "fst (scan_ptr items a (Some old)) \<longleftrightarrow> (\<exists>item \<in> set items. Match (snd item) a)"
  using first_match_iff [of items a] by (auto simp: scan_ptr_def split: option.split)

lemma scan_vec_eq:
  "scan_vec f items a (Some vec) =
     (map (f \<circ> snd) (filter (\<lambda>item. Match (snd item) a) items) \<noteq> [],
      Some (vec @ map (f \<circ> snd) (filter (\<lambda>item. Match (snd item) a) items)))"
  by (simp add: scan_vec_def collect_matches_eq)

lemma range_vec_eq:
  "range_vec f rng (Some vec) = (map (f \<circ> snd) rng \<noteq> [], Some (vec @ map (f \<circ> snd) rng))"
  by (simp add: range_vec_def range_fold_eq)

definition sv_ok :: "single_value_warehouse \<Rightarrow> bool" where
  "sv_ok w \<longleftrightarrow> um_ok (sv_roles w)"

definition sv_entries :: "single_value_warehouse \<Rightarrow> (u64 \<times> role) multiset" where
  "sv_entries w = mset (sv_roles w)"

definition mv_entries :: "multi_value_warehouse \<Rightarrow> (u64 \<times> role) multiset" where
  "mv_entries w = mset (mv_roles w)"

lemma um_put_fresh: "k \<notin> um_keys m \<Longrightarrow> um_put k v m = m @ [(k, v)]"
  by (induction m) auto

lemma um_put_filter: "filter (\<lambda>e. fst e \<noteq> k) (um_put k v m) = filter (\<lambda>e. fst e \<noteq> k) m"
  by (induction m) auto

lemma um_erase_filter: "um_erase k m = filter (\<lambda>e. fst e \<noteq> k) m"
  by (induction m) auto

lemma um_ok_filter: "um_ok m \<Longrightarrow> um_ok (filter P m)"
  by (simp add: um_ok_def distinct_map_filter)

lemma um_fresh_mset: "(\<forall>r. (k, r) \<notin># mset m) \<longleftrightarrow> k \<notin> um_keys m"
  by force

lemma um_filter_one:
  "um_ok m \<Longrightarrow> um_find m k = Some v \<Longrightarrow> filter (\<lambda>e. \<not> (fst e = k \<and> P (snd e))) m
     = (if P v then um_erase k m else m)"
  by (auto simp: um_erase_filter um_set_iff intro!: filter_cong filter_True)

lemma um_filter_none:
  "um_find m k = None \<Longrightarrow> filter (\<lambda>e. \<not> (fst e = k \<and> P (snd e))) m = m"
  by (auto simp: map_of_eq_None_iff intro!: filter_True)

lemma um_filter_key:
  "um_ok m \<Longrightarrow> filter (\<lambda>e. fst e = k) m = (case um_find m k of None \<Rightarrow> [] | Some v \<Rightarrow> [(k, v)])"
  by (induction m) (auto simp: um_ok_def map_of_eq_None_iff filter_empty_conv image_iff split: option.splits)

interpretation sv: role_warehouse sv_ok sv_entries SV_Add SV_Clear SV_Size SV_Remove_key SV_Remove_role
  SV_Remove_attr SV_Search_key SV_Search_attr SV_Search_key_roles SV_Search_attr_roles SV_GetAllRoles
proof (unfold_locales, goal_cases)
  case (1 w k r ig)
  then show ?case by (simp add: sv_ok_def SV_Add_def)
next
  case (2 w)
  show ?case by (simp add: sv_ok_def SV_Clear_def)
next
  case (3 w k)
  then show ?case by (simp add: sv_ok_def SV_Remove_key_def)
next
  case (4 w k r)
  then show ?case by (simp add: sv_ok_def SV_Remove_role_def split: option.split)
next
  case (5 w a)
  then show ?case by (simp add: sv_ok_def SV_Remove_attr_def um_ok_filter)
next
  case (6 w k r' r)
  then show ?case by (simp add: sv_ok_def sv_entries_def SV_Add_def um_set_iff)
next
  case (7 w k r ig)
  then have "k \<notin> um_keys (sv_roles w)" by (simp add: sv_entries_def um_fresh_mset [symmetric])
  then show ?case by (simp add: sv_entries_def SV_Add_def um_put_fresh map_of_eq_None_iff)
next
  case (8 w k r)
  then have "um_ok (um_put k r (sv_roles w))" by (simp add: sv_ok_def)
  then show ?case by (simp add: sv_entries_def SV_Add_def um_set_iff um_simps)
next
  case (9 w k r ig)
  show ?case by (simp add: sv_entries_def SV_Add_def um_put_filter flip: mset_filter)
next
  case (10 w)
  show ?case by (simp add: sv_entries_def SV_Clear_def)
next
  case (11 w k)
  show ?case by (simp add: sv_entries_def SV_Remove_key_def um_erase_filter flip: mset_filter)
next
  case (12 w k r)
  then show ?case
    using um_filter_one [of "sv_roles w" k _ "\<lambda>x. Match x (attributes r)"]
      um_filter_none [of "sv_roles w" k "\<lambda>x. Match x (attributes r)"]
    by (auto simp: sv_entries_def sv_ok_def SV_Remove_role_def split: option.split simp flip: mset_filter)
next
  case (13 w a)
  show ?case by (simp add: sv_entries_def SV_Remove_attr_def flip: mset_filter)
next
  case (14 w)
  show ?case by (simp add: sv_entries_def SV_Size_def)
next
  case (15 w k)
  have "(\<exists>r. (k, r) \<in> set (sv_roles w)) \<longleftrightarrow> um_find (sv_roles w) k \<noteq> None"
    by (metis map_of_SomeD not_None_eq weak_map_of_SomeI)
  then show ?case
    by (auto simp: sv_entries_def SV_Search_key_def SV_Search_key_ptr_def split: option.splits)
next
  case (16 w a)
  show ?case by (force simp: sv_entries_def SV_Search_attr_def SV_Search_attr_ptr_def scan_ptr_found)
next
  case (17 w k vec)
  then show ?case
    by (simp add: sv_entries_def sv_ok_def SV_Search_key_roles_def SV_Search_key_ptr_def um_filter_key
        split: option.split flip: mset_filter)
next
  case (18 w a vec)
  show ?case by (auto simp: sv_entries_def SV_Search_attr_roles_def scan_vec_eq o_def simp flip: mset_filter)
next
  case (19 w vec)
  show ?case by (simp add: sv_entries_def SV_GetAllRoles_def)
qed

interpretation mv: role_warehouse "\<lambda>_. True" mv_entries MV_Add MV_Clear MV_Size MV_Remove_key MV_Remove_role
  MV_Remove_attr MV_Search_key MV_Search_attr MV_Search_key_roles MV_Search_attr_roles MV_GetAllRoles
proof (unfold_locales, goal_cases)
  case (6 w k r' r)
  then have "um_find (mv_roles w) k \<noteq> None" by (metis mv_entries_def set_mset_mset weak_map_of_SomeI not_None_eq)
  then show ?case by (simp add: MV_Add_def)
next
  case (7 w k r ig)
  then have "um_find (mv_roles w) k = None"
    by (metis mv_entries_def set_mset_mset map_of_SomeD not_None_eq)
  then show ?case by (simp add: mv_entries_def MV_Add_def)
next
  case (15 w k)
  have "(\<exists>r. (k, r) \<in> set (mv_roles w)) \<longleftrightarrow> um_find (mv_roles w) k \<noteq> None"
    by (metis map_of_SomeD not_None_eq weak_map_of_SomeI)
  then show ?case
    by (auto simp: mv_entries_def MV_Search_key_def MV_Search_key_ptr_def split: option.splits)
next
  case (16 w a)
  show ?case by (force simp: mv_entries_def MV_Search_attr_def MV_Search_attr_ptr_def scan_ptr_found)
next
  case (17 w k vec)
  show ?case
    by (auto simp: mv_entries_def MV_Search_key_roles_def equal_range_def range_vec_eq o_def simp flip: mset_filter)
next
  case (18 w a vec)
  show ?case by (auto simp: mv_entries_def MV_Search_attr_roles_def scan_vec_eq o_def simp flip: mset_filter)
qed (simp_all add: mv_entries_def MV_Add_def MV_Clear_def MV_Size_def MV_Remove_key_def MV_Remove_role_def
    MV_Remove_attr_def MV_GetAllRoles_def flip: mset_filter)

section \<open>Properties\<close>

text \<open>
  A single-value warehouse stores and forgets one role per key. Adding under a free key succeeds,
  searching that key then returns exactly this role, a second \<open>Add\<close> that does not ignore existing
  entries is refused and changes nothing, every other key is unaffected, and removing the key gives
  back the entries the warehouse had before.
\<close>

theorem single_warehouse_roundtrip:
  assumes "sv_ok w" and "\<not> SV_Search_key w k" and "SV_Add w k r ig = (res, w')"
  shows "res \<and> SV_Search_key_ptr w' k (Some old) = (True, Some (Some r))
    \<and> SV_Add w' k r2 False = (False, w')
    \<and> (\<forall>k'. k' \<noteq> k \<longrightarrow> SV_Search_key_ptr w' k' out = SV_Search_key_ptr w k' out)
    \<and> sv_entries (SV_Remove_key w' k) = sv_entries w \<and> sv_ok w'"
proof -
  have w': "w' = snd (SV_Add w k r ig)" using assms(3) by simp
  have none: "um_find (sv_roles w) k = None"
    using assms(2) by (auto simp: SV_Search_key_def SV_Search_key_ptr_def split: option.splits)
  have put: "res" "sv_roles w' = um_put k r (sv_roles w)"
    using assms(3) none by (auto simp: SV_Add_def)
  have "SV_Search_key_ptr w' k' out = SV_Search_key_ptr w k' out" if "k' \<noteq> k" for k'
    using that by (cases out) (simp_all add: SV_Search_key_ptr_def put um_simps)
  moreover have "sv_entries (SV_Remove_key w' k) = sv_entries w" "sv_ok w'"
    using sv.add_remove_roundtrip [OF assms(1,2)] sv.ok_add [OF assms(1)] by (simp_all add: w')
  moreover have "SV_Search_key_ptr w' k (Some old) = (True, Some (Some r))" "SV_Add w' k r2 False = (False, w')"
    by (simp_all add: SV_Search_key_ptr_def SV_Add_def put um_simps)
  ultimately show ?thesis using put by blast
qed

theorem single_warehouse_roundtrip_witness:
  "\<exists>w'. SV_Add SV_new 7 (role_new RoleBase RoleAttributes 1) False = (True, w')
     \<and> SV_Search_key_ptr w' 7 (Some None) = (True, Some (Some (role_new RoleBase RoleAttributes 1)))"
proof -
  have ok: "sv_ok SV_new" and free: "\<not> SV_Search_key SV_new 7"
    by (simp_all add: sv_ok_def SV_new_def SV_Search_key_def SV_Search_key_ptr_def)
  obtain res w' where add: "SV_Add SV_new 7 (role_new RoleBase RoleAttributes 1) False = (res, w')"
    by fastforce
  from single_warehouse_roundtrip [OF ok free add, of None] add show ?thesis by simp
qed

text \<open>
  Removing a role from a multi-value warehouse is selective. After \<open>Remove(key, role)\<close> the
  search of that key returns, in order, exactly the roles of the key that do not match the removed
  role's attributes; other keys keep all their roles; and when the other roles of the key do not
  match, this undoes an \<open>Add\<close>.
\<close>

theorem multi_warehouse_selective_remove:
  "\<exists>rs. MV_Search_key_roles w k (Some []) = (rs \<noteq> [], Some rs)
     \<and> MV_Search_key_roles (MV_Remove_role w k r) k (Some [])
         = (filter (\<lambda>x. \<not> Match x (attributes r)) rs \<noteq> [], Some (filter (\<lambda>x. \<not> Match x (attributes r)) rs))
     \<and> (\<forall>k'. k' \<noteq> k \<longrightarrow> MV_Search_key_roles (MV_Remove_role w k r) k' out = MV_Search_key_roles w k' out)
     \<and> ((\<forall>x \<in> set rs. \<not> Match x (attributes r)) \<longrightarrow> MV_Remove_role (snd (MV_Add w k r True)) k r = w)"
proof -
  let ?rs = "map snd (equal_range k (mv_roles w))"
  have same: "equal_range k (mv_roles (MV_Remove_role w k r))
      = filter (\<lambda>e. \<not> Match (snd e) (attributes r)) (equal_range k (mv_roles w))"
    by (auto simp: equal_range_def MV_Remove_role_def intro!: filter_cong)
  have other: "equal_range k' (mv_roles (MV_Remove_role w k r)) = equal_range k' (mv_roles w)" if "k' \<noteq> k" for k'
    using that by (auto simp: equal_range_def MV_Remove_role_def intro!: filter_cong)
  have undo: "MV_Remove_role (snd (MV_Add w k r True)) k r = w" if "\<forall>x \<in> set ?rs. \<not> Match x (attributes r)"
  proof -
    have "filter (\<lambda>e. \<not> (fst e = k \<and> Match (snd e) (attributes r))) (mv_roles w) = mv_roles w"
      using that by (auto simp: equal_range_def intro!: filter_True)
    then show ?thesis by (simp add: MV_Remove_role_def MV_Add_def)
  qed
  show ?thesis
    by (rule exI [of _ ?rs])
      (use undo other in \<open>auto simp: MV_Search_key_roles_def range_vec_eq same filter_map o_def id_def\<close>)
qed

theorem multi_warehouse_selective_remove_witness:
  "MV_Remove_role (snd (MV_Add MV_new 3 (role_new RoleWriter RoleAttributes 1) True)) 3
     (role_new RoleWriter RoleAttributes 1) = MV_new"
  using multi_warehouse_selective_remove [of MV_new 3 "role_new RoleWriter RoleAttributes 1" None]
  by (simp add: MV_new_def MV_Search_key_roles_def equal_range_def range_vec_def)

text \<open>
  Purging by attributes, which the managers do when a remote process disappears, is exact in both
  containers: afterwards no role of that host and process is found, and every other role is still
  there under its key.
\<close>

theorem warehouse_module_purge:
  fixes h :: string and p :: int
  defines "target \<equiv> RoleAttributes\<lparr>host_name_opt := Some h, process_id_opt := Some p\<rparr>"
  assumes "sv_ok w"
  shows "\<not> SV_Search_attr (SV_Remove_attr w target) target
    \<and> \<not> MV_Search_attr (MV_Remove_attr m target) target
    \<and> (\<forall>k r. (k, r) \<in># sv_entries (SV_Remove_attr w target) \<longleftrightarrow> (k, r) \<in># sv_entries w
          \<and> (host_name (attributes r), process_id (attributes r)) \<noteq> (h, p))
    \<and> (\<forall>k r. (k, r) \<in># mv_entries (MV_Remove_attr m target) \<longleftrightarrow> (k, r) \<in># mv_entries m
          \<and> (host_name (attributes r), process_id (attributes r)) \<noteq> (h, p))"
  using sv.remove_attr_gone [OF assms(2), of target] mv.remove_attr_gone [of m target]
  by (auto simp: sv.entries_remove_attr [OF assms(2)] mv.entries_remove_attr target_def Match_module)

theorem warehouse_module_purge_witness:
  "\<not> SV_Search_attr (SV_Remove_attr (snd (SV_Add SV_new 1 (role_new RoleBase RoleAttributes 1) False))
       (RoleAttributes\<lparr>host_name_opt := Some ''h'', process_id_opt := Some 0\<rparr>))
     (RoleAttributes\<lparr>host_name_opt := Some ''h'', process_id_opt := Some 0\<rparr>)"
proof -
  have "sv_ok (snd (SV_Add SV_new 1 (role_new RoleBase RoleAttributes 1) False))"
    by (simp add: sv_ok_def SV_new_def SV_Add_def um_ok_def)
  from warehouse_module_purge [where h = "''h''" and p = 0, OF this] show ?thesis by simp
qed

end
