(* ===== verification/Signal_Slots.thy ===== *)
theory Signal_Slots
  imports Cyber_Prelude "HOL-Library.Sublist"
begin

text \<open>
  \<open>base/signal.h\<close>: \<open>Signal\<close>, \<open>Slot\<close> and \<open>Connection\<close>.

  A slot is shared between the signal's list and the connections handed out, and its
  \<open>connected_\<close> flag is read through all of them, so slots live in a store indexed by the
  address \<open>slot_ptr\<close>; \<open>slots\<close> is the signal's list of pointers. A callback may connect and
  disconnect slots of the signal that is calling it: \<open>run cb args\<close> is the effect of calling the
  function \<open>cb\<close> on the signal and on the rest of the world.
\<close>

type_synonym slot_ptr = nat

record 'cb slot =
  slot_cb :: "'cb option"
  slot_connected :: bool

record 'cb signal =
  slots :: "slot_ptr list"
  slot_store :: "slot_ptr \<Rightarrow> 'cb slot"
  next_slot :: slot_ptr

record connection =
  conn_slot :: "slot_ptr option"
  conn_signal :: bool

definition Slot :: "'cb option \<Rightarrow> bool \<Rightarrow> 'cb slot" where
  "Slot cb connected = \<lparr>slot_cb = cb, slot_connected = connected\<rparr>"

definition Signal_new :: "'cb signal" where
  "Signal_new = \<lparr>slots = [], slot_store = (\<lambda>_. Slot None False), next_slot = 0\<rparr>"

definition Slot_connected :: "'cb signal \<Rightarrow> slot_ptr \<Rightarrow> bool" where
  "Slot_connected s p = slot_connected (slot_store s p)"

definition Slot_Disconnect :: "slot_ptr \<Rightarrow> 'cb signal \<Rightarrow> 'cb signal" where
  "Slot_Disconnect p s = s\<lparr>slot_store := (slot_store s)(p := (slot_store s p)\<lparr>slot_connected := False\<rparr>)\<rparr>"

definition Slot_call ::
  "('cb \<Rightarrow> 'a \<Rightarrow> 'cb signal \<times> 'w \<Rightarrow> 'cb signal \<times> 'w) \<Rightarrow> 'a \<Rightarrow> slot_ptr \<Rightarrow> 'cb signal \<times> 'w \<Rightarrow> 'cb signal \<times> 'w" where
  "Slot_call run args p sw =
     (case slot_cb (slot_store (fst sw) p) of
        Some cb \<Rightarrow> if Slot_connected (fst sw) p then run cb args sw else sw
      | None \<Rightarrow> sw)"

definition ClearDisconnectedSlots :: "'cb signal \<Rightarrow> 'cb signal" where
  "ClearDisconnectedSlots s = s\<lparr>slots := filter (Slot_connected s) (slots s)\<rparr>"

definition Signal_call ::
  "('cb \<Rightarrow> 'a \<Rightarrow> 'cb signal \<times> 'w \<Rightarrow> 'cb signal \<times> 'w) \<Rightarrow> 'a \<Rightarrow> 'cb signal \<times> 'w \<Rightarrow> 'cb signal \<times> 'w" where
  "Signal_call run args sw =
     (let local = slots (fst sw);
          sw' = fold (Slot_call run args) local sw
      in (ClearDisconnectedSlots (fst sw'), snd sw'))"

definition Connect :: "'cb option \<Rightarrow> 'cb signal \<Rightarrow> connection \<times> 'cb signal" where
  "Connect cb s =
     (\<lparr>conn_slot = Some (next_slot s), conn_signal = True\<rparr>,
      s\<lparr>slots := slots s @ [next_slot s], slot_store := (slot_store s)(next_slot s := Slot cb True),
        next_slot := next_slot s + 1\<rparr>)"

definition HasSlot :: "connection \<Rightarrow> slot_ptr \<Rightarrow> bool" where
  "HasSlot conn p = (case conn_slot conn of Some q \<Rightarrow> q = p | None \<Rightarrow> False)"

definition Signal_Disconnect :: "connection \<Rightarrow> 'cb signal \<Rightarrow> bool \<times> 'cb signal" where
  "Signal_Disconnect conn s =
     (let (found, s') = fold (\<lambda>p (found, s). if HasSlot conn p then (True, Slot_Disconnect p s) else (found, s))
                          (slots s) (False, s)
      in (found, if found then ClearDisconnectedSlots s' else s'))"

definition DisconnectAllSlots :: "'cb signal \<Rightarrow> 'cb signal" where
  "DisconnectAllSlots s = (fold Slot_Disconnect (slots s) s)\<lparr>slots := []\<rparr>"

definition Connection_new :: connection where
  "Connection_new = \<lparr>conn_slot = None, conn_signal = False\<rparr>"

definition IsConnected :: "'cb signal \<Rightarrow> connection \<Rightarrow> bool" where
  "IsConnected s conn = (case conn_slot conn of Some p \<Rightarrow> Slot_connected s p | None \<Rightarrow> False)"

definition Connection_Disconnect :: "connection \<Rightarrow> 'cb signal \<Rightarrow> bool \<times> 'cb signal" where
  "Connection_Disconnect conn s =
     (if conn_signal conn \<and> conn_slot conn \<noteq> None then Signal_Disconnect conn s else (False, s))"

section \<open>Well-formed signals\<close>

text \<open>The listed slots are distinct allocated cells; unallocated cells are not connected.\<close>

definition signal_ok :: "'cb signal \<Rightarrow> bool" where
  "signal_ok s \<longleftrightarrow> distinct (slots s) \<and> (\<forall>p \<in> set (slots s). p < next_slot s)
     \<and> (\<forall>p \<ge> next_slot s. \<not> Slot_connected s p)"

definition live_slots :: "'cb signal \<Rightarrow> slot_ptr list" where
  "live_slots s = filter (Slot_connected s) (slots s)"

definition slot_calls :: "'cb signal \<Rightarrow> slot_ptr \<Rightarrow> 'cb list" where
  "slot_calls s p = (if Slot_connected s p then (case slot_cb (slot_store s p) of Some cb \<Rightarrow> [cb] | None \<Rightarrow> []) else [])"

definition callbacks :: "'cb signal \<Rightarrow> 'cb list" where
  "callbacks s = concat (map (slot_calls s) (slots s))"

lemma Slot_Disconnect_frame [simp]:
  "slots (Slot_Disconnect p s) = slots s" "next_slot (Slot_Disconnect p s) = next_slot s"
  "Slot_connected (Slot_Disconnect p s) q \<longleftrightarrow> q \<noteq> p \<and> Slot_connected s q"
  "slot_cb (slot_store (Slot_Disconnect p s) q) = slot_cb (slot_store s q)"
  by (auto simp: Slot_Disconnect_def Slot_connected_def)

lemma fold_Slot_Disconnect [simp]:
  "slots (fold Slot_Disconnect ps s) = slots s" "next_slot (fold Slot_Disconnect ps s) = next_slot s"
  "Slot_connected (fold Slot_Disconnect ps s) q \<longleftrightarrow> q \<notin> set ps \<and> Slot_connected s q"
  "slot_cb (slot_store (fold Slot_Disconnect ps s) q) = slot_cb (slot_store s q)"
  by (induction ps arbitrary: s) auto

lemma Slot_connected_upd [simp]:
  "Slot_connected (s\<lparr>slots := xs\<rparr>) p = Slot_connected s p"
  "Slot_connected (s\<lparr>next_slot := n\<rparr>) p = Slot_connected s p"
  "Slot_connected (s\<lparr>slot_store := st\<rparr>) p = slot_connected (st p)"
  by (simp_all add: Slot_connected_def)

lemma Clear_frame [simp]:
  "slots (ClearDisconnectedSlots s) = live_slots s" "next_slot (ClearDisconnectedSlots s) = next_slot s"
  "slot_store (ClearDisconnectedSlots s) = slot_store s"
  "Slot_connected (ClearDisconnectedSlots s) p = Slot_connected s p"
  "live_slots (ClearDisconnectedSlots s) = live_slots s"
  by (simp_all add: ClearDisconnectedSlots_def live_slots_def)

lemma slot_calls_Clear [simp]: "slot_calls (ClearDisconnectedSlots s) = slot_calls s"
  by (simp add: fun_eq_iff slot_calls_def)

lemma callbacks_Clear [simp]: "callbacks (ClearDisconnectedSlots s) = callbacks s"
proof -
  have "concat (map (slot_calls s) (filter (Slot_connected s) ps)) = concat (map (slot_calls s) ps)" for ps
    by (induction ps) (auto simp: slot_calls_def)
  then show ?thesis by (simp add: callbacks_def live_slots_def)
qed

lemma Disconnect_loop:
  "fold (\<lambda>p (found, s). if HasSlot conn p then (True, Slot_Disconnect p s) else (found, s)) ps (found, s)
     = (found \<or> (\<exists>p \<in> set ps. HasSlot conn p), fold Slot_Disconnect (filter (HasSlot conn) ps) s)"
  by (induction ps arbitrary: found s) auto

lemma signal_ok_new [simp]: "signal_ok Signal_new"
  by (simp add: signal_ok_def Signal_new_def Slot_connected_def Slot_def)

lemma signal_ok_Connect: "signal_ok s \<Longrightarrow> signal_ok (snd (Connect cb s))"
  by (auto simp: signal_ok_def Connect_def Slot_connected_def Slot_def)

lemma signal_ok_Clear: "signal_ok s \<Longrightarrow> signal_ok (ClearDisconnectedSlots s)"
  by (auto simp: signal_ok_def live_slots_def)

lemma signal_ok_Disconnect: "signal_ok s \<Longrightarrow> signal_ok (snd (Connection_Disconnect conn s))"
  by (auto simp: Connection_Disconnect_def Signal_Disconnect_def Disconnect_loop Let_def signal_ok_def live_slots_def)

lemma signal_ok_DisconnectAll: "signal_ok s \<Longrightarrow> signal_ok (DisconnectAllSlots s)"
  by (simp add: DisconnectAllSlots_def signal_ok_def)

lemmas signal_ok_ops = signal_ok_new signal_ok_Connect signal_ok_Clear signal_ok_Disconnect signal_ok_DisconnectAll

section \<open>Properties\<close>

text \<open>
  Callbacks as scripts: what a callback does to the signal is a list of commands, and each call is
  recorded in a log of callback and argument.
\<close>

datatype 'cb command = CmdConnect "'cb option" | CmdDisconnect connection

fun exec_command :: "'cb command \<Rightarrow> 'cb signal \<Rightarrow> 'cb signal" where
  "exec_command (CmdConnect cb) s = snd (Connect cb s)"
| "exec_command (CmdDisconnect conn) s = snd (Connection_Disconnect conn s)"

definition scripted :: "('cb \<Rightarrow> 'cb command list) \<Rightarrow> 'cb \<Rightarrow> 'a \<Rightarrow> 'cb signal \<times> ('cb \<times> 'a) list
    \<Rightarrow> 'cb signal \<times> ('cb \<times> 'a) list" where
  "scripted script cb args sw = (fold exec_command (script cb) (fst sw), snd sw @ [(cb, args)])"

lemma exec_command_ok: "signal_ok s \<Longrightarrow> signal_ok (exec_command c s)"
  by (cases c) (simp_all add: signal_ok_Connect signal_ok_Disconnect)

lemma exec_command_old:
  assumes "p < next_slot s"
  shows "slot_cb (slot_store (exec_command c s) p) = slot_cb (slot_store s p)"
    "Slot_connected (exec_command c s) p \<Longrightarrow> Slot_connected s p" "p < next_slot (exec_command c s)"
  using assms
  by (cases c; auto simp: Connect_def Connection_Disconnect_def Signal_Disconnect_def Disconnect_loop Let_def
      Slot_connected_def [of s] split: if_splits)+

lemma exec_commands_old:
  assumes "p < next_slot s"
  shows "slot_cb (slot_store (fold exec_command cs s) p) = slot_cb (slot_store s p)
    \<and> (Slot_connected (fold exec_command cs s) p \<longrightarrow> Slot_connected s p) \<and> p < next_slot (fold exec_command cs s)"
  using assms
proof (induction cs arbitrary: s)
  case (Cons c cs)
  from exec_command_old [OF Cons.prems, of c] Cons.IH [of "exec_command c s"] show ?case by auto
qed simp

lemma exec_connects_keep:
  "\<forall>c \<in> set cs. \<exists>cb. c = CmdConnect cb \<Longrightarrow> q < next_slot s
     \<Longrightarrow> Slot_connected (fold exec_command cs s) q = Slot_connected s q"
proof (induction cs arbitrary: s)
  case (Cons c cs)
  then obtain cb where "c = CmdConnect cb" by auto
  with Cons.prems Cons.IH [of "exec_command c s"] show ?case by (simp add: Connect_def Slot_connected_def [of s])
qed simp

lemma subseq_concat_map: "(\<And>p. p \<in> set ps \<Longrightarrow> subseq (f p) (g p)) \<Longrightarrow> subseq (concat (map f ps)) (concat (map g ps))"
  by (induction ps) (auto intro: list_emb_append_mono)

lemma emission_loop:
  assumes "signal_ok s" and "\<forall>p \<in> set ps. p < next_slot s"
  shows "\<exists>called s'. fold (Slot_call (scripted script) a) ps (s, log) = (s', log @ map (\<lambda>cb. (cb, a)) called)
    \<and> signal_ok s' \<and> subseq called (concat (map (slot_calls s) ps))
    \<and> ((\<forall>cb conn. CmdDisconnect conn \<notin> set (script cb)) \<longrightarrow> called = concat (map (slot_calls s) ps))"
  using assms
proof (induction ps arbitrary: s log)
  case Nil
  then show ?case by (auto intro!: exI [of _ "[]"])
next
  case (Cons p ps)
  define s1 where "s1 = fst (Slot_call (scripted script) a p (s, log))"
  have step: "Slot_call (scripted script) a p (s, log) = (s1, log @ map (\<lambda>cb. (cb, a)) (slot_calls s p))"
    by (auto simp: s1_def Slot_call_def slot_calls_def scripted_def split: option.split)
  obtain cs where s1: "s1 = fold exec_command cs s" and cs: "cs = [] \<or> (\<exists>cb. cs = script cb)"
  proof (cases "slot_calls s p")
    case Nil
    then show ?thesis using that [of "[]"]
      by (auto simp: s1_def Slot_call_def slot_calls_def split: option.splits if_splits)
  next
    case (Cons cb _)
    then show ?thesis using that [of "script cb"]
      by (auto simp: s1_def Slot_call_def slot_calls_def scripted_def split: option.splits if_splits)
  qed
  have ok1: "signal_ok s1"
    unfolding s1 using Cons.prems(1) by (induction cs arbitrary: s) (simp_all add: exec_command_ok)
  note old = exec_commands_old [of _ s cs, folded s1]
  have bound: "\<forall>p \<in> set ps. p < next_slot s1" using Cons.prems(2) old by simp
  have sub: "subseq (slot_calls s1 q) (slot_calls s q)" if "q \<in> set ps" for q
    using old [of q] Cons.prems(2) that by (auto simp: slot_calls_def split: option.split)
  have same: "slot_calls s1 q = slot_calls s q"
    if "q \<in> set ps" and nodis: "\<forall>cb conn. CmdDisconnect conn \<notin> set (script cb)" for q
  proof -
    have "\<forall>c \<in> set cs. \<exists>cb. c = CmdConnect cb" using cs nodis by (metis command.exhaust empty_iff list.set(1))
    then show ?thesis using old [of q] exec_connects_keep [of cs q s, folded s1] Cons.prems(2) that(1)
      by (simp add: slot_calls_def)
  qed
  obtain called s' where IH:
    "fold (Slot_call (scripted script) a) ps (s1, log @ map (\<lambda>cb. (cb, a)) (slot_calls s p))
       = (s', (log @ map (\<lambda>cb. (cb, a)) (slot_calls s p)) @ map (\<lambda>cb. (cb, a)) called)"
    "signal_ok s'" "subseq called (concat (map (slot_calls s1) ps))"
    "(\<forall>cb conn. CmdDisconnect conn \<notin> set (script cb)) \<longrightarrow> called = concat (map (slot_calls s1) ps)"
    using Cons.IH [OF ok1 bound] by blast
  have "subseq (slot_calls s p @ called) (slot_calls s p @ concat (map (slot_calls s) ps))"
    using subseq_order.order_trans [OF IH(3) subseq_concat_map [OF sub]] by (simp add: list_emb_append_mono)
  moreover have "(\<forall>cb conn. CmdDisconnect conn \<notin> set (script cb)) \<longrightarrow>
      slot_calls s p @ called = concat (map (slot_calls s) (p # ps))"
    using IH(4) same by (auto cong: map_cong)
  ultimately show ?case
    using IH(1,2) by (intro exI [of _ "slot_calls s p @ called"] exI [of _ s']) (simp add: step)
qed

text \<open>
  C30: emission. Whatever the callbacks connect or disconnect while they run, raising a signal calls a
  subsequence of the callbacks that were connected when it was raised, in the order of connection,
  each with the signal's argument: a slot connected by a callback waits for the next emission, and
  no slot is called twice. When no callback disconnects, every connected callback is called. The
  list afterwards holds connected slots only.
\<close>

theorem signal_emission:
  assumes "signal_ok s" and "Signal_call (scripted script) a (s, []) = (s', log)"
  shows "subseq (map fst log) (callbacks s) \<and> (\<forall>(cb, arg) \<in> set log. arg = a)
    \<and> ((\<forall>cb conn. CmdDisconnect conn \<notin> set (script cb)) \<longrightarrow> map fst log = callbacks s)
    \<and> (\<forall>p \<in> set (slots s'). Slot_connected s' p) \<and> signal_ok s'"
proof -
  have "\<forall>p \<in> set (slots s). p < next_slot s" using assms(1) by (simp add: signal_ok_def)
  from emission_loop [OF assms(1) this, of script a "[]"] obtain called s1 where
    loop: "fold (Slot_call (scripted script) a) (slots s) (s, []) = (s1, map (\<lambda>cb. (cb, a)) called)"
    and rest: "signal_ok s1" "subseq called (callbacks s)"
      "(\<forall>cb conn. CmdDisconnect conn \<notin> set (script cb)) \<longrightarrow> called = callbacks s"
    by (auto simp: callbacks_def)
  have "s' = ClearDisconnectedSlots s1" "log = map (\<lambda>cb. (cb, a)) called"
    using assms(2) loop by (simp_all add: Signal_call_def Let_def)
  with rest show ?thesis by (auto simp: signal_ok_Clear live_slots_def o_def)
qed

definition demo_signal :: "nat signal" where
  "demo_signal = snd (Connect (Some 2) (snd (Connect (Some 1) Signal_new)))"

text \<open>Callback 1 disconnects slot 1 (callback 2) and connects a third callback.\<close>

definition demo_script :: "nat \<Rightarrow> nat command list" where
  "demo_script cb = (if cb = 1 then [CmdDisconnect \<lparr>conn_slot = Some 1, conn_signal = True\<rparr>, CmdConnect (Some 3)] else [])"

theorem signal_emission_witness:
  "snd (Signal_call (scripted demo_script) ''x'' (demo_signal, [])) = [(1, ''x'')]
   \<and> subseq [1] (callbacks demo_signal)"
proof -
  have ok: "signal_ok demo_signal" by (simp add: demo_signal_def signal_ok_Connect)
  have call: "snd (Signal_call (scripted demo_script) ''x'' (demo_signal, [])) = [(1, ''x'')]"
    by code_simp
  then have "Signal_call (scripted demo_script) ''x'' (demo_signal, [])
      = (fst (Signal_call (scripted demo_script) ''x'' (demo_signal, [])), [(1, ''x'')])"
    by (metis prod.collapse)
  from signal_emission [OF ok this] call show ?thesis by simp
qed

text \<open>
  Disconnecting. A new connection is connected; \<open>Disconnect\<close> on it succeeds exactly once, after
  which it is not connected, its slot is gone from the signal and every other connected slot is
  still there in its place.
\<close>

theorem signal_disconnect_once:
  assumes "signal_ok s" and "Connect cb s = (conn, s1)"
  shows "IsConnected s1 conn \<and> live_slots s1 = live_slots s @ [next_slot s]
    \<and> (\<exists>s2. Connection_Disconnect conn s1 = (True, s2) \<and> \<not> IsConnected s2 conn
         \<and> live_slots s2 = live_slots s \<and> Connection_Disconnect conn s2 = (False, s2))"
proof -
  let ?p = "next_slot s"
  have conn: "conn = \<lparr>conn_slot = Some ?p, conn_signal = True\<rparr>"
    and s1: "slots s1 = slots s @ [?p]" "\<And>q. Slot_connected s1 q = (q = ?p \<or> Slot_connected s q)"
    using assms(2) by (auto simp: Connect_def Slot_def Slot_connected_def [of s] split: if_splits)
  have fresh: "?p \<notin> set (slots s)" "\<not> Slot_connected s ?p"
    using assms(1) by (auto simp: signal_ok_def)
  have has: "HasSlot conn q \<longleftrightarrow> q = ?p" for q by (auto simp: HasSlot_def conn)
  have only: "filter (HasSlot conn) (slots s1) = [?p]"
    using fresh by (auto simp: s1 has filter_empty_conv)
  define s2 where "s2 = ClearDisconnectedSlots (Slot_Disconnect ?p s1)"
  have live1: "live_slots s1 = live_slots s @ [?p]"
    using fresh by (auto simp: live_slots_def s1 intro!: filter_cong)
  have live2: "live_slots s2 = live_slots s" "slots s2 = live_slots s"
    using fresh by (auto simp: s2_def live_slots_def s1 intro!: filter_cong)
  have "\<exists>q \<in> set (slots s1). HasSlot conn q" by (simp add: s1 has)
  then have "Signal_Disconnect conn s1 = (True, s2)"
    by (simp only: Signal_Disconnect_def Disconnect_loop Let_def only) (simp add: s2_def)
  then have "Connection_Disconnect conn s1 = (True, s2)"
    by (simp add: Connection_Disconnect_def conn)
  moreover have none: "filter (HasSlot conn) (slots s2) = []" "\<not> (\<exists>q \<in> set (slots s2). HasSlot conn q)"
    using fresh by (auto simp: has live2 live_slots_def filter_empty_conv)
  then have "Signal_Disconnect conn s2 = (False, s2)"
    by (simp add: Signal_Disconnect_def Disconnect_loop)
  then have "Connection_Disconnect conn s2 = (False, s2)"
    by (simp add: Connection_Disconnect_def)
  ultimately show ?thesis
    using live1 live2 by (simp add: IsConnected_def conn s1 s2_def)
qed

theorem signal_disconnect_once_witness:
  "\<exists>s2. Connection_Disconnect (fst (Connect (Some 5) demo_signal)) (snd (Connect (Some 5) demo_signal)) = (True, s2)
     \<and> live_slots s2 = live_slots demo_signal"
proof -
  have ok: "signal_ok demo_signal" by (simp add: demo_signal_def signal_ok_Connect)
  from signal_disconnect_once [OF ok, of "Some 5", OF prod.collapse [symmetric]] show ?thesis by blast
qed

end
