(* ===== verification/Discovery_Manager.thy ===== *)
theory Discovery_Manager
  imports Role_Warehouse Signal_Slots
begin

text \<open>
  \<open>service_discovery/specific_manager/manager.{h,cc}\<close>: the base class of the three topology
  managers. The RTPS middleware, the clock and the protobuf runtime are a record of parameters
  \<open>rtps_env\<close>; what the manager does to the outside is kept in the state: \<open>published\<close> lists the
  strings written to the publisher and \<open>notified\<close> the listener calls, in order. Listeners observe
  changes and do not call back into the manager.

  The virtual functions \<open>Check\<close> and \<open>Dispose\<close> are arguments of the operations that call them;
  the locale \<open>topology_element\<close> states what a derived class has to provide.
\<close>

unbundle bit_operations_syntax

section \<open>Change messages\<close>

datatype change_type = CHANGE_NODE | CHANGE_CHANNEL | CHANGE_SERVICE | CHANGE_PARTICIPANT
datatype operate_type = OPT_JOIN | OPT_LEAVE
datatype role_type = ROLE_NODE | ROLE_WRITER | ROLE_READER | ROLE_SERVER | ROLE_CLIENT | ROLE_PARTICIPANT

fun role_number :: "role_type \<Rightarrow> nat" where
  "role_number ROLE_NODE = 1"
| "role_number ROLE_WRITER = 2"
| "role_number ROLE_READER = 3"
| "role_number ROLE_SERVER = 4"
| "role_number ROLE_CLIENT = 5"
| "role_number ROLE_PARTICIPANT = 6"

record change_msg =
  timestamp_opt :: "u64 option"
  change_type_opt :: "change_type option"
  operate_type_opt :: "operate_type option"
  role_type_opt :: "role_type option"
  role_attr_opt :: "role_attributes option"

abbreviation "msg_timestamp msg \<equiv> pb_get 0 (timestamp_opt msg)"
abbreviation "operate_type msg \<equiv> pb_get OPT_JOIN (operate_type_opt msg)"
abbreviation "role_type msg \<equiv> pb_get ROLE_NODE (role_type_opt msg)"
abbreviation "role_attr msg \<equiv> pb_get RoleAttributes (role_attr_opt msg)"

section \<open>The manager\<close>

record rtps_env =
  now_ns :: "nat \<Rightarrow> u64"
  serialize :: "change_msg \<Rightarrow> string option"
  parse_msg :: "string \<Rightarrow> change_msg option"
  pub_write :: "string \<Rightarrow> bool"
  fill_pub_attr :: "string \<Rightarrow> bool"
  fill_sub_attr :: "string \<Rightarrow> bool"
  create_publisher :: bool
  create_subscriber :: bool

text \<open>A silent environment: a clock that counts, and no serializer.\<close>

definition silent_env :: rtps_env where
  "silent_env = \<lparr>now_ns = of_nat, serialize = (\<lambda>_. None), parse_msg = (\<lambda>_. None), pub_write = (\<lambda>_. True),
     fill_pub_attr = (\<lambda>_. True), fill_sub_attr = (\<lambda>_. True), create_publisher = True, create_subscriber = True\<rparr>"

record manager =
  is_shutdown :: bool
  is_discovery_started :: bool
  allowed_role :: u32
  mgr_change_type :: change_type
  mgr_host_name :: string
  mgr_process_id :: int
  mgr_channel_name :: string
  publisher :: bool
  subscriber :: bool
  listener :: bool
  mgr_signal :: "nat signal"
  clock_reads :: nat
  published :: "string list"
  notified :: "(nat \<times> change_msg) list"

definition Manager :: "string \<Rightarrow> int \<Rightarrow> manager" where
  "Manager host pid =
     \<lparr>is_shutdown = False, is_discovery_started = False, allowed_role = 0,
      mgr_change_type = CHANGE_PARTICIPANT, mgr_host_name = host, mgr_process_id = pid,
      mgr_channel_name = [], publisher = False, subscriber = False, listener = False,
      mgr_signal = Signal_new, clock_reads = 0, published = [], notified = []\<rparr>"

definition CreatePublisher :: "rtps_env \<Rightarrow> 'a manager_scheme \<Rightarrow> bool \<times> 'a manager_scheme" where
  "CreatePublisher env m =
     (if \<not> fill_pub_attr env (mgr_channel_name m) then (False, m)
      else (create_publisher env, m\<lparr>publisher := create_publisher env\<rparr>))"

definition CreateSubscriber :: "rtps_env \<Rightarrow> 'a manager_scheme \<Rightarrow> bool \<times> 'a manager_scheme" where
  "CreateSubscriber env m =
     (if \<not> fill_sub_attr env (mgr_channel_name m) then (False, m)
      else (create_subscriber env, m\<lparr>listener := True, subscriber := create_subscriber env\<rparr>))"

definition StopDiscovery :: "'a manager_scheme \<Rightarrow> 'a manager_scheme" where
  "StopDiscovery m =
     (if \<not> is_discovery_started m then m
      else let m0 = m\<lparr>is_discovery_started := False\<rparr>;
               m1 = (if publisher m0 then m0\<lparr>publisher := False\<rparr> else m0);
               m2 = (if subscriber m1 then m1\<lparr>subscriber := False\<rparr> else m1)
           in if listener m2 then m2\<lparr>listener := False\<rparr> else m2)"

definition StartDiscovery :: "rtps_env \<Rightarrow> bool \<Rightarrow> 'a manager_scheme \<Rightarrow> bool \<times> 'a manager_scheme" where
  "StartDiscovery env participant m =
     (if \<not> participant then (False, m)
      else if is_discovery_started m then (True, m)
      else let m0 = m\<lparr>is_discovery_started := True\<rparr>;
               (pub_ok, m1) = CreatePublisher env m0
           in if \<not> pub_ok then (False, StopDiscovery m1)
              else let (sub_ok, m2) = CreateSubscriber env m1
                   in if \<not> sub_ok then (False, StopDiscovery m2) else (True, m2))"

definition Shutdown :: "'a manager_scheme \<Rightarrow> 'a manager_scheme" where
  "Shutdown m =
     (if is_shutdown m then m
      else let m1 = StopDiscovery (m\<lparr>is_shutdown := True\<rparr>)
           in m1\<lparr>mgr_signal := DisconnectAllSlots (mgr_signal m1)\<rparr>)"

definition Convert :: "rtps_env \<Rightarrow> role_attributes \<Rightarrow> role_type \<Rightarrow> operate_type
    \<Rightarrow> 'a manager_scheme \<Rightarrow> change_msg \<times> 'a manager_scheme" where
  "Convert env attr role opt m =
     (let attr1 = (if host_name_opt attr = None then attr\<lparr>host_name_opt := Some (mgr_host_name m)\<rparr> else attr);
          attr2 = (if process_id_opt attr1 = None then attr1\<lparr>process_id_opt := Some (mgr_process_id m)\<rparr> else attr1)
      in (\<lparr>timestamp_opt = Some (now_ns env (clock_reads m)), change_type_opt = Some (mgr_change_type m),
           operate_type_opt = Some opt, role_type_opt = Some role, role_attr_opt = Some attr2\<rparr>,
          m\<lparr>clock_reads := clock_reads m + 1\<rparr>))"

text \<open>Raising the signal calls the listeners, whose calls are recorded.\<close>

definition record_call :: "nat \<Rightarrow> change_msg \<Rightarrow> nat signal \<times> (nat \<times> change_msg) list
    \<Rightarrow> nat signal \<times> (nat \<times> change_msg) list" where
  "record_call cb msg sw = (fst sw, snd sw @ [(cb, msg)])"

definition Notify :: "change_msg \<Rightarrow> 'a manager_scheme \<Rightarrow> 'a manager_scheme" where
  "Notify msg m =
     (let (s, log) = Signal_call record_call msg (mgr_signal m, notified m)
      in m\<lparr>mgr_signal := s, notified := log\<rparr>)"

definition Publish :: "rtps_env \<Rightarrow> change_msg \<Rightarrow> 'a manager_scheme \<Rightarrow> bool \<times> 'a manager_scheme" where
  "Publish env msg m =
     (if \<not> is_discovery_started m then (False, m)
      else case serialize env msg of
             None \<Rightarrow> (False, m)
           | Some data \<Rightarrow>
               if publisher m then (pub_write env data, m\<lparr>published := published m @ [data]\<rparr>)
               else (True, m))"

definition NeedPublish :: "change_msg \<Rightarrow> bool" where
  "NeedPublish msg = True"

definition role_allowed :: "role_type \<Rightarrow> 'a manager_scheme \<Rightarrow> bool" where
  "role_allowed role m \<longleftrightarrow> push_bit (role_number role) 1 AND allowed_role m \<noteq> 0"

definition Join :: "rtps_env \<Rightarrow> (role_attributes \<Rightarrow> bool) \<Rightarrow> (change_msg \<Rightarrow> 'a manager_scheme \<Rightarrow> 'a manager_scheme)
    \<Rightarrow> role_attributes \<Rightarrow> role_type \<Rightarrow> bool \<Rightarrow> 'a manager_scheme \<Rightarrow> bool \<times> 'a manager_scheme" where
  "Join env check dispose attr role need_publish m =
     (if is_shutdown m then (False, m)
      else if \<not> role_allowed role m then (False, m)
      else if \<not> check attr then (False, m)
      else let (msg, m1) = Convert env attr role OPT_JOIN m;
               m2 = dispose msg m1
           in if need_publish then Publish env msg m2 else (True, m2))"

definition Leave :: "rtps_env \<Rightarrow> (role_attributes \<Rightarrow> bool) \<Rightarrow> (change_msg \<Rightarrow> 'a manager_scheme \<Rightarrow> 'a manager_scheme)
    \<Rightarrow> role_attributes \<Rightarrow> role_type \<Rightarrow> 'a manager_scheme \<Rightarrow> bool \<times> 'a manager_scheme" where
  "Leave env check dispose attr role m =
     (if is_shutdown m then (False, m)
      else if \<not> role_allowed role m then (False, m)
      else if \<not> check attr then (False, m)
      else let (msg, m1) = Convert env attr role OPT_LEAVE m;
               m2 = dispose msg m1
           in if NeedPublish msg then Publish env msg m2 else (True, m2))"

definition IsFromSameProcess :: "change_msg \<Rightarrow> 'a manager_scheme \<Rightarrow> bool" where
  "IsFromSameProcess msg m =
     (if process_id (role_attr msg) \<noteq> mgr_process_id m \<or> host_name (role_attr msg) \<noteq> mgr_host_name m
      then False else True)"

definition OnRemoteChange :: "rtps_env \<Rightarrow> (role_attributes \<Rightarrow> bool) \<Rightarrow> (change_msg \<Rightarrow> 'a manager_scheme \<Rightarrow> 'a manager_scheme)
    \<Rightarrow> string \<Rightarrow> 'a manager_scheme \<Rightarrow> 'a manager_scheme" where
  "OnRemoteChange env check dispose msg_str m =
     (if is_shutdown m then m
      else case parse_msg env msg_str of
             None \<Rightarrow> m
           | Some msg \<Rightarrow>
               if IsFromSameProcess msg m then m
               else if \<not> check (role_attr msg) then m
               else dispose msg m)"

definition AddChangeListener :: "nat \<Rightarrow> 'a manager_scheme \<Rightarrow> connection \<times> 'a manager_scheme" where
  "AddChangeListener func m =
     (let (conn, s) = Connect (Some func) (mgr_signal m) in (conn, m\<lparr>mgr_signal := s\<rparr>))"

definition RemoveChangeListener :: "connection \<Rightarrow> 'a manager_scheme \<Rightarrow> 'a manager_scheme" where
  "RemoveChangeListener conn m = m\<lparr>mgr_signal := snd (Connection_Disconnect conn (mgr_signal m))\<rparr>"

section \<open>Life cycle\<close>

text \<open>A manager that is not discovering holds no middleware handle; its signal is well formed.\<close>

definition mgr_ok :: "'a manager_scheme \<Rightarrow> bool" where
  "mgr_ok m \<longleftrightarrow> (\<not> is_discovery_started m \<longrightarrow> \<not> publisher m \<and> \<not> subscriber m \<and> \<not> listener m)
     \<and> (is_shutdown m \<longrightarrow> slots (mgr_signal m) = []) \<and> signal_ok (mgr_signal m)"

named_theorems mgr_frame \<open>what an operation leaves alone\<close>

lemma record_loop:
  "fold (Slot_call record_call msg) ps (s, log) = (s, log @ map (\<lambda>cb. (cb, msg)) (concat (map (slot_calls s) ps)))"
  by (induction ps arbitrary: log) (auto simp: Slot_call_def slot_calls_def record_call_def split: option.split)

lemma Notify_eq:
  "Notify msg m = m\<lparr>mgr_signal := ClearDisconnectedSlots (mgr_signal m),
     notified := notified m @ map (\<lambda>cb. (cb, msg)) (callbacks (mgr_signal m))\<rparr>"
  by (simp add: Notify_def Signal_call_def record_loop callbacks_def Let_def)

lemma Notify_frame [mgr_frame]:
  "is_shutdown (Notify msg m) = is_shutdown m" "is_discovery_started (Notify msg m) = is_discovery_started m"
  "publisher (Notify msg m) = publisher m" "subscriber (Notify msg m) = subscriber m"
  "listener (Notify msg m) = listener m" "published (Notify msg m) = published m"
  "mgr_host_name (Notify msg m) = mgr_host_name m" "mgr_process_id (Notify msg m) = mgr_process_id m"
  "allowed_role (Notify msg m) = allowed_role m" "manager.more (Notify msg m) = manager.more m"
  by (simp_all add: Notify_eq)

lemma Notify_signal [mgr_frame]:
  "mgr_signal (Notify msg m) = ClearDisconnectedSlots (mgr_signal m)"
  "notified (Notify msg m) = notified m @ map (\<lambda>cb. (cb, msg)) (callbacks (mgr_signal m))"
  by (simp_all add: Notify_eq)

lemma mgr_ok_clock [simp]: "mgr_ok (m\<lparr>clock_reads := n\<rparr>) = mgr_ok m"
  by (simp add: mgr_ok_def)

lemma mgr_ok_Notify [mgr_frame]: "mgr_ok m \<Longrightarrow> mgr_ok (Notify msg m)"
  by (auto simp: mgr_ok_def Notify_frame Notify_signal signal_ok_Clear live_slots_def)

lemma Convert_frame [mgr_frame]:
  "mgr_ok (snd (Convert env attr role opt m)) = mgr_ok m"
  "is_shutdown (snd (Convert env attr role opt m)) = is_shutdown m"
  "manager.more (snd (Convert env attr role opt m)) = manager.more m"
  by (simp_all add: Convert_def mgr_ok_def Let_def)

lemma Publish_frame [mgr_frame]:
  "mgr_ok (snd (Publish env msg m)) = mgr_ok m" "is_shutdown (snd (Publish env msg m)) = is_shutdown m"
  "manager.more (snd (Publish env msg m)) = manager.more m"
  by (simp_all add: Publish_def mgr_ok_def split: option.split)

lemma mgr_ok_Stop: "mgr_ok m \<Longrightarrow> mgr_ok (StopDiscovery m)"
  by (auto simp: mgr_ok_def StopDiscovery_def Let_def)

lemma Stop_off: "mgr_ok m \<Longrightarrow> \<not> is_discovery_started (StopDiscovery m)
    \<and> \<not> publisher (StopDiscovery m) \<and> \<not> subscriber (StopDiscovery m) \<and> \<not> listener (StopDiscovery m)
    \<and> is_shutdown (StopDiscovery m) = is_shutdown m"
  by (auto simp: mgr_ok_def StopDiscovery_def Let_def)

lemma Stop_frame [simp]: "mgr_signal (StopDiscovery m) = mgr_signal m" "is_shutdown (StopDiscovery m) = is_shutdown m"
  by (auto simp: StopDiscovery_def Let_def)

lemma mgr_ok_Shutdown:
  assumes "mgr_ok m"
  shows "mgr_ok (Shutdown m)" "is_shutdown (Shutdown m)"
    "\<not> is_shutdown m \<Longrightarrow> \<not> is_discovery_started (Shutdown m)"
proof -
  show "is_shutdown (Shutdown m)" by (simp add: Shutdown_def Let_def)
  show off: "\<not> is_shutdown m \<Longrightarrow> \<not> is_discovery_started (Shutdown m)"
    by (auto simp: Shutdown_def StopDiscovery_def Let_def)
  show "mgr_ok (Shutdown m)"
  proof (cases "is_shutdown m")
    case False
    then have "\<not> publisher (Shutdown m) \<and> \<not> subscriber (Shutdown m) \<and> \<not> listener (Shutdown m)"
      using assms by (auto simp: Shutdown_def StopDiscovery_def Let_def mgr_ok_def)
    moreover have "mgr_signal (Shutdown m) = DisconnectAllSlots (mgr_signal m)"
      using False by (simp add: Shutdown_def Let_def)
    ultimately show ?thesis
      using assms by (simp add: mgr_ok_def signal_ok_DisconnectAll) (simp add: DisconnectAllSlots_def)
  qed (use assms in \<open>simp add: Shutdown_def\<close>)
qed

lemma mgr_ok_Start: "mgr_ok m \<Longrightarrow> mgr_ok (snd (StartDiscovery env participant m))"
  by (auto simp: StartDiscovery_def StopDiscovery_def CreatePublisher_def CreateSubscriber_def mgr_ok_def Let_def split: if_splits)

section \<open>Leave notices\<close>

text \<open>
  What a listener sees of a change: everything but the time stamp, which is a reading of the clock.
\<close>

definition notice :: "nat \<times> change_msg \<Rightarrow> nat \<times> role_type \<times> operate_type \<times> role_attributes" where
  "notice c = (fst c, role_type (snd c), operate_type (snd c), role_attr (snd c))"

definition complete_attr :: "'a manager_scheme \<Rightarrow> role_attributes \<Rightarrow> role_attributes" where
  "complete_attr m attr = attr\<lparr>host_name_opt := Some (pb_get (mgr_host_name m) (host_name_opt attr)),
     process_id_opt := Some (pb_get (mgr_process_id m) (process_id_opt attr))\<rparr>"

definition leave_notices :: "role_type \<Rightarrow> role list \<Rightarrow> 'a manager_scheme \<Rightarrow> (nat \<times> role_type \<times> operate_type \<times> role_attributes) list" where
  "leave_notices rt rs m =
     concat (map (\<lambda>r. map (\<lambda>cb. (cb, rt, OPT_LEAVE, complete_attr m (attributes r))) (callbacks (mgr_signal m))) rs)"

lemma Convert_msg:
  "role_type (fst (Convert env attr rt opt m)) = rt" "operate_type (fst (Convert env attr rt opt m)) = opt"
  "role_attr (fst (Convert env attr rt opt m)) = complete_attr m attr"
  by (auto simp: Convert_def Let_def complete_attr_def)

lemma Convert_state: "snd (Convert env attr rt opt m) = m\<lparr>clock_reads := clock_reads m + 1\<rparr>"
  by (simp add: Convert_def Let_def)

lemma complete_attr_cong:
  "mgr_host_name m = mgr_host_name m' \<Longrightarrow> mgr_process_id m = mgr_process_id m' \<Longrightarrow> complete_attr m attr = complete_attr m' attr"
  by (simp add: complete_attr_def cong: option.case_cong)

lemma leave_notices_cong:
  "mgr_host_name m = mgr_host_name m' \<Longrightarrow> mgr_process_id m = mgr_process_id m'
     \<Longrightarrow> callbacks (mgr_signal m) = callbacks (mgr_signal m') \<Longrightarrow> leave_notices rt rs m = leave_notices rt rs m'"
  using complete_attr_cong [of m m'] by (simp add: leave_notices_def)

abbreviation send_leave :: "rtps_env \<Rightarrow> role_type \<Rightarrow> role \<Rightarrow> 'a manager_scheme \<Rightarrow> 'a manager_scheme" where
  "send_leave env rt r m \<equiv> let (msg, m') = Convert env (attributes r) rt OPT_LEAVE m in Notify msg m'"

lemma send_leave_eq: "send_leave env rt r m = Notify (fst (Convert env (attributes r) rt OPT_LEAVE m)) (m\<lparr>clock_reads := clock_reads m + 1\<rparr>)"
  by (simp add: Let_def case_prod_beta Convert_state)

lemma fold_send_leave:
  "manager.more (fold (send_leave env rt) rs m) = manager.more m
   \<and> callbacks (mgr_signal (fold (send_leave env rt) rs m)) = callbacks (mgr_signal m)
   \<and> mgr_host_name (fold (send_leave env rt) rs m) = mgr_host_name m
   \<and> mgr_process_id (fold (send_leave env rt) rs m) = mgr_process_id m
   \<and> (mgr_ok m \<longrightarrow> mgr_ok (fold (send_leave env rt) rs m))
   \<and> map notice (notified (fold (send_leave env rt) rs m)) = map notice (notified m) @ leave_notices rt rs m"
proof (induction rs arbitrary: m)
  case Nil
  then show ?case by (simp add: leave_notices_def)
next
  case (Cons r rs)
  let ?m1 = "send_leave env rt r m"
  have frame: "manager.more ?m1 = manager.more m" "callbacks (mgr_signal ?m1) = callbacks (mgr_signal m)"
    "mgr_host_name ?m1 = mgr_host_name m" "mgr_process_id ?m1 = mgr_process_id m" "mgr_ok m \<longrightarrow> mgr_ok ?m1"
    unfolding send_leave_eq by (simp_all add: mgr_frame)
  have first: "map notice (notified ?m1) = map notice (notified m) @ leave_notices rt [r] m"
    unfolding send_leave_eq by (simp add: mgr_frame leave_notices_def notice_def Convert_msg)
  have "leave_notices rt rs ?m1 = leave_notices rt rs m" by (rule leave_notices_cong) (simp_all only: frame)
  then show ?case
    using Cons.IH [of ?m1] frame first by (simp only: fold_simps) (simp add: leave_notices_def)
qed

section \<open>What a derived manager provides\<close>

text \<open>
  \<open>tables\<close> are the role containers of the derived class and \<open>apply_change\<close> what a change message
  does to them. \<open>Dispose\<close> must change the tables by the message alone, tell every listener about it
  once, and leave the life cycle to the base class.
\<close>

locale topology_element =
  fixes check :: "role_attributes \<Rightarrow> bool"
    and dispose :: "change_msg \<Rightarrow> 'a manager_scheme \<Rightarrow> 'a manager_scheme"
    and tables :: "'a manager_scheme \<Rightarrow> 't"
    and apply_change :: "change_msg \<Rightarrow> 't \<Rightarrow> 't"
  assumes dispose_ok: "mgr_ok m \<Longrightarrow> mgr_ok (dispose msg m)"
    and dispose_frame: "is_shutdown (dispose msg m) = is_shutdown m"
      "is_discovery_started (dispose msg m) = is_discovery_started m" "publisher (dispose msg m) = publisher m"
      "mgr_host_name (dispose msg m) = mgr_host_name m" "mgr_process_id (dispose msg m) = mgr_process_id m"
      "published (dispose msg m) = published m"
    and dispose_notifies: "notified (dispose msg m) = notified m @ map (\<lambda>cb. (cb, msg)) (callbacks (mgr_signal m))"
    and dispose_tables: "tables (dispose msg m) = apply_change msg (tables m)"
    and tables_more: "manager.more m = manager.more m' \<Longrightarrow> tables m = tables m'"
    and check_source: "check (attr\<lparr>host_name_opt := h\<rparr>) = check attr" "check (attr\<lparr>process_id_opt := p\<rparr>) = check attr"
begin

lemma tables_frame:
  "tables (snd (Convert env attr role opt m)) = tables m" "tables (snd (Publish env msg m)) = tables m"
  by (rule tables_more, simp add: mgr_frame)+

lemma Join_ok: "mgr_ok m \<Longrightarrow> mgr_ok (snd (Join env check dispose attr role pub m))"
  using Convert_frame(1) [of env attr role OPT_JOIN m]
  by (simp add: Join_def Let_def case_prod_beta mgr_frame dispose_ok)

lemma Leave_ok: "mgr_ok m \<Longrightarrow> mgr_ok (snd (Leave env check dispose attr role m))"
  using Convert_frame(1) [of env attr role OPT_LEAVE m]
  by (simp add: Leave_def Let_def case_prod_beta mgr_frame dispose_ok)

lemma OnRemoteChange_ok: "mgr_ok m \<Longrightarrow> mgr_ok (OnRemoteChange env check dispose msg_str m)"
  by (simp add: OnRemoteChange_def dispose_ok split: option.split)

lemma after_shutdown:
  assumes "is_shutdown m"
  shows "Join env check dispose attr role pub m = (False, m)" "Leave env check dispose attr role m = (False, m)"
    "OnRemoteChange env check dispose msg_str m = m"
  using assms by (simp_all add: Join_def Leave_def OnRemoteChange_def)

text \<open>A successful local change publishes exactly the message it applied to its own tables.\<close>

definition local_change ::
  "rtps_env \<Rightarrow> operate_type \<Rightarrow> role_attributes \<Rightarrow> role_type \<Rightarrow> 'a manager_scheme \<Rightarrow> bool \<times> 'a manager_scheme" where
  "local_change env opt attr role m =
     (case opt of OPT_JOIN \<Rightarrow> Join env check dispose attr role True m | OPT_LEAVE \<Rightarrow> Leave env check dispose attr role m)"

lemma local_change_msg:
  assumes "local_change env opt attr role m = (True, m')" and "publisher m"
  obtains msg data where "msg = fst (Convert env attr role opt m)" "serialize env msg = Some data"
    "check attr" "tables m' = apply_change msg (tables m)" "published m' = published m @ [data]"
    "publisher m'" "mgr_host_name m' = mgr_host_name m" "mgr_process_id m' = mgr_process_id m"
proof -
  let ?msg = "fst (Convert env attr role opt m)" and ?m1 = "snd (Convert env attr role opt m)"
  have pub: "check attr" "Publish env ?msg (dispose ?msg ?m1) = (True, m')"
    using assms(1)
    by (auto simp: local_change_def Join_def Leave_def Let_def case_prod_beta NeedPublish_def
        split: operate_type.splits if_splits)
  have m1: "publisher ?m1" "published ?m1 = published m" "mgr_host_name ?m1 = mgr_host_name m"
    "mgr_process_id ?m1 = mgr_process_id m"
    using assms(2) by (simp_all add: Convert_def Let_def)
  from pub(2) m1(1) obtain data where data: "serialize env ?msg = Some data"
    and m': "m' = (dispose ?msg ?m1)\<lparr>published := published (dispose ?msg ?m1) @ [data]\<rparr>"
    by (auto simp: Publish_def dispose_frame split: if_splits option.splits)
  have "tables m' = tables (dispose ?msg ?m1)" by (rule tables_more) (simp add: m')
  then have "tables m' = apply_change ?msg (tables m)" by (simp add: dispose_tables tables_frame)
  then show thesis
    using that [OF refl data pub(1)] m' m1 by (simp add: dispose_frame)
qed

text \<open>A remote manager that receives it applies the same message.\<close>

lemma remote_change:
  assumes "serialize env (fst (Convert env attr role opt m)) = Some data"
    and "parse_msg env' data = Some (fst (Convert env attr role opt m))" and "check attr"
    and "\<not> is_shutdown r"
    and "(process_id (role_attr (fst (Convert env attr role opt m))),
          host_name (role_attr (fst (Convert env attr role opt m)))) \<noteq> (mgr_process_id r, mgr_host_name r)"
  shows "tables (OnRemoteChange env' check dispose data r)
      = apply_change (fst (Convert env attr role opt m)) (tables r)
    \<and> \<not> is_shutdown (OnRemoteChange env' check dispose data r)
    \<and> mgr_process_id (OnRemoteChange env' check dispose data r) = mgr_process_id r
    \<and> mgr_host_name (OnRemoteChange env' check dispose data r) = mgr_host_name r"
proof -
  have "check (role_attr (fst (Convert env attr role opt m)))"
    using assms(3) by (simp add: Convert_def Let_def check_source)
  then have "OnRemoteChange env' check dispose data r = dispose (fst (Convert env attr role opt m)) r"
    using assms(2,4,5) by (auto simp: OnRemoteChange_def IsFromSameProcess_def)
  then show ?thesis using assms(4) by (simp add: dispose_tables dispose_frame)
qed

end

text \<open>A sequence of local changes; \<open>None\<close> when one of them reports failure.\<close>

fun local_changes :: "rtps_env \<Rightarrow> (role_attributes \<Rightarrow> bool) \<Rightarrow> (change_msg \<Rightarrow> 'a manager_scheme \<Rightarrow> 'a manager_scheme)
    \<Rightarrow> (operate_type \<times> role_attributes \<times> role_type) list \<Rightarrow> 'a manager_scheme \<Rightarrow> 'a manager_scheme option" where
  "local_changes env check dispose [] m = Some m"
| "local_changes env check dispose ((opt, attr, role) # ops) m =
     (case (case opt of OPT_JOIN \<Rightarrow> Join env check dispose attr role True m
                      | OPT_LEAVE \<Rightarrow> Leave env check dispose attr role m) of
        (True, m') \<Rightarrow> local_changes env check dispose ops m'
      | (False, _) \<Rightarrow> None)"

definition source_of :: "'a manager_scheme \<Rightarrow> role_attributes \<Rightarrow> int \<times> string" where
  "source_of m attr = (pb_get (mgr_process_id m) (process_id_opt attr), pb_get (mgr_host_name m) (host_name_opt attr))"

lemma Convert_source: "(process_id (role_attr (fst (Convert env attr role opt m))),
    host_name (role_attr (fst (Convert env attr role opt m)))) = source_of m attr"
  by (auto simp: Convert_def Let_def source_of_def)

context topology_element
begin

lemma replication:
  assumes "local_changes env check dispose ops m = Some m'" and "publisher m"
    and "\<And>msg data. serialize env msg = Some data \<Longrightarrow> parse_msg env' data = Some msg"
    and "\<not> is_shutdown r" and "tables r = tables m"
    and "\<forall>(opt, attr, role) \<in> set ops. source_of m attr \<noteq> (mgr_process_id r, mgr_host_name r)"
  shows "\<exists>wire. published m' = published m @ wire
    \<and> tables (fold (OnRemoteChange env' check dispose) wire r) = tables m'"
  using assms(1,2,4-6)
proof (induction ops arbitrary: m r)
  case Nil
  then show ?case by auto
next
  case (Cons op ops)
  obtain opt attr role where op: "op = (opt, attr, role)" by (cases op)
  from Cons.prems(1) obtain m1 where first: "local_change env opt attr role m = (True, m1)"
    and rest: "local_changes env check dispose ops m1 = Some m'"
    by (auto simp: op local_change_def split: operate_type.splits prod.splits bool.splits)
  obtain msg data where msg: "msg = fst (Convert env attr role opt m)" "serialize env msg = Some data" "check attr"
      "tables m1 = apply_change msg (tables m)" "published m1 = published m @ [data]" "publisher m1"
      "mgr_host_name m1 = mgr_host_name m" "mgr_process_id m1 = mgr_process_id m"
    using local_change_msg [OF first Cons.prems(2)] by blast
  let ?r1 = "OnRemoteChange env' check dispose data r"
  have src: "(process_id (role_attr msg), host_name (role_attr msg)) \<noteq> (mgr_process_id r, mgr_host_name r)"
    unfolding msg(1) Convert_source using Cons.prems(5) by (simp add: op)
  note remote = remote_change [of env attr role opt m data env' r, folded msg(1),
      OF msg(2) assms(3) [OF msg(2)] msg(3) Cons.prems(3) src]
  have r1: "tables ?r1 = apply_change msg (tables r)" "\<not> is_shutdown ?r1"
      "mgr_process_id ?r1 = mgr_process_id r" "mgr_host_name ?r1 = mgr_host_name r"
    using remote by auto
  have "source_of m1 a = source_of m a" for a
    using msg(7,8) by (simp add: source_of_def split: option.split)
  then have "\<forall>(opt, attr, role) \<in> set ops. source_of m1 attr \<noteq> (mgr_process_id ?r1, mgr_host_name ?r1)"
    using Cons.prems(5) r1 by auto
  then obtain wire where "published m' = published m1 @ wire"
      "tables (fold (OnRemoteChange env' check dispose) wire ?r1) = tables m'"
    using Cons.IH [OF rest msg(6) r1(2)] r1(1) msg(4) Cons.prems(4) by auto
  then show ?case using msg(5) by (intro exI [of _ "data # wire"]) simp
qed

end

end
