(* ===== verification/Atomic_Hash_Map.thy ===== *)
theory Atomic_Hash_Map
  imports Cyber_Prelude
begin

text \<open>
  \<open>base/atomic_hash_map.h\<close>: a fixed array of buckets, each a linked list of entries in increasing
  key order behind a sentinel head. A bucket is modelled as the list of its entries. Each public
  operation is one atomic step: in the absence of interference the compare-exchange of \<open>Insert\<close>
  succeeds in its first round, which is the branch modelled here.
\<close>

unbundle bit_operations_syntax

section \<open>Buckets\<close>

record 'v ahm_entry =
  entry_key :: u64
  entry_value :: 'v

type_synonym 'v bucket = "'v ahm_entry list"

fun Bucket_Has :: "'v bucket \<Rightarrow> u64 \<Rightarrow> bool" where
  "Bucket_Has [] key = False"
| "Bucket_Has (target # rest) key =
     (if entry_key target < key then Bucket_Has rest key else entry_key target = key)"

text \<open>
  \<open>Find\<close> walks with \<open>prev\<close> and \<open>target\<close>; the model returns the entries up to \<open>prev\<close> and the
  remaining list that starts with \<open>target\<close> (empty for a null \<open>target\<close>).
\<close>

fun Bucket_Find :: "u64 \<Rightarrow> 'v bucket \<Rightarrow> 'v bucket \<Rightarrow> bool \<times> 'v bucket \<times> 'v bucket" where
  "Bucket_Find key prev [] = (False, prev, [])"
| "Bucket_Find key prev (target # rest) =
     (if entry_key target = key then (True, prev, target # rest)
      else if entry_key target > key then (False, prev, target # rest)
      else Bucket_Find key (prev @ [target]) rest)"

definition Bucket_Insert :: "'v bucket \<Rightarrow> u64 \<Rightarrow> 'v \<Rightarrow> 'v bucket" where
  "Bucket_Insert b key value =
     (case Bucket_Find key [] b of
        (True, prev, target # rest) \<Rightarrow> prev @ target\<lparr>entry_value := value\<rparr> # rest
      | (_, prev, target) \<Rightarrow> prev @ \<lparr>entry_key = key, entry_value = value\<rparr> # target)"

text \<open>\<open>Insert(K)\<close> stores a default-constructed value, the parameter \<open>V_default\<close>.\<close>

definition Bucket_Insert_key :: "'v \<Rightarrow> 'v bucket \<Rightarrow> u64 \<Rightarrow> 'v bucket" where
  "Bucket_Insert_key V_default b key =
     (case Bucket_Find key [] b of
        (True, prev, target # rest) \<Rightarrow> prev @ target\<lparr>entry_value := V_default\<rparr> # rest
      | (_, prev, target) \<Rightarrow> prev @ \<lparr>entry_key = key, entry_value = V_default\<rparr> # target)"

definition Bucket_Get :: "'v bucket \<Rightarrow> u64 \<Rightarrow> 'v option" where
  "Bucket_Get b key =
     (case Bucket_Find key [] b of
        (True, prev, target # rest) \<Rightarrow> Some (entry_value target)
      | _ \<Rightarrow> None)"

section \<open>The table\<close>

record 'v atomic_hash_map =
  ahm_table :: "'v bucket list"
  ahm_capacity :: u64
  ahm_mode_num :: u64

definition AtomicHashMap :: "u64 \<Rightarrow> 'v atomic_hash_map" where
  "AtomicHashMap TableSize =
     \<lparr>ahm_table = replicate (unat TableSize) [], ahm_capacity = TableSize, ahm_mode_num = TableSize - 1\<rparr>"

definition ahm_index :: "'v atomic_hash_map \<Rightarrow> u64 \<Rightarrow> nat" where
  "ahm_index m key = unat (key AND ahm_mode_num m)"

definition AHM_Has :: "'v atomic_hash_map \<Rightarrow> u64 \<Rightarrow> bool" where
  "AHM_Has m key = Bucket_Has (ahm_table m ! ahm_index m key) key"

definition AHM_Get :: "'v atomic_hash_map \<Rightarrow> u64 \<Rightarrow> 'v option" where
  "AHM_Get m key = Bucket_Get (ahm_table m ! ahm_index m key) key"

definition AHM_Set :: "'v atomic_hash_map \<Rightarrow> u64 \<Rightarrow> 'v \<Rightarrow> 'v atomic_hash_map" where
  "AHM_Set m key value =
     (let index = ahm_index m key
      in m\<lparr>ahm_table := (ahm_table m)[index := Bucket_Insert (ahm_table m ! index) key value]\<rparr>)"

definition AHM_Set_key :: "'v \<Rightarrow> 'v atomic_hash_map \<Rightarrow> u64 \<Rightarrow> 'v atomic_hash_map" where
  "AHM_Set_key V_default m key =
     (let index = ahm_index m key
      in m\<lparr>ahm_table := (ahm_table m)[index := Bucket_Insert_key V_default (ahm_table m ! index) key]\<rparr>)"

lemma AHM_Set_key_eq: "AHM_Set_key d m key = AHM_Set m key d"
  by (simp add: AHM_Set_key_def AHM_Set_def Bucket_Insert_key_def Bucket_Insert_def)

section \<open>Buckets are sorted maps\<close>

abbreviation bucket_sorted :: "'v bucket \<Rightarrow> bool" where
  "bucket_sorted b \<equiv> sorted_wrt (\<lambda>x y. entry_key x < entry_key y) b"

abbreviation bucket_map :: "'v bucket \<Rightarrow> u64 \<rightharpoonup> 'v" where
  "bucket_map b \<equiv> map_of (map (\<lambda>e. (entry_key e, entry_value e)) b)"

lemma bucket_map_None: "bucket_map b key = None \<longleftrightarrow> key \<notin> entry_key ` set b"
  by (auto simp: map_of_eq_None_iff image_iff)

lemma bucket_map_above: "\<forall>e \<in> set b. key < entry_key e \<Longrightarrow> bucket_map b key = None"
  by (force simp: bucket_map_None)

lemma Bucket_Find_eq:
  "Bucket_Find key acc b =
     (let target = dropWhile (\<lambda>e. entry_key e < key) b
      in (target \<noteq> [] \<and> entry_key (hd target) = key, acc @ takeWhile (\<lambda>e. entry_key e < key) b, target))"
  by (induction key acc b rule: Bucket_Find.induct) (auto simp: Let_def not_less)

lemma Bucket_Insert_simps [simp]:
  "Bucket_Insert [] key v = [\<lparr>entry_key = key, entry_value = v\<rparr>]"
  "Bucket_Insert (e # b) key v =
     (if entry_key e < key then e # Bucket_Insert b key v
      else if entry_key e = key then e\<lparr>entry_value := v\<rparr> # b
      else \<lparr>entry_key = key, entry_value = v\<rparr> # e # b)"
  by (auto simp: Bucket_Insert_def Bucket_Find_eq Let_def split: list.splits bool.splits)

lemma Bucket_Get_simps [simp]:
  "Bucket_Get [] key = None"
  "Bucket_Get (e # b) key =
     (if entry_key e < key then Bucket_Get b key
      else if entry_key e = key then Some (entry_value e) else None)"
  by (auto simp: Bucket_Get_def Bucket_Find_eq Let_def split: list.splits bool.splits)

lemma bucket_tail_above:
  assumes "bucket_sorted (e # b)" "\<not> entry_key e < key" "entry_key e \<noteq> key"
  shows "bucket_map b key = None"
  using assms by (intro bucket_map_above) (auto simp: not_less intro: less_trans)

lemma Bucket_Get_map: "bucket_sorted b \<Longrightarrow> Bucket_Get b key = bucket_map b key"
proof (induction b)
  case (Cons e b)
  then show ?case using bucket_tail_above [of e b key] by auto
qed simp

lemma Bucket_Has_map: "bucket_sorted b \<Longrightarrow> Bucket_Has b key \<longleftrightarrow> bucket_map b key \<noteq> None"
proof (induction b)
  case (Cons e b)
  then show ?case using bucket_tail_above [of e b key] by auto
qed simp

lemma Bucket_Insert_keys: "entry_key ` set (Bucket_Insert b key v) = insert key (entry_key ` set b)"
  by (induction b) auto

lemma Bucket_Insert_sorted: "bucket_sorted b \<Longrightarrow> bucket_sorted (Bucket_Insert b key v)"
proof (induction b)
  case (Cons e b)
  have "\<forall>x \<in> set (Bucket_Insert b key v). entry_key e < entry_key x" if "entry_key e < key"
  proof
    fix x assume "x \<in> set (Bucket_Insert b key v)"
    then have "entry_key x \<in> insert key (entry_key ` set b)"
      using Bucket_Insert_keys [of b key v] by blast
    with that Cons.prems show "entry_key e < entry_key x" by auto
  qed
  with Cons show ?case by auto
qed simp

lemma Bucket_Insert_map: "bucket_sorted b \<Longrightarrow> bucket_map (Bucket_Insert b key v) = (bucket_map b)(key \<mapsto> v)"
  by (induction b) (auto simp: fun_eq_iff)

section \<open>The table is a map\<close>

definition ahm_ok :: "'v atomic_hash_map \<Rightarrow> bool" where
  "ahm_ok m \<longleftrightarrow> length (ahm_table m) = unat (ahm_mode_num m) + 1 \<and> (\<forall>b \<in> set (ahm_table m). bucket_sorted b)"

text \<open>The interface the users of the table rely on: a map from 64-bit keys.\<close>

locale key_table =
  fixes ok :: "'m \<Rightarrow> bool"
    and has :: "'m \<Rightarrow> u64 \<Rightarrow> bool"
    and get :: "'m \<Rightarrow> u64 \<Rightarrow> 'v option"
    and put :: "'m \<Rightarrow> u64 \<Rightarrow> 'v \<Rightarrow> 'm"
  assumes ok_put: "ok m \<Longrightarrow> ok (put m k v)"
    and has_get: "ok m \<Longrightarrow> has m k \<longleftrightarrow> get m k \<noteq> None"
    and get_put: "ok m \<Longrightarrow> get (put m k v) k' = (if k' = k then Some v else get m k')"
begin

lemma dom_put: "ok m \<Longrightarrow> dom (get (put m k v)) = insert k (dom (get m))"
  by (auto simp: dom_def get_put)

lemma put_same: "ok m \<Longrightarrow> get m k = Some v \<Longrightarrow> get (put m k v) = get m"
  by (auto simp: fun_eq_iff get_put)

end

lemma ahm_index_bound: "ahm_ok m \<Longrightarrow> ahm_index m key < length (ahm_table m)"
  using word_and_le1 [of key "ahm_mode_num m"]
  by (simp add: ahm_ok_def ahm_index_def word_le_nat_alt less_Suc_eq_le)

lemma ahm_bucket_sorted: "ahm_ok m \<Longrightarrow> bucket_sorted (ahm_table m ! ahm_index m key)"
  using ahm_index_bound [of m key] by (simp add: ahm_ok_def)

lemma AHM_Set_index [simp]: "ahm_index (AHM_Set m k v) = ahm_index m"
  by (simp add: AHM_Set_def ahm_index_def fun_eq_iff Let_def)

lemma AHM_Set_ok: "ahm_ok m \<Longrightarrow> ahm_ok (AHM_Set m k v)"
  using ahm_bucket_sorted [of m k] Bucket_Insert_sorted
  by (auto simp: ahm_ok_def AHM_Set_def Let_def dest!: set_update_subset_insert [THEN subsetD])

lemma AHM_Get_Set:
  assumes "ahm_ok m"
  shows "AHM_Get (AHM_Set m k v) k' = (if k' = k then Some v else AHM_Get m k')"
  using ahm_bucket_sorted [OF assms, of k] ahm_index_bound [OF assms, of k] ahm_bucket_sorted [OF assms, of k']
  by (cases "ahm_index m k' = ahm_index m k")
    (simp_all add: AHM_Get_def AHM_Set_index, simp_all add: AHM_Set_def Let_def Bucket_Get_map
      Bucket_Insert_sorted Bucket_Insert_map)

lemma AHM_Has_Get: "ahm_ok m \<Longrightarrow> AHM_Has m k \<longleftrightarrow> AHM_Get m k \<noteq> None"
  using ahm_bucket_sorted [of m k] by (simp add: AHM_Has_def AHM_Get_def Bucket_Get_map Bucket_Has_map)

lemma Bucket_Insert_same: "Bucket_Get b k = Some v \<Longrightarrow> Bucket_Insert b k v = b"
  by (induction b) (auto split: if_splits)

lemma AHM_Set_same: "AHM_Get m k = Some v \<Longrightarrow> AHM_Set m k v = m"
  by (simp add: AHM_Get_def AHM_Set_def Let_def Bucket_Insert_same)

interpretation ahm: key_table ahm_ok AHM_Has AHM_Get AHM_Set
  by unfold_locales (simp_all add: AHM_Set_ok AHM_Has_Get AHM_Get_Set)

lemma AtomicHashMap_ok: "TableSize \<noteq> 0 \<Longrightarrow> ahm_ok (AtomicHashMap TableSize)"
  using unat_gt_0 [of TableSize] by (simp add: ahm_ok_def AtomicHashMap_def unat_minus_one)

lemma AtomicHashMap_empty:
  assumes "TableSize \<noteq> 0"
  shows "AHM_Get (AtomicHashMap TableSize :: 'v atomic_hash_map) k = None"
proof -
  have "ahm_table (AtomicHashMap TableSize :: 'v atomic_hash_map) = replicate (unat TableSize) []"
    by (simp add: AtomicHashMap_def)
  moreover have "ahm_index (AtomicHashMap TableSize :: 'v atomic_hash_map) k
      < length (ahm_table (AtomicHashMap TableSize :: 'v atomic_hash_map))"
    by (intro ahm_index_bound AtomicHashMap_ok assms)
  ultimately show ?thesis by (simp add: AHM_Get_def)
qed

definition ahm_store_all :: "(u64 \<times> 'v) list \<Rightarrow> 'v atomic_hash_map \<Rightarrow> 'v atomic_hash_map" where
  "ahm_store_all kvs m = foldl (\<lambda>m kv. AHM_Set m (fst kv) (snd kv)) m kvs"

lemma ahm_store_all_map:
  "ahm_ok m \<Longrightarrow> ahm_ok (ahm_store_all kvs m) \<and>
     AHM_Get (ahm_store_all kvs m) k = (case map_of (rev kvs) k of None \<Rightarrow> AHM_Get m k | Some v \<Rightarrow> Some v)"
  by (induction kvs arbitrary: k rule: rev_induct)
    (auto simp: ahm_store_all_def AHM_Set_ok AHM_Get_Set split: option.splits)

section \<open>Properties\<close>

text \<open>
  C23: the hash map implements a map. After storing any list of key/value pairs in a fresh table of
  any non-zero size, looking a key up gives the value stored last under it, \<open>Has\<close> agrees with
  \<open>Get\<close>, and every bucket is still strictly sorted by key.
\<close>

theorem hash_map_correct:
  assumes "TableSize \<noteq> 0"
  shows "AHM_Get (ahm_store_all kvs (AtomicHashMap TableSize)) k = map_of (rev kvs) k
    \<and> AHM_Has (ahm_store_all kvs (AtomicHashMap TableSize)) k = (map_of (rev kvs) k \<noteq> None)
    \<and> (\<forall>b \<in> set (ahm_table (ahm_store_all kvs (AtomicHashMap TableSize))). bucket_sorted b)"
  using ahm_store_all_map [OF AtomicHashMap_ok [OF assms], of kvs k] AtomicHashMap_empty [OF assms, of k]
  by (auto simp: AHM_Has_Get ahm_ok_def split: option.splits)

theorem hash_map_correct_witness:
  "AHM_Get (ahm_store_all [(1, ''a''), (5, ''b''), (1, ''c'')] (AtomicHashMap 4)) 1 = Some ''c''"
  using hash_map_correct [of 4 "[(1, ''a''), (5, ''b''), (1, ''c'')]" 1] by simp

end
