(* ===== verification/Cyber_Text.thy ===== *)
theory Cyber_Text
  imports Cyber_Prelude
begin

text \<open>
  Strings: the parts of \<open>std::string\<close> and of the decimal conversions the sources use, and the two
  pure path functions of \<open>common/file.cc\<close>.

  \<open>find\<close> and \<open>rfind\<close> return \<open>None\<close> for \<open>npos\<close>; \<open>substr(pos)\<close> is \<open>drop\<close> and
  \<open>substr(pos, n)\<close> is \<open>take n\<close> of it. \<open>std::stoi\<close> skips blanks, accepts a sign, reads the longest
  run of digits, and throws (\<open>None\<close>) when there is no digit or the value is not an \<open>int\<close>.
\<close>

section \<open>Searching\<close>

fun find_char :: "char \<Rightarrow> string \<Rightarrow> nat option" where
  "find_char c [] = None"
| "find_char c (x # xs) = (if x = c then Some 0 else map_option Suc (find_char c xs))"

fun rfind_char :: "char \<Rightarrow> string \<Rightarrow> nat option" where
  "rfind_char c [] = None"
| "rfind_char c (x # xs) =
     (case rfind_char c xs of
        Some i \<Rightarrow> Some (Suc i)
      | None \<Rightarrow> if x = c then Some 0 else None)"

lemma find_char_split: "c \<notin> set xs \<Longrightarrow> find_char c (xs @ c # ys) = Some (length xs)"
  by (induction xs) auto

lemma find_char_None_iff: "find_char c xs = None \<longleftrightarrow> c \<notin> set xs"
  by (induction xs) auto

lemma find_charD: "find_char c xs = Some i \<Longrightarrow> i < length xs \<and> xs ! i = c \<and> c \<notin> set (take i xs)"
  by (induction xs arbitrary: i) (auto split: if_splits)

lemma rfind_char_None_iff: "rfind_char c xs = None \<longleftrightarrow> c \<notin> set xs"
  by (induction xs) (auto split: option.split)

lemma rfind_char_split: "c \<notin> set ys \<Longrightarrow> rfind_char c (xs @ c # ys) = Some (length xs)"
  by (induction xs) (auto simp: rfind_char_None_iff split: option.split)

section \<open>Decimal conversions\<close>

definition digit_char :: "nat \<Rightarrow> char" where
  "digit_char d = char_of (48 + d)"

definition is_digit :: "char \<Rightarrow> bool" where
  "is_digit c \<longleftrightarrow> 48 \<le> (of_char c :: nat) \<and> (of_char c :: nat) \<le> 57"

definition digit_value :: "char \<Rightarrow> nat" where
  "digit_value c = of_char c - 48"

fun nat_to_string :: "nat \<Rightarrow> string" where
  "nat_to_string n = (if n < 10 then [digit_char n] else nat_to_string (n div 10) @ [digit_char (n mod 10)])"

declare nat_to_string.simps [simp del]

definition int_to_string :: "int \<Rightarrow> string" where
  "int_to_string i = (if i < 0 then CHR ''-'' # nat_to_string (nat (- i)) else nat_to_string (nat i))"

definition digits_value :: "string \<Rightarrow> nat" where
  "digits_value ds = foldl (\<lambda>v c. 10 * v + digit_value c) 0 ds"

definition is_blank :: "char \<Rightarrow> bool" where
  "is_blank c \<longleftrightarrow> (of_char c :: nat) = 32 \<or> (9 \<le> (of_char c :: nat) \<and> (of_char c :: nat) \<le> 13)"

definition stoi_digits :: "bool \<Rightarrow> string \<Rightarrow> int option" where
  "stoi_digits neg s =
     (let ds = takeWhile is_digit s; v = (if neg then - int (digits_value ds) else int (digits_value ds))
      in if ds = [] then None
         else if - 2147483648 \<le> v \<and> v \<le> 2147483647 then Some v else None)"

definition stoi :: "string \<Rightarrow> int option" where
  "stoi s =
     (case dropWhile is_blank s of
        [] \<Rightarrow> None
      | c # cs \<Rightarrow>
          if c = CHR ''-'' then stoi_digits True cs
          else if c = CHR ''+'' then stoi_digits False cs
          else stoi_digits False (c # cs))"

lemma digit_char_props:
  assumes "d < 10"
  shows "is_digit (digit_char d)" "digit_value (digit_char d) = d" "\<not> is_blank (digit_char d)"
    "digit_char d \<noteq> CHR ''-''" "digit_char d \<noteq> CHR ''+''"
proof -
  have code: "(of_char (digit_char d) :: nat) = 48 + d"
    using assms by (simp add: digit_char_def)
  show "is_digit (digit_char d)" "digit_value (digit_char d) = d" "\<not> is_blank (digit_char d)"
    using assms by (simp_all add: is_digit_def digit_value_def is_blank_def code)
  show "digit_char d \<noteq> CHR ''-''" "digit_char d \<noteq> CHR ''+''"
    using code assms by auto
qed

lemma nat_to_string_value: "digits_value (nat_to_string n) = n"
  by (induction n rule: nat_to_string.induct)
    (subst nat_to_string.simps, auto simp: digits_value_def digit_char_props)

lemma nat_to_string_chars: "set (nat_to_string n) \<subseteq> digit_char ` {..<10}"
  by (induction n rule: nat_to_string.induct) (subst nat_to_string.simps, auto)

lemma nat_to_string_digits:
  assumes "c \<in> set (nat_to_string n)"
  shows "is_digit c \<and> \<not> is_blank c \<and> c \<noteq> CHR ''-'' \<and> c \<noteq> CHR ''+''"
proof -
  obtain d where "d < 10" and "c = digit_char d"
    using assms nat_to_string_chars [of n] by (meson imageE lessThan_iff subsetD)
  then show ?thesis using digit_char_props [of d] by simp
qed

lemma nat_to_string_nonempty [simp]: "nat_to_string n \<noteq> []"
  by (subst nat_to_string.simps) simp

lemma stoi_int_to_string:
  assumes "- 2147483648 \<le> i" and "i \<le> 2147483647"
  shows "stoi (int_to_string i) = Some i"
proof -
  have digits: "takeWhile is_digit (nat_to_string n) = nat_to_string n" for n
    by (rule takeWhile_eq_all_conv [THEN iffD2]) (simp add: nat_to_string_digits)
  show ?thesis
  proof (cases "i < 0")
    case True
    then show ?thesis
      using assms
      by (simp add: stoi_def int_to_string_def is_blank_def stoi_digits_def digits nat_to_string_value Let_def)
  next
    case False
    obtain c cs where s: "nat_to_string (nat i) = c # cs" by (cases "nat_to_string (nat i)") auto
    then have "\<not> is_blank c" "c \<noteq> CHR ''-''" "c \<noteq> CHR ''+''"
      using nat_to_string_digits [of c "nat i"] by simp_all
    moreover have "stoi_digits False (c # cs) = Some i"
      using assms False unfolding s [symmetric]
      by (simp add: stoi_digits_def digits nat_to_string_value Let_def)
    ultimately show ?thesis
      using False by (simp add: stoi_def int_to_string_def s)
  qed
qed

section \<open>Paths\<close>

definition GetAbsolutePath :: "string \<Rightarrow> string \<Rightarrow> string" where
  "GetAbsolutePath prefix relative_path =
     (if relative_path = [] then prefix
      else if prefix = [] \<or> hd relative_path = CHR ''/'' then relative_path
      else if last prefix = CHR ''/'' then prefix @ relative_path
      else prefix @ ''/'' @ relative_path)"

definition GetFileName :: "string \<Rightarrow> bool \<Rightarrow> string" where
  "GetFileName path remove_extension =
     (let start = (case rfind_char (CHR ''/'') path of None \<Rightarrow> 0 | Some i \<Rightarrow> i + 1);
          end_pos = (if remove_extension
                     then (case rfind_char (CHR ''.'') path of
                             Some e \<Rightarrow> if e < start then None else Some e
                           | None \<Rightarrow> None)
                     else None)
      in case end_pos of
           Some e \<Rightarrow> take (e - start) (drop start path)
         | None \<Rightarrow> drop start path)"

lemma GetFileName_dir:
  assumes "CHR ''/'' \<notin> set nm"
  shows "GetFileName (dir @ ''/'' @ nm) False = nm" "GetFileName nm False = nm"
    "CHR ''.'' \<notin> set e \<Longrightarrow> CHR ''/'' \<notin> set e \<Longrightarrow> GetFileName (dir @ ''/'' @ nm @ ''.'' @ e) True = nm"
    "CHR ''.'' \<notin> set e \<Longrightarrow> CHR ''/'' \<notin> set e \<Longrightarrow> GetFileName (nm @ ''.'' @ e) True = nm"
proof -
  have slash: "rfind_char (CHR ''/'') (dir @ CHR ''/'' # nm) = Some (length dir)"
    "rfind_char (CHR ''/'') nm = None"
    using assms by (simp_all add: rfind_char_split rfind_char_None_iff)
  then show "GetFileName (dir @ ''/'' @ nm) False = nm" "GetFileName nm False = nm"
    by (simp_all add: GetFileName_def Let_def)
  assume e: "CHR ''.'' \<notin> set e" "CHR ''/'' \<notin> set e"
  have dot: "rfind_char (CHR ''.'') (p @ CHR ''.'' # e) = Some (length p)" for p
    using e by (simp add: rfind_char_split)
  have "rfind_char (CHR ''/'') (dir @ CHR ''/'' # (nm @ CHR ''.'' # e)) = Some (length dir)"
    "rfind_char (CHR ''/'') (nm @ CHR ''.'' # e) = None"
    using assms e by (simp_all add: rfind_char_split rfind_char_None_iff)
  then show "GetFileName (dir @ ''/'' @ nm @ ''.'' @ e) True = nm" "GetFileName (nm @ ''.'' @ e) True = nm"
    using dot [of "dir @ CHR ''/'' # nm"] dot [of nm] by (simp_all add: GetFileName_def Let_def)
qed

lemma GetAbsolutePath_cases:
  assumes "nm \<noteq> []" and "hd nm \<noteq> CHR ''/''"
  obtains "GetAbsolutePath prefix nm = nm" | dir where "GetAbsolutePath prefix nm = dir @ ''/'' @ nm"
proof (cases "prefix \<noteq> [] \<and> last prefix = CHR ''/''")
  case True
  then have "prefix = butlast prefix @ ''/''" by (metis append_butlast_last_id)
  then have "prefix @ nm = butlast prefix @ ''/'' @ nm" by (metis append_assoc)
  then show ?thesis using that(2) [of "butlast prefix"] assms True by (simp add: GetAbsolutePath_def)
next
  case False
  then show ?thesis using that(1) that(2) [of prefix] assms by (cases "prefix = []") (simp_all add: GetAbsolutePath_def)
qed

text \<open>
  The path functions invert each other. The file name of a path built from any prefix and a plain
  name (no slash) is that name, and with the extension removed it is the name up to its last dot,
  whatever the prefix contains, dots included.
\<close>

theorem file_name_roundtrip:
  assumes "CHR ''/'' \<notin> set nm" and "nm \<noteq> []" and "CHR ''/'' \<notin> set e" and "CHR ''.'' \<notin> set e"
  shows "GetFileName (GetAbsolutePath prefix nm) False = nm
    \<and> GetFileName (GetAbsolutePath prefix (nm @ ''.'' @ e)) True = nm"
proof -
  have "hd nm \<noteq> CHR ''/''" using assms(1,2) by (metis hd_in_set)
  then have "hd (nm @ ''.'' @ e) \<noteq> CHR ''/''" using assms(2) by simp
  with \<open>hd nm \<noteq> CHR ''/''\<close> show ?thesis
    using assms GetAbsolutePath_cases [of nm prefix] GetAbsolutePath_cases [of "nm @ ''.'' @ e" prefix]
      GetFileName_dir [OF assms(1)]
    by (metis append_is_Nil_conv)
qed

theorem file_name_roundtrip_witness:
  "GetFileName (GetAbsolutePath ''/apollo/v1.5'' ''main'') False = ''main''
    \<and> GetFileName (GetAbsolutePath ''/apollo/v1.5'' (''main'' @ ''.'' @ ''cc'')) True = ''main''"
  by (rule file_name_roundtrip) simp_all

end
