(* ===== verification/Global_Data.thy ===== *)
theory Global_Data
  imports Atomic_Hash_Map Cyber_Text
begin

text \<open>
  \<open>common/global_data.{h,cc}\<close>: process-wide settings and the four name registries (nodes,
  channels, services, tasks). A registry hands out 64-bit ids by hashing a name and probing upwards
  past ids taken by other names. \<open>std::hash\<close> is a parameter \<open>hash\<close> of the model; no property
  assumes anything of it, so all of them hold under arbitrary hash collisions.
\<close>

section \<open>Process-wide settings\<close>

datatype run_mode = MODE_REALITY | MODE_SIMULATION
datatype clock_mode = MODE_CYBER | MODE_MOCK

record global_data =
  gd_host_ip :: string
  gd_host_name :: string
  gd_process_id :: int
  gd_process_group :: string
  gd_component_nums :: int
  gd_sched_name :: string
  gd_run_mode :: run_mode
  gd_clock_mode :: clock_mode
  node_id_map :: "string atomic_hash_map"
  channel_id_map :: "string atomic_hash_map"
  service_id_map :: "string atomic_hash_map"
  task_id_map :: "string atomic_hash_map"

definition SetProcessGroup :: "global_data \<Rightarrow> string \<Rightarrow> global_data" where
  "SetProcessGroup g process_group = g\<lparr>gd_process_group := process_group\<rparr>"

definition SetComponentNums :: "global_data \<Rightarrow> int \<Rightarrow> global_data" where
  "SetComponentNums g component_nums = g\<lparr>gd_component_nums := component_nums\<rparr>"

definition SetSchedName :: "global_data \<Rightarrow> string \<Rightarrow> global_data" where
  "SetSchedName g sched_name = g\<lparr>gd_sched_name := sched_name\<rparr>"

definition EnableSimulationMode :: "global_data \<Rightarrow> global_data" where
  "EnableSimulationMode g = g\<lparr>gd_run_mode := MODE_SIMULATION\<rparr>"

definition DisableSimulationMode :: "global_data \<Rightarrow> global_data" where
  "DisableSimulationMode g = g\<lparr>gd_run_mode := MODE_REALITY\<rparr>"

definition IsRealityMode :: "global_data \<Rightarrow> bool" where
  "IsRealityMode g = (gd_run_mode g = MODE_REALITY)"

definition IsMockTimeMode :: "global_data \<Rightarrow> bool" where
  "IsMockTimeMode g = (gd_clock_mode g = MODE_MOCK)"

section \<open>Choosing the host address\<close>

text \<open>
  One entry of the \<open>getifaddrs\<close> list: no address, an address of another family, or an IPv4 address
  with the text \<open>getnameinfo\<close> gives for it (\<open>None\<close> when that call fails).
\<close>

datatype ifaddr = NullAddr | OtherFamily | Inet "string option"

fun scan_ifaddrs :: "ifaddr list \<Rightarrow> string \<Rightarrow> string" where
  "scan_ifaddrs [] host_ip = host_ip"
| "scan_ifaddrs (ifa # rest) host_ip =
     (case ifa of
        NullAddr \<Rightarrow> scan_ifaddrs rest host_ip
      | OtherFamily \<Rightarrow> scan_ifaddrs rest host_ip
      | Inet None \<Rightarrow> scan_ifaddrs rest host_ip
      | Inet (Some tmp_ip) \<Rightarrow> if take 3 tmp_ip \<noteq> ''127'' then tmp_ip else scan_ifaddrs rest host_ip)"

text \<open>
  \<open>env\<close> is \<open>getenv\<close>, \<open>ifaddrs\<close> the result of \<open>getifaddrs\<close> (\<open>None\<close> when it fails), \<open>host\<close>
  the result of \<open>gethostname\<close>.
\<close>

definition InitHostInfo ::
  "string \<Rightarrow> (string \<Rightarrow> string option) \<Rightarrow> ifaddr list option \<Rightarrow> global_data \<Rightarrow> global_data" where
  "InitHostInfo host env ifaddrs g =
     (let g1 = g\<lparr>gd_host_name := host, gd_host_ip := ''127.0.0.1''\<rparr>;
          from_env = (case env ''CYBER_IP'' of None \<Rightarrow> None
                      | Some ip_env_str \<Rightarrow> if take 3 ip_env_str \<noteq> ''127'' then Some ip_env_str else None)
      in case from_env of
           Some ip \<Rightarrow> g1\<lparr>gd_host_ip := ip\<rparr>
         | None \<Rightarrow>
             (case ifaddrs of
                None \<Rightarrow> g1
              | Some addrs \<Rightarrow> g1\<lparr>gd_host_ip := scan_ifaddrs addrs (gd_host_ip g1)\<rparr>))"

section \<open>Name registries\<close>

text \<open>
  The probing loop shared by the four \<open>Register\<close> functions. \<open>None\<close> stands for a loop that never
  ends (every id taken by another name) or the null dereference that would follow a \<open>Get\<close> that
  fails right after \<open>Has\<close>.
\<close>

partial_function (option) register_probe ::
  "string atomic_hash_map \<Rightarrow> string \<Rightarrow> u64 \<Rightarrow> u64 option" where
  "register_probe m nm i =
     (if AHM_Has m i
      then (case AHM_Get m i of
              None \<Rightarrow> None
            | Some other \<Rightarrow> if nm = other then Some i else register_probe m nm (i + 1))
      else Some i)"

definition register_name ::
  "(string \<Rightarrow> u64) \<Rightarrow> string atomic_hash_map \<Rightarrow> string \<Rightarrow> (u64 \<times> string atomic_hash_map) option" where
  "register_name hash m nm =
     (case register_probe m nm (hash nm) of
        None \<Rightarrow> None
      | Some i \<Rightarrow> Some (i, AHM_Set m i nm))"

definition name_by_id :: "string atomic_hash_map \<Rightarrow> u64 \<Rightarrow> string" where
  "name_by_id m i = (case AHM_Get m i of None \<Rightarrow> [] | Some nm \<Rightarrow> nm)"

definition RegisterNode :: "(string \<Rightarrow> u64) \<Rightarrow> global_data \<Rightarrow> string \<Rightarrow> (u64 \<times> global_data) option" where
  "RegisterNode hash g node_name =
     map_option (\<lambda>(i, m). (i, g\<lparr>node_id_map := m\<rparr>)) (register_name hash (node_id_map g) node_name)"

definition GetNodeById :: "global_data \<Rightarrow> u64 \<Rightarrow> string" where
  "GetNodeById g i = name_by_id (node_id_map g) i"

definition RegisterChannel :: "(string \<Rightarrow> u64) \<Rightarrow> global_data \<Rightarrow> string \<Rightarrow> (u64 \<times> global_data) option" where
  "RegisterChannel hash g channel =
     map_option (\<lambda>(i, m). (i, g\<lparr>channel_id_map := m\<rparr>)) (register_name hash (channel_id_map g) channel)"

definition GetChannelById :: "global_data \<Rightarrow> u64 \<Rightarrow> string" where
  "GetChannelById g i = name_by_id (channel_id_map g) i"

definition RegisterService :: "(string \<Rightarrow> u64) \<Rightarrow> global_data \<Rightarrow> string \<Rightarrow> (u64 \<times> global_data) option" where
  "RegisterService hash g service =
     map_option (\<lambda>(i, m). (i, g\<lparr>service_id_map := m\<rparr>)) (register_name hash (service_id_map g) service)"

definition GetServiceById :: "global_data \<Rightarrow> u64 \<Rightarrow> string" where
  "GetServiceById g i = name_by_id (service_id_map g) i"

definition RegisterTaskName :: "(string \<Rightarrow> u64) \<Rightarrow> global_data \<Rightarrow> string \<Rightarrow> (u64 \<times> global_data) option" where
  "RegisterTaskName hash g task_name =
     map_option (\<lambda>(i, m). (i, g\<lparr>task_id_map := m\<rparr>)) (register_name hash (task_id_map g) task_name)"

definition GetTaskNameById :: "global_data \<Rightarrow> u64 \<Rightarrow> string" where
  "GetTaskNameById g i = name_by_id (task_id_map g) i"

section \<open>Construction\<close>

definition GetEnv :: "(string \<Rightarrow> string option) \<Rightarrow> string \<Rightarrow> string \<Rightarrow> string" where
  "GetEnv env var_name default_value = (case env var_name of None \<Rightarrow> default_value | Some var \<Rightarrow> var)"

definition WorkRoot :: "(string \<Rightarrow> string option) \<Rightarrow> string" where
  "WorkRoot env = (let work_root = GetEnv env ''CYBER_PATH'' [] in if work_root = [] then ''/apollo/cyber'' else work_root)"

text \<open>
  \<open>read_config\<close> is \<open>GetProtoFromFile\<close> on the configuration: \<open>None\<close> when the file cannot be read
  or parsed, otherwise the run mode and clock mode the parsed message gives.
\<close>

definition InitConfig ::
  "(string \<Rightarrow> string option) \<Rightarrow> (string \<Rightarrow> (run_mode \<times> clock_mode) option) \<Rightarrow> (run_mode \<times> clock_mode) option" where
  "InitConfig env read_config = read_config (GetAbsolutePath (WorkRoot env) ''conf/cyber.pb.conf'')"

text \<open>The static members are tables of 512 and 256 buckets; a failed \<open>ACHECK\<close> aborts (\<open>None\<close>).\<close>

definition GlobalData_static :: global_data where
  "GlobalData_static =
     \<lparr>gd_host_ip = [], gd_host_name = [], gd_process_id = 0, gd_process_group = [],
      gd_component_nums = 0, gd_sched_name = ''CYBER_DEFAULT'', gd_run_mode = MODE_REALITY,
      gd_clock_mode = MODE_CYBER, node_id_map = AtomicHashMap 512, channel_id_map = AtomicHashMap 256,
      service_id_map = AtomicHashMap 256, task_id_map = AtomicHashMap 256\<rparr>"

definition GlobalData :: "string \<Rightarrow> (string \<Rightarrow> string option) \<Rightarrow> ifaddr list option
    \<Rightarrow> (string \<Rightarrow> (run_mode \<times> clock_mode) option) \<Rightarrow> int \<Rightarrow> string \<Rightarrow> global_data option" where
  "GlobalData host env ifaddrs read_config pid prog_path =
     (let g1 = InitHostInfo host env ifaddrs GlobalData_static
      in case InitConfig env read_config of
           None \<Rightarrow> None
         | Some (run, clk) \<Rightarrow>
             let g2 = g1\<lparr>gd_process_id := pid\<rparr>;
                 g3 = (if prog_path \<noteq> []
                       then g2\<lparr>gd_process_group := GetFileName prog_path False @ ''_'' @ int_to_string pid\<rparr>
                       else g2\<lparr>gd_process_group := ''cyber_default_'' @ int_to_string pid\<rparr>)
             in Some (g3\<lparr>gd_run_mode := run, gd_clock_mode := clk\<rparr>))"

section \<open>Probing\<close>

definition probe_stops :: "string atomic_hash_map \<Rightarrow> string \<Rightarrow> u64 \<Rightarrow> bool" where
  "probe_stops m nm i \<longleftrightarrow> AHM_Get m i = None \<or> AHM_Get m i = Some nm"

lemma register_probe_stop: "ahm_ok m \<Longrightarrow> probe_stops m nm i \<Longrightarrow> register_probe m nm i = Some i"
  by (subst register_probe.simps) (auto simp: probe_stops_def AHM_Has_Get)

lemma register_probe_next:
  "ahm_ok m \<Longrightarrow> \<not> probe_stops m nm i \<Longrightarrow> register_probe m nm i = register_probe m nm (i + 1)"
  by (subst register_probe.simps) (auto simp: probe_stops_def AHM_Has_Get)

lemma register_probe_finds:
  assumes "ahm_ok m" and "probe_stops m nm (i + of_nat n)"
  shows "\<exists>j. register_probe m nm i = Some j \<and> probe_stops m nm j"
  using assms(2)
proof (induction n arbitrary: i)
  case 0
  then show ?case using register_probe_stop [OF assms(1)] by simp
next
  case (Suc n)
  show ?case
  proof (cases "probe_stops m nm i")
    case True
    then show ?thesis using register_probe_stop [OF assms(1)] by simp
  next
    case False
    have "probe_stops m nm ((i + 1) + of_nat n)" using Suc.prems by (simp add: algebra_simps)
    then show ?thesis using Suc.IH register_probe_next [OF assms(1) False] by simp
  qed
qed

lemma register_probe_total:
  assumes "ahm_ok m" and "dom (AHM_Get m) \<noteq> UNIV"
  shows "\<exists>j. register_probe m nm i = Some j \<and> probe_stops m nm j"
proof -
  from assms(2) obtain j where "AHM_Get m j = None" by (auto simp: dom_def)
  then have "probe_stops m nm (i + of_nat (unat (j - i)))" by (simp add: probe_stops_def)
  then show ?thesis by (rule register_probe_finds [OF assms(1)])
qed

lemma register_probe_sound:
  assumes "register_probe m nm i = Some j" and "ahm_ok m"
  shows "probe_stops m nm j"
proof -
  have "ahm_ok m \<longrightarrow> probe_stops m nm j"
    by (rule register_probe.raw_induct [where P = "\<lambda>m nm i j. ahm_ok m \<longrightarrow> probe_stops m nm j", OF _ assms(1)])
      (auto simp: probe_stops_def AHM_Has_Get split: if_splits option.splits)
  with assms(2) show ?thesis by simp
qed

text \<open>Entries are never removed or renamed, so a name keeps the id it was given.\<close>

lemma register_probe_stable:
  assumes "register_probe m nm i = Some j" and "ahm_ok m" and "ahm_ok m'"
    and "\<And>k v. AHM_Get m k = Some v \<Longrightarrow> AHM_Get m' k = Some v" and "AHM_Get m' j = Some nm"
  shows "register_probe m' nm i = Some j"
proof -
  let ?P = "\<lambda>m nm i j. \<forall>m'. ahm_ok m \<longrightarrow> ahm_ok m' \<longrightarrow> (\<forall>k v. AHM_Get m k = Some v \<longrightarrow> AHM_Get m' k = Some v)
      \<longrightarrow> AHM_Get m' j = Some nm \<longrightarrow> register_probe m' nm i = Some j"
  have "?P m nm i j"
  proof (rule register_probe.raw_induct [where P = ?P, OF _ assms(1)], intro allI impI)
    fix f m nm i j m'
    assume IH: "\<And>m nm i j. f m nm i = Some j \<Longrightarrow> ?P m nm i j"
      and step: "(if AHM_Has m i then case AHM_Get m i of None \<Rightarrow> None
          | Some other \<Rightarrow> if nm = other then Some i else f m nm (i + 1) else Some i) = Some j"
      and ok: "ahm_ok m" "ahm_ok m'" and ext: "\<forall>k v. AHM_Get m k = Some v \<longrightarrow> AHM_Get m' k = Some v"
      and at: "AHM_Get m' j = Some nm"
    show "register_probe m' nm i = Some j"
    proof (cases "probe_stops m nm i")
      case True
      then have "j = i" using step ok by (auto simp: probe_stops_def AHM_Has_Get)
      then show ?thesis using at ok by (simp add: register_probe_stop probe_stops_def)
    next
      case False
      then have "\<not> probe_stops m' nm i" using ext by (auto simp: probe_stops_def)
      moreover have "f m nm (i + 1) = Some j"
        using step False ok by (auto simp: probe_stops_def AHM_Has_Get split: if_splits option.splits)
      ultimately show ?thesis using IH ok ext at by (simp add: register_probe_next)
    qed
  qed
  with assms(2-5) show ?thesis by blast
qed

section \<open>Sequences of registrations\<close>

text \<open>Registering a list of names in one registry, collecting the ids.\<close>

fun register_names ::
  "(string \<Rightarrow> u64) \<Rightarrow> string atomic_hash_map \<Rightarrow> string list \<Rightarrow> (u64 list \<times> string atomic_hash_map) option" where
  "register_names hash m [] = Some ([], m)"
| "register_names hash m (nm # names) =
     (case register_name hash m nm of
        None \<Rightarrow> None
      | Some (i, m1) \<Rightarrow>
          (case register_names hash m1 names of
             None \<Rightarrow> None
           | Some (is, m2) \<Rightarrow> Some (i # is, m2)))"

lemma register_nameD:
  assumes "register_name hash m nm = Some (i, m')" and "ahm_ok m"
  shows "ahm_ok m'" "AHM_Get m' i = Some nm" "\<And>k v. AHM_Get m k = Some v \<Longrightarrow> AHM_Get m' k = Some v"
    "register_probe m nm (hash nm) = Some i"
  using assms register_probe_sound [of m nm "hash nm" i]
  by (auto simp: register_name_def AHM_Set_ok AHM_Get_Set probe_stops_def split: option.splits if_splits)

lemma register_name_again:
  assumes "register_name hash m nm = Some (i, m')" and "ahm_ok m"
  shows "register_name hash m' nm = Some (i, m')"
proof -
  note D = register_nameD [OF assms]
  have "register_probe m' nm (hash nm) = Some i"
    by (rule register_probe_stable [OF D(4) assms(2) D(1) _ D(2)]) (rule D(3))
  then show ?thesis by (simp add: register_name_def AHM_Set_same D(2))
qed

lemma register_name_fresh:
  "ahm_ok m \<Longrightarrow> AHM_Get m (hash nm) = None \<Longrightarrow> register_name hash m nm = Some (hash nm, AHM_Set m (hash nm) nm)"
  by (simp add: register_name_def register_probe_stop probe_stops_def)

lemma register_namesD:
  assumes "register_names hash m names = Some (is, m')" and "ahm_ok m"
  shows "length is = length names \<and> ahm_ok m'
    \<and> (\<forall>k v. AHM_Get m k = Some v \<longrightarrow> AHM_Get m' k = Some v)
    \<and> (\<forall>n < length names. AHM_Get m' (is ! n) = Some (names ! n)
          \<and> register_probe m' (names ! n) (hash (names ! n)) = Some (is ! n))"
  using assms
proof (induction names arbitrary: m "is")
  case (Cons nm names)
  from Cons.prems(1) obtain i m1 is' where
    first: "register_name hash m nm = Some (i, m1)" and
    rest: "register_names hash m1 names = Some (is', m')" and "is = i # is'"
    by (auto split: option.splits)
  note D = register_nameD [OF first Cons.prems(2)]
  note IH = Cons.IH [OF rest D(1)]
  have "register_probe m' nm (hash nm) = Some i"
    by (rule register_probe_stable [OF D(4) Cons.prems(2)]) (use IH D in auto)
  with IH D \<open>is = i # is'\<close> show ?case
    by (auto simp: nth_Cons split: nat.split)
qed simp

lemma register_names_total:
  assumes "ahm_ok m" and "card (dom (AHM_Get m)) + length names < 18446744073709551616"
  shows "\<exists>is m'. register_names hash m names = Some (is, m')"
  using assms
proof (induction names arbitrary: m)
  case (Cons nm names)
  have "dom (AHM_Get m) \<noteq> UNIV"
    using Cons.prems(2) by (auto simp: card_word)
  then obtain i where "register_probe m nm (hash nm) = Some i"
    using register_probe_total [OF Cons.prems(1), of nm "hash nm"] by auto
  then have reg: "register_name hash m nm = Some (i, AHM_Set m i nm)"
    by (simp add: register_name_def)
  have "card (dom (AHM_Get (AHM_Set m i nm))) \<le> Suc (card (dom (AHM_Get m)))"
    unfolding ahm.dom_put [OF Cons.prems(1)] by (rule card_insert_le_m1) simp_all
  with Cons.IH [OF AHM_Set_ok [OF Cons.prems(1)], of i nm] Cons.prems(2) reg show ?case
    by (auto split: option.splits)
qed simp

section \<open>Properties\<close>

text \<open>
  C10: ids are faithful names. However the hash function collides, registering any list of names
  (fewer than \<open>2 ^ 64\<close>) in a fresh registry terminates, and afterwards two entries get the same id
  exactly when they are the same name, and looking an id up gives its name back.
\<close>

theorem register_names_faithful:
  assumes "TableSize \<noteq> 0" and "length names < 18446744073709551616"
  shows "\<exists>is m. register_names hash (AtomicHashMap TableSize) names = Some (is, m)
    \<and> length is = length names
    \<and> (\<forall>i < length names. \<forall>j < length names. is ! i = is ! j \<longleftrightarrow> names ! i = names ! j)
    \<and> (\<forall>i < length names. name_by_id m (is ! i) = names ! i)"
proof -
  have ok: "ahm_ok (AtomicHashMap TableSize :: string atomic_hash_map)"
    by (rule AtomicHashMap_ok [OF assms(1)])
  have "dom (AHM_Get (AtomicHashMap TableSize :: string atomic_hash_map)) = {}"
    by (simp add: dom_def AtomicHashMap_empty [OF assms(1)])
  then obtain "is" m where run: "register_names hash (AtomicHashMap TableSize) names = Some (is, m)"
    using register_names_total [OF ok, of names hash] assms(2) by auto
  note D = register_namesD [OF run ok]
  show ?thesis
  proof (intro exI conjI allI impI)
    show "register_names hash (AtomicHashMap TableSize) names = Some (is, m)" by (rule run)
    show "length is = length names" using D by simp
    show "name_by_id m (is ! i) = names ! i" if "i < length names" for i
      using D that by (simp add: name_by_id_def)
    show "is ! i = is ! j \<longleftrightarrow> names ! i = names ! j" if "i < length names" "j < length names" for i j
      using D that by (metis option.inject)
  qed
qed

theorem register_names_faithful_witness:
  "\<exists>is m. register_names (\<lambda>_. 7) (AtomicHashMap 256) [''a'', ''b'', ''a''] = Some (is, m)
    \<and> length is = length [''a'', ''b'', ''a'']
    \<and> (\<forall>i < length [''a'', ''b'', ''a'']. \<forall>j < length [''a'', ''b'', ''a''].
         is ! i = is ! j \<longleftrightarrow> [''a'', ''b'', ''a''] ! i = [''a'', ''b'', ''a''] ! j)
    \<and> (\<forall>i < length [''a'', ''b'', ''a'']. name_by_id m (is ! i) = [''a'', ''b'', ''a''] ! i)"
  by (rule register_names_faithful) simp_all

text \<open>
  Each public registry function returns an id whose lookup gives the registered name back,
  leaves every id handed out before with its name, and touches no other registry.
\<close>

theorem register_channel_roundtrip:
  assumes "ahm_ok (channel_id_map g)" and "RegisterChannel hash g channel = Some (i, g')"
  shows "GetChannelById g' i = channel
    \<and> (\<forall>k. AHM_Has (channel_id_map g) k \<longrightarrow> GetChannelById g' k = GetChannelById g k)
    \<and> g' = g\<lparr>channel_id_map := channel_id_map g'\<rparr> \<and> ahm_ok (channel_id_map g')"
proof -
  obtain m where reg: "register_name hash (channel_id_map g) channel = Some (i, m)"
    and g': "g' = g\<lparr>channel_id_map := m\<rparr>"
    using assms(2) by (auto simp: RegisterChannel_def)
  note D = register_nameD [OF reg assms(1)]
  show ?thesis
    using D assms(1) by (auto simp: g' GetChannelById_def name_by_id_def AHM_Has_Get)
qed

theorem register_channel_roundtrip_witness:
  "GetChannelById (snd (the (RegisterChannel (\<lambda>_. 3) GlobalData_static ''/chatter''))) 3 = ''/chatter''"
proof -
  have ok: "ahm_ok (channel_id_map GlobalData_static)"
    by (simp add: GlobalData_static_def AtomicHashMap_ok)
  have "AHM_Get (channel_id_map GlobalData_static) 3 = None"
    by (simp add: GlobalData_static_def AtomicHashMap_empty)
  then have "register_probe (channel_id_map GlobalData_static) ''/chatter'' 3 = Some 3"
    by (intro register_probe_stop ok) (simp add: probe_stops_def)
  then obtain g' where "RegisterChannel (\<lambda>_. 3) GlobalData_static ''/chatter'' = Some (3, g')"
    by (simp add: RegisterChannel_def register_name_def)
  with register_channel_roundtrip [OF ok this] show ?thesis by simp
qed

text \<open>
  The address the process advertises is loopback only when nothing better was offered: the
  result of \<open>InitHostInfo\<close> either does not start with \<open>127\<close> or is the default \<open>127.0.0.1\<close>, and a
  non-loopback \<open>CYBER_IP\<close> always wins.
\<close>

theorem host_ip_choice:
  "(take 3 (gd_host_ip (InitHostInfo host env ifaddrs g)) = ''127''
      \<longrightarrow> gd_host_ip (InitHostInfo host env ifaddrs g) = ''127.0.0.1'')
   \<and> (\<forall>ip. env ''CYBER_IP'' = Some ip \<and> take 3 ip \<noteq> ''127''
      \<longrightarrow> gd_host_ip (InitHostInfo host env ifaddrs g) = ip)"
proof -
  have "take 3 (scan_ifaddrs addrs ip) = ''127'' \<Longrightarrow> scan_ifaddrs addrs ip = ip" for addrs ip
    by (induction addrs) (auto split: ifaddr.splits option.splits if_splits)
  then show ?thesis
    by (auto simp: InitHostInfo_def Let_def split: option.splits)
qed

theorem host_ip_choice_witness:
  "gd_host_ip (InitHostInfo ''h'' [''CYBER_IP'' \<mapsto> ''10.0.0.7''] None GlobalData_static) = ''10.0.0.7''"
  using host_ip_choice [of "''h''" "[''CYBER_IP'' \<mapsto> ''10.0.0.7'']" None GlobalData_static]
  by simp

end
