(* ===== verification/Node_Manager.thy ===== *)
theory Node_Manager
  imports Discovery_Manager Global_Data
begin

text \<open>
  \<open>service_discovery/specific_manager/node_manager.{h,cc}\<close>: the manager of nodes. Two nodes with
  the same name are a configuration error; the one that joined later has to go, and its process
  shuts itself down (\<open>AsyncShutdown\<close>, recorded in \<open>nm_async_shutdown\<close>).
\<close>

record node_manager = manager +
  nm_nodes :: single_value_warehouse
  nm_async_shutdown :: bool

definition NodeManager :: "string \<Rightarrow> int \<Rightarrow> node_manager" where
  "NodeManager host pid = manager.extend
     ((Manager host pid)\<lparr>allowed_role := allowed_role (Manager host pid) OR push_bit (role_number ROLE_NODE) 1,
        mgr_change_type := CHANGE_NODE, mgr_channel_name := ''node_change_broadcast''\<rparr>)
     \<lparr>nm_nodes = SV_new, nm_async_shutdown = False\<rparr>"

definition HasNode :: "(string \<Rightarrow> u64) \<Rightarrow> node_manager \<Rightarrow> string \<Rightarrow> global_data \<Rightarrow> (bool \<times> global_data) option" where
  "HasNode hash m nm g =
     (case RegisterNode hash g nm of
        None \<Rightarrow> None
      | Some (key, g') \<Rightarrow> Some (SV_Search_key (nm_nodes m) key, g'))"

definition GetNodes :: "node_manager \<Rightarrow> role_attributes list out \<Rightarrow> role_attributes list out" where
  "GetNodes m nodes = (case nodes of None \<Rightarrow> None | Some vec \<Rightarrow> SV_GetAllRoles_attr (nm_nodes m) (Some vec))"

definition NM_Check :: "role_attributes \<Rightarrow> bool" where
  "NM_Check attr = (if node_name_opt attr = None then False else if node_id_opt attr = None then False else True)"

definition NM_DisposeJoin :: "change_msg \<Rightarrow> node_manager \<Rightarrow> node_manager" where
  "NM_DisposeJoin msg m =
     (let node = role_new RoleBase (role_attr msg) (msg_timestamp msg);
          key = node_id (attributes node);
          (added, w1) = SV_Add (nm_nodes m) key node False
      in if added then m\<lparr>nm_nodes := w1\<rparr>
         else case SV_Search_key_ptr w1 key (Some None) of
                (True, Some (Some existing_node)) \<Rightarrow>
                  let (w2, newer_node) =
                        (if IsEarlierThan node existing_node then (snd (SV_Add w1 key node True), existing_node)
                         else (w1, node));
                      m2 = m\<lparr>nm_nodes := w2\<rparr>
                  in if process_id (attributes newer_node) = mgr_process_id m
                        \<and> host_name (attributes newer_node) = mgr_host_name m
                     then m2\<lparr>nm_async_shutdown := True\<rparr> else m2
              | _ \<Rightarrow> m\<lparr>nm_nodes := snd (SV_Add w1 key node True)\<rparr>)"

definition NM_DisposeLeave :: "change_msg \<Rightarrow> node_manager \<Rightarrow> node_manager" where
  "NM_DisposeLeave msg m =
     (let node = role_new RoleBase (role_attr msg) (msg_timestamp msg)
      in m\<lparr>nm_nodes := SV_Remove_key (nm_nodes m) (node_id (attributes node))\<rparr>)"

definition NM_Dispose :: "change_msg \<Rightarrow> node_manager \<Rightarrow> node_manager" where
  "NM_Dispose msg m =
     (let m1 = (if operate_type msg = OPT_JOIN then NM_DisposeJoin msg m else NM_DisposeLeave msg m)
      in Notify msg m1)"

definition NM_OnTopoModuleLeave :: "rtps_env \<Rightarrow> string \<Rightarrow> int \<Rightarrow> node_manager \<Rightarrow> node_manager" where
  "NM_OnTopoModuleLeave env host pid m =
     (if \<not> is_discovery_started m then m
      else let attr = RoleAttributes\<lparr>host_name_opt := Some host, process_id_opt := Some pid\<rparr>;
               nodes_to_remove = the (snd (SV_Search_attr_roles (nm_nodes m) attr (Some [])));
               m1 = fold (\<lambda>node m. m\<lparr>nm_nodes := SV_Remove_key (nm_nodes m) (node_id (attributes node))\<rparr>) nodes_to_remove m
           in fold (\<lambda>node m. let (msg, m') = Convert env (attributes node) ROLE_NODE OPT_LEAVE m in Notify msg m')
                nodes_to_remove m1)"

section \<open>The node table\<close>

definition nodes_ok :: "single_value_warehouse \<Rightarrow> bool" where
  "nodes_ok w \<longleftrightarrow> sv_ok w \<and> (\<forall>(k, r) \<in># sv_entries w. k = node_id (attributes r))"

text \<open>What a change message does to the node table.\<close>

definition node_change :: "change_msg \<Rightarrow> single_value_warehouse \<Rightarrow> single_value_warehouse" where
  "node_change msg w =
     (let node = role_new RoleBase (role_attr msg) (msg_timestamp msg); key = node_id (role_attr msg)
      in if operate_type msg = OPT_JOIN
         then (case um_find (sv_roles w) key of
                 None \<Rightarrow> w\<lparr>sv_roles := um_put key node (sv_roles w)\<rparr>
               | Some old \<Rightarrow> if IsEarlierThan node old then w\<lparr>sv_roles := um_put key node (sv_roles w)\<rparr> else w)
         else SV_Remove_key w key)"

lemmas node_join_defs = NM_DisposeJoin_def SV_Add_def SV_Search_key_ptr_def role_new_def Let_def

lemma NM_DisposeJoin_table:
  "operate_type msg = OPT_JOIN \<Longrightarrow> nm_nodes (NM_DisposeJoin msg m) = node_change msg (nm_nodes m)"
  by (simp add: node_join_defs node_change_def split: option.split)

lemma NM_DisposeJoin_shape:
  "NM_DisposeJoin msg m = m\<lparr>nm_nodes := nm_nodes (NM_DisposeJoin msg m),
     nm_async_shutdown := nm_async_shutdown (NM_DisposeJoin msg m)\<rparr>"
  by (cases "um_find (sv_roles (nm_nodes m)) (node_id (role_attr msg))")
    (simp_all add: node_join_defs del: not_None_eq)

lemma mgr_ok_upd [simp]:
  "mgr_ok ((m :: node_manager)\<lparr>nm_nodes := w\<rparr>) = mgr_ok m" "mgr_ok (m\<lparr>nm_async_shutdown := b\<rparr>) = mgr_ok m"
  by (simp_all add: mgr_ok_def)

lemma NM_Join_frame [mgr_frame]:
  "mgr_ok (NM_DisposeJoin msg m) = mgr_ok m" "is_shutdown (NM_DisposeJoin msg m) = is_shutdown m"
  "is_discovery_started (NM_DisposeJoin msg m) = is_discovery_started m" "publisher (NM_DisposeJoin msg m) = publisher m"
  "mgr_host_name (NM_DisposeJoin msg m) = mgr_host_name m" "mgr_process_id (NM_DisposeJoin msg m) = mgr_process_id m"
  "published (NM_DisposeJoin msg m) = published m" "notified (NM_DisposeJoin msg m) = notified m"
  "mgr_signal (NM_DisposeJoin msg m) = mgr_signal m"
  by (subst NM_DisposeJoin_shape, simp)+

lemma NM_Leave_frame [mgr_frame]:
  "mgr_ok (NM_DisposeLeave msg m) = mgr_ok m" "is_shutdown (NM_DisposeLeave msg m) = is_shutdown m"
  "is_discovery_started (NM_DisposeLeave msg m) = is_discovery_started m" "publisher (NM_DisposeLeave msg m) = publisher m"
  "mgr_host_name (NM_DisposeLeave msg m) = mgr_host_name m" "mgr_process_id (NM_DisposeLeave msg m) = mgr_process_id m"
  "published (NM_DisposeLeave msg m) = published m" "notified (NM_DisposeLeave msg m) = notified m"
  "mgr_signal (NM_DisposeLeave msg m) = mgr_signal m"
  by (simp_all add: NM_DisposeLeave_def mgr_ok_def Let_def)

lemma nm_nodes_more: "manager.more m = manager.more m' \<Longrightarrow> nm_nodes (m :: node_manager) = nm_nodes m'"
  by (metis node_manager.surjective node_manager.ext_inject manager.surjective manager.select_convs(15)
      node_manager.select_convs(1))

lemma NM_Dispose_table: "nm_nodes (NM_Dispose msg m) = node_change msg (nm_nodes m)"
proof (cases "operate_type msg = OPT_JOIN")
  case True
  then have "nm_nodes (NM_Dispose msg m) = nm_nodes (NM_DisposeJoin msg m)"
    by (simp add: NM_Dispose_def nm_nodes_more [OF Notify_frame(10)])
  with NM_DisposeJoin_table [OF True] show ?thesis by simp
next
  case False
  then have "nm_nodes (NM_Dispose msg m) = nm_nodes (NM_DisposeLeave msg m)"
    by (simp add: NM_Dispose_def nm_nodes_more [OF Notify_frame(10)])
  with False show ?thesis by (simp add: NM_DisposeLeave_def node_change_def role_new_def Let_def)
qed

interpretation nodes: topology_element NM_Check NM_Dispose nm_nodes node_change
proof (unfold_locales, goal_cases)
  case (1 m msg)
  then show ?case by (simp add: NM_Dispose_def Let_def mgr_frame)
next
  case (8 msg m)
  show ?case by (simp add: NM_Dispose_def Let_def mgr_frame)
next
  case (9 msg m)
  show ?case by (rule NM_Dispose_table)
next
  case (10 m m')
  then show ?case by (rule nm_nodes_more)
qed (simp_all add: NM_Dispose_def NM_Check_def Let_def mgr_frame)

section \<open>Duplicated nodes\<close>

abbreviation node_of :: "change_msg \<Rightarrow> role" where
  "node_of msg \<equiv> role_new RoleBase (role_attr msg) (msg_timestamp msg)"

definition own_node :: "node_manager \<Rightarrow> change_msg \<Rightarrow> bool" where
  "own_node m msg \<longleftrightarrow> process_id (role_attr msg) = mgr_process_id m \<and> host_name (role_attr msg) = mgr_host_name m"

lemma more_flag: "manager.more m = manager.more m' \<Longrightarrow> nm_async_shutdown (m :: node_manager) = nm_async_shutdown m'"
  by (metis node_manager.surjective node_manager.ext_inject manager.surjective manager.select_convs(15)
      node_manager.select_convs(2))

lemma NM_Dispose_own [simp]: "own_node (NM_Dispose msg m) = own_node m"
  by (auto simp: own_node_def fun_eq_iff NM_Dispose_def Let_def mgr_frame)

lemma NM_Dispose_first:
  assumes "operate_type msg = OPT_JOIN" and "um_find (sv_roles (nm_nodes m)) (node_id (role_attr msg)) = None"
  shows "um_find (sv_roles (nm_nodes (NM_Dispose msg m))) (node_id (role_attr msg)) = Some (node_of msg)"
  using assms by (simp add: NM_Dispose_table node_change_def Let_def um_simps)

lemma NM_Dispose_again:
  assumes "operate_type msg = OPT_JOIN" and "um_find (sv_roles (nm_nodes m)) (node_id (role_attr msg)) = Some (node_of old)"
  shows "um_find (sv_roles (nm_nodes (NM_Dispose msg m))) (node_id (role_attr msg))
      = Some (if msg_timestamp msg < msg_timestamp old then node_of msg else node_of old)"
    "nm_async_shutdown (NM_Dispose msg m) \<longleftrightarrow>
      nm_async_shutdown m \<or> own_node m (if msg_timestamp msg < msg_timestamp old then old else msg)"
proof -
  show "um_find (sv_roles (nm_nodes (NM_Dispose msg m))) (node_id (role_attr msg))
      = Some (if msg_timestamp msg < msg_timestamp old then node_of msg else node_of old)"
    using assms by (simp add: NM_Dispose_table node_change_def Let_def um_simps IsEarlierThan_def role_new_def)
  have "nm_async_shutdown (NM_Dispose msg m) = nm_async_shutdown (NM_DisposeJoin msg m)"
    using assms(1) by (simp add: NM_Dispose_def more_flag [OF Notify_frame(10)])
  then show "nm_async_shutdown (NM_Dispose msg m) \<longleftrightarrow>
      nm_async_shutdown m \<or> own_node m (if msg_timestamp msg < msg_timestamp old then old else msg)"
    using assms by (cases "msg_timestamp msg < msg_timestamp old";
        simp add: node_join_defs own_node_def IsEarlierThan_def; blast)
qed

definition earliest_at :: "u64 \<Rightarrow> change_msg list \<Rightarrow> node_manager \<Rightarrow> bool" where
  "earliest_at key msgs m \<longleftrightarrow>
     (\<exists>w \<in> set msgs. um_find (sv_roles (nm_nodes m)) key = Some (node_of w)
        \<and> (\<forall>msg \<in> set msgs. msg_timestamp w \<le> msg_timestamp msg
             \<and> (own_node m msg \<longrightarrow> nm_async_shutdown m \<or> node_of msg = node_of w)))"

lemma earliest_at_join:
  assumes "earliest_at key msgs m" and "operate_type msg = OPT_JOIN" and "node_id (role_attr msg) = key"
  shows "earliest_at key (msg # msgs) (NM_Dispose msg m)"
proof -
  from assms(1) obtain w where w: "w \<in> set msgs" "um_find (sv_roles (nm_nodes m)) key = Some (node_of w)"
      "\<And>x. x \<in> set msgs \<Longrightarrow> msg_timestamp w \<le> msg_timestamp x"
      "\<And>x. x \<in> set msgs \<Longrightarrow> own_node m x \<Longrightarrow> nm_async_shutdown m \<or> node_of x = node_of w"
    by (auto simp: earliest_at_def)
  note again = NM_Dispose_again [OF assms(2), of m w, unfolded assms(3), OF w(2)]
  have own: "own_node m x = own_node m w" if "node_of x = node_of w" for x
    using that by (simp add: own_node_def role_new_def)
  show ?thesis
  proof (cases "msg_timestamp msg < msg_timestamp w")
    case True
    have "msg_timestamp msg \<le> msg_timestamp x" if "x \<in> set msgs" for x
      using w(3) [OF that] True by simp
    moreover have "nm_async_shutdown (NM_Dispose msg m)" if "x \<in> set msgs" "own_node m x" for x
      using again(2) True w(4) [OF that] own [of x] that(2) by auto
    ultimately show ?thesis unfolding earliest_at_def
      using again(1) True by (intro bexI [of _ msg]) auto
  next
    case False
    have "own_node m x \<longrightarrow> nm_async_shutdown (NM_Dispose msg m) \<or> node_of x = node_of w" if "x \<in> set (msg # msgs)" for x
      using again(2) False w(4) [of x] that by auto
    then show ?thesis unfolding earliest_at_def
      using again(1) False w(1,3) by (intro bexI [of _ w]) auto
  qed
qed

lemma earliest_at_joins:
  assumes "msgs \<noteq> []" and "\<forall>msg \<in> set msgs. operate_type msg = OPT_JOIN \<and> node_id (role_attr msg) = key"
    and "um_find (sv_roles (nm_nodes m)) key = None"
  shows "earliest_at key msgs (fold NM_Dispose msgs m)"
  using assms(1,2)
proof (induction msgs rule: rev_nonempty_induct)
  case (single msg)
  then show ?case using NM_Dispose_first [of msg m] assms(3) by (simp add: earliest_at_def)
next
  case (snoc msg msgs)
  then have "earliest_at key (msg # msgs) (NM_Dispose msg (fold NM_Dispose msgs m))"
    by (intro earliest_at_join) auto
  then show ?case by (simp add: earliest_at_def)
qed

section \<open>Departed processes\<close>

lemma fold_remove_nodes:
  "fold (\<lambda>node m. m\<lparr>nm_nodes := SV_Remove_key (nm_nodes m) (node_id (attributes node))\<rparr>) ns m
     = m\<lparr>nm_nodes := (nm_nodes m)\<lparr>sv_roles :=
         filter (\<lambda>e. fst e \<notin> (\<lambda>n. node_id (attributes n)) ` set ns) (sv_roles (nm_nodes m))\<rparr>\<rparr>"
  by (induction ns arbitrary: m) (auto simp: SV_Remove_key_def um_erase_filter conj_commute intro!: arg_cong)

text \<open>The nodes of a process, in the order of the table.\<close>

abbreviation nodes_of_module :: "string \<Rightarrow> int \<Rightarrow> single_value_warehouse \<Rightarrow> role list" where
  "nodes_of_module host pid w \<equiv>
     map snd (filter (\<lambda>e. host_name (attributes (snd e)) = host \<and> process_id (attributes (snd e)) = pid) (sv_roles w))"

lemma remove_module_nodes:
  assumes "nodes_ok w"
  shows "filter (\<lambda>e. fst e \<notin> (\<lambda>n. node_id (attributes n)) ` set (nodes_of_module host pid w)) (sv_roles w)
    = filter (\<lambda>e. \<not> (host_name (attributes (snd e)) = host \<and> process_id (attributes (snd e)) = pid)) (sv_roles w)"
proof (intro filter_cong refl)
  fix e assume e: "e \<in> set (sv_roles w)"
  have key: "fst x = node_id (attributes (snd x))" if "x \<in> set (sv_roles w)" for x
    using assms that by (auto simp: nodes_ok_def sv_entries_def)
  have same: "x = e" if "x \<in> set (sv_roles w)" "fst x = fst e" for x
    using assms that e by (metis nodes_ok_def sv_ok_def um_set_iff option.inject prod.collapse)
  let ?P = "\<lambda>e. host_name (attributes (snd e)) = host \<and> process_id (attributes (snd e)) = pid"
  have "fst e \<in> (\<lambda>n. node_id (attributes n)) ` set (nodes_of_module host pid w) \<longleftrightarrow> ?P e"
  proof
    assume "fst e \<in> (\<lambda>n. node_id (attributes n)) ` set (nodes_of_module host pid w)"
    then obtain x where "x \<in> set (sv_roles w)" "?P x" "fst e = node_id (attributes (snd x))" by auto
    with key same show "?P e" by metis
  next
    assume "?P e"
    with e have "snd e \<in> set (nodes_of_module host pid w)" unfolding set_map set_filter by blast
    then show "fst e \<in> (\<lambda>n. node_id (attributes n)) ` set (nodes_of_module host pid w)"
      unfolding key [OF e] by (rule imageI)
  qed
  then show "fst e \<notin> (\<lambda>n. node_id (attributes n)) ` set (nodes_of_module host pid w) \<longleftrightarrow> \<not> ?P e"
    by (rule arg_cong)
qed

section \<open>Properties\<close>

text \<open>
  C29: the earliest node wins. However many nodes of the same id join, in whatever order their
  messages arrive, the table keeps one with the smallest time stamp; and whenever one of them belongs
  to this process and is not the one kept, the process has been told to shut down.
\<close>

theorem node_earliest_wins:
  assumes "msgs \<noteq> []" and "\<forall>msg \<in> set msgs. operate_type msg = OPT_JOIN \<and> node_id (role_attr msg) = key"
    and "\<not> SV_Search_key (nm_nodes m) key" and "m' = fold NM_Dispose msgs m"
  shows "\<exists>kept \<in> set msgs. SV_Search_key_ptr (nm_nodes m') key (Some None) = (True, Some (Some (node_of kept)))
    \<and> (\<forall>msg \<in> set msgs. msg_timestamp kept \<le> msg_timestamp msg
         \<and> (process_id (role_attr msg) = mgr_process_id m \<and> host_name (role_attr msg) = mgr_host_name m
              \<and> node_of msg \<noteq> node_of kept \<longrightarrow> nm_async_shutdown m'))"
proof -
  have "um_find (sv_roles (nm_nodes m)) key = None"
    using assms(3) by (auto simp: SV_Search_key_def SV_Search_key_ptr_def split: option.splits)
  from earliest_at_joins [OF assms(1,2) this] have "earliest_at key msgs m'" by (simp add: assms(4))
  moreover have "own_node m' = own_node m"
    unfolding assms(4) by (induction msgs arbitrary: m) simp_all
  ultimately show ?thesis
    by (auto simp: earliest_at_def SV_Search_key_ptr_def own_node_def)
qed

definition node_msg :: "operate_type \<Rightarrow> string \<Rightarrow> int \<Rightarrow> u64 \<Rightarrow> change_msg" where
  "node_msg opt host pid ts =
     \<lparr>timestamp_opt = Some ts, change_type_opt = Some CHANGE_NODE, operate_type_opt = Some opt,
      role_type_opt = Some ROLE_NODE,
      role_attr_opt = Some (RoleAttributes\<lparr>host_name_opt := Some host, process_id_opt := Some pid,
        node_name_opt := Some ''talker'', node_id_opt := Some 9\<rparr>)\<rparr>"

theorem node_earliest_wins_witness:
  "\<exists>kept \<in> {node_msg OPT_JOIN ''a'' 1 20, node_msg OPT_JOIN ''b'' 2 10}.
     SV_Search_key_ptr (nm_nodes (fold NM_Dispose [node_msg OPT_JOIN ''a'' 1 20, node_msg OPT_JOIN ''b'' 2 10]
       (NodeManager ''a'' 1))) 9 (Some None) = (True, Some (Some (node_of kept)))
     \<and> msg_timestamp kept \<le> 10"
proof -
  let ?msgs = "[node_msg OPT_JOIN ''a'' 1 20, node_msg OPT_JOIN ''b'' 2 10]"
  have "\<forall>msg \<in> set ?msgs. operate_type msg = OPT_JOIN \<and> node_id (role_attr msg) = 9"
    by (simp add: node_msg_def)
  moreover have "\<not> SV_Search_key (nm_nodes (NodeManager ''a'' 1)) 9"
    by (simp add: NodeManager_def manager.defs SV_Search_key_def SV_Search_key_ptr_def SV_new_def)
  ultimately obtain kept where "kept \<in> set ?msgs"
      "SV_Search_key_ptr (nm_nodes (fold NM_Dispose ?msgs (NodeManager ''a'' 1))) 9 (Some None)
         = (True, Some (Some (node_of kept)))"
      "\<forall>msg \<in> set ?msgs. msg_timestamp kept \<le> msg_timestamp msg"
    using node_earliest_wins [of ?msgs 9 "NodeManager ''a'' 1"] by auto
  then show ?thesis by (intro bexI [of _ kept]) (auto simp: node_msg_def)
qed

lemma NM_module_leave:
  assumes "nodes_ok (nm_nodes m)" and "m' = NM_OnTopoModuleLeave env host pid m"
  shows "if is_discovery_started m
    then sv_roles (nm_nodes m') = filter (\<lambda>e. \<not> (host_name (attributes (snd e)) = host
             \<and> process_id (attributes (snd e)) = pid)) (sv_roles (nm_nodes m))
       \<and> map notice (notified m') = map notice (notified m)
             @ leave_notices ROLE_NODE (nodes_of_module host pid (nm_nodes m)) m
    else m' = m"
proof (cases "is_discovery_started m")
  case True
  let ?attr = "RoleAttributes\<lparr>host_name_opt := Some host, process_id_opt := Some pid\<rparr>"
  let ?ns = "nodes_of_module host pid (nm_nodes m)"
  define m1 where "m1 = fold (\<lambda>node m. m\<lparr>nm_nodes := SV_Remove_key (nm_nodes m) (node_id (attributes node))\<rparr>) ?ns m"
  have found: "the (snd (SV_Search_attr_roles (nm_nodes m) ?attr (Some []))) = ?ns"
    by (simp add: SV_Search_attr_roles_def scan_vec_eq Match_module o_def)
  have m': "m' = fold (send_leave env ROLE_NODE) ?ns m1"
    using True by (simp add: assms(2) NM_OnTopoModuleLeave_def Let_def found m1_def)
  have nodes: "sv_roles (nm_nodes m1) = filter (\<lambda>e. \<not> (host_name (attributes (snd e)) = host
      \<and> process_id (attributes (snd e)) = pid)) (sv_roles (nm_nodes m))"
    unfolding m1_def fold_remove_nodes remove_module_nodes [OF assms(1)] by simp
  have "notified m1 = notified m" by (simp add: m1_def fold_remove_nodes)
  moreover have "leave_notices ROLE_NODE ?ns m1 = leave_notices ROLE_NODE ?ns m"
    by (rule leave_notices_cong) (simp_all add: m1_def fold_remove_nodes)
  moreover have "nm_nodes m' = nm_nodes m1"
    unfolding m' by (rule nm_nodes_more) (simp only: fold_send_leave)
  moreover have "map notice (notified m') = map notice (notified m1) @ leave_notices ROLE_NODE ?ns m1"
    unfolding m' by (simp only: fold_send_leave)
  ultimately show ?thesis using nodes True by (simp only: if_True simp_thms)
qed (simp add: assms(2) NM_OnTopoModuleLeave_def)

text \<open>
  When a remote process disappears, exactly its nodes are removed from the node table, and every
  listener is told once per removed node; without discovery nothing happens.
\<close>

theorem node_module_leave:
  assumes "nodes_ok (nm_nodes m)" and "m' = NM_OnTopoModuleLeave env host pid m"
  shows "if is_discovery_started m
    then sv_roles (nm_nodes m') = filter (\<lambda>e. \<not> (host_name (attributes (snd e)) = host
             \<and> process_id (attributes (snd e)) = pid)) (sv_roles (nm_nodes m))
       \<and> map notice (notified m') = map notice (notified m)
             @ leave_notices ROLE_NODE (nodes_of_module host pid (nm_nodes m)) m
    else m' = m"
  using assms by (rule NM_module_leave)

theorem node_module_leave_witness:
  "sv_roles (nm_nodes (NM_OnTopoModuleLeave silent_env ''a'' 1
     ((NM_Dispose (node_msg OPT_JOIN ''a'' 1 20) (NodeManager ''b'' 2))\<lparr>is_discovery_started := True\<rparr>))) = []"
proof -
  define m where "m = (NM_Dispose (node_msg OPT_JOIN ''a'' 1 20) (NodeManager ''b'' 2))\<lparr>is_discovery_started := True\<rparr>"
  have new: "nm_nodes (NodeManager ''b'' 2) = SV_new" by (simp add: NodeManager_def manager.defs)
  have tab: "sv_roles (nm_nodes m) = [(9, node_of (node_msg OPT_JOIN ''a'' 1 20))]"
    by (simp add: m_def NM_Dispose_table new node_change_def SV_new_def node_msg_def)
  then have "nodes_ok (nm_nodes m)"
    by (simp add: nodes_ok_def sv_ok_def um_ok_def sv_entries_def node_msg_def role_new_def)
  moreover have "is_discovery_started m" by (simp add: m_def)
  ultimately have "sv_roles (nm_nodes (NM_OnTopoModuleLeave silent_env ''a'' 1 m)) = []"
    using node_module_leave [of m _ silent_env "''a''" 1, OF _ refl] tab by (simp add: node_msg_def role_new_def)
  then show ?thesis by (simp add: m_def)
qed

text \<open>
  A leaving node is removed by name only. When the loser of a name clash leaves (its process has
  been told to shut down, and leaves its nodes on the way), the table forgets the winner, which is
  still running: \<open>HasNode\<close> then denies a live node.
\<close>

theorem duplicate_leave_removes_survivor:
  defines "m1 \<equiv> fold NM_Dispose [node_msg OPT_JOIN ''a'' 1 10, node_msg OPT_JOIN ''b'' 2 20] (NodeManager ''c'' 3)"
  shows "SV_Search_key_ptr (nm_nodes m1) 9 (Some None) = (True, Some (Some (node_of (node_msg OPT_JOIN ''a'' 1 10))))
    \<and> \<not> SV_Search_key (nm_nodes (NM_Dispose (node_msg OPT_LEAVE ''b'' 2 30) m1)) 9"
  by (simp add: m1_def NM_Dispose_table NodeManager_def manager.defs SV_new_def node_change_def node_msg_def
      IsEarlierThan_def role_new_def SV_Search_key_def SV_Search_key_ptr_def SV_Remove_key_def)

end
