(* ===== verification/Topology_Graph.thy ===== *)
theory Topology_Graph
  imports Cyber_Prelude
begin

text \<open>
  The node graph of service discovery (\<open>service_discovery/container/graph.{h,cc}\<close>): vertices are
  node names, an edge value is a channel name. \<open>edges_\<close> remembers who writes and who reads each
  channel, \<open>list_\<close> is the adjacency list derived from it, and \<open>GetDirectionOf\<close> is a breadth-first
  search over \<open>list_\<close>. The theory proves the search correct and terminating, and that \<open>list_\<close> is
  exactly the relation "some channel is written by the one and read by the other", provided the
  textual edge keys do not collide.
\<close>

section \<open>Vertices, edges and the graph state\<close>

record vertice =
  v_value :: string

record edge =
  e_src :: vertice
  e_dst :: vertice
  e_value :: string

datatype flow_direction = UNREACHABLE | UPSTREAM | DOWNSTREAM

type_synonym vertice_set = "(string, vertice) umap"
type_synonym adjacency_list = "(string, vertice_set) umap"

record related_vertices =
  rv_src :: vertice_set
  rv_dst :: vertice_set

record graph =
  g_edges :: "(string, related_vertices) umap"
  g_list :: adjacency_list

definition RelatedVertices :: related_vertices where
  "RelatedVertices = \<lparr>rv_src = [], rv_dst = []\<rparr>"

definition Graph_new :: graph where
  "Graph_new = \<lparr>g_edges = [], g_list = []\<rparr>"

definition Vertice :: "string \<Rightarrow> vertice" where
  "Vertice val = \<lparr>v_value = val\<rparr>"

definition Vertice_eq :: "vertice \<Rightarrow> vertice \<Rightarrow> bool" where
  "Vertice_eq a b = (v_value a = v_value b)"

definition Vertice_IsDummy :: "vertice \<Rightarrow> bool" where
  "Vertice_IsDummy v = (v_value v = [])"

definition Vertice_GetKey :: "vertice \<Rightarrow> string" where
  "Vertice_GetKey v = v_value v"

definition Edge_eq :: "edge \<Rightarrow> edge \<Rightarrow> bool" where
  "Edge_eq a b =
     (Vertice_eq (e_src a) (e_src b) \<and> Vertice_eq (e_dst a) (e_dst b) \<and> e_value a = e_value b)"

definition Edge_IsValid :: "edge \<Rightarrow> bool" where
  "Edge_IsValid e =
     (if e_value e = [] then False
      else if Vertice_IsDummy (e_src e) \<and> Vertice_IsDummy (e_dst e) then False
      else True)"

definition Edge_GetKey :: "edge \<Rightarrow> string" where
  "Edge_GetKey e = e_value e @ ''_'' @ Vertice_GetKey (e_dst e)"

section \<open>Insertion and deletion\<close>

definition InsertCompleteEdge :: "graph \<Rightarrow> edge \<Rightarrow> graph" where
  "InsertCompleteEdge g e =
     (let src_v_k = Vertice_GetKey (e_src e);
          l1 = um_touch [] src_v_k (g_list g);
          dst_v_k = Vertice_GetKey (e_dst e);
          l2 = um_touch [] dst_v_k l1
      in g\<lparr>g_list := um_put src_v_k (um_put (Edge_GetKey e) (e_dst e) (um_at [] l2 src_v_k)) l2\<rparr>)"

definition DeleteCompleteEdge :: "graph \<Rightarrow> edge \<Rightarrow> graph" where
  "DeleteCompleteEdge g e =
     (let src_v_k = Vertice_GetKey (e_src e)
      in g\<lparr>g_list := um_put src_v_k (um_erase (Edge_GetKey e) (um_at [] (g_list g) src_v_k)) (g_list g)\<rparr>)"

definition InsertOutgoingEdge :: "graph \<Rightarrow> edge \<Rightarrow> graph" where
  "InsertOutgoingEdge g e =
     (let e_v = e_value e;
          rv = um_at RelatedVertices (g_edges g) e_v;
          src_v = e_src e;
          v_k = Vertice_GetKey src_v
      in if um_find (rv_src rv) v_k \<noteq> None then g\<lparr>g_edges := um_touch RelatedVertices e_v (g_edges g)\<rparr>
         else
           let rv' = rv\<lparr>rv_src := um_put v_k src_v (rv_src rv)\<rparr>;
               g' = g\<lparr>g_edges := um_put e_v rv' (g_edges g)\<rparr>
           in fold (\<lambda>item g. InsertCompleteEdge g \<lparr>e_src = src_v, e_dst = snd item, e_value = e_v\<rparr>)
                (rv_dst rv') g')"

definition InsertIncomingEdge :: "graph \<Rightarrow> edge \<Rightarrow> graph" where
  "InsertIncomingEdge g e =
     (let e_v = e_value e;
          rv = um_at RelatedVertices (g_edges g) e_v;
          dst_v = e_dst e;
          v_k = Vertice_GetKey dst_v
      in if um_find (rv_dst rv) v_k \<noteq> None then g\<lparr>g_edges := um_touch RelatedVertices e_v (g_edges g)\<rparr>
         else
           let rv' = rv\<lparr>rv_dst := um_put v_k dst_v (rv_dst rv)\<rparr>;
               g' = g\<lparr>g_edges := um_put e_v rv' (g_edges g)\<rparr>
           in fold (\<lambda>item g. InsertCompleteEdge g \<lparr>e_src = snd item, e_dst = dst_v, e_value = e_v\<rparr>)
                (rv_src rv') g')"

definition DeleteOutgoingEdge :: "graph \<Rightarrow> edge \<Rightarrow> graph" where
  "DeleteOutgoingEdge g e =
     (let e_v = e_value e;
          rv = um_at RelatedVertices (g_edges g) e_v;
          src_v = e_src e;
          v_k = Vertice_GetKey src_v
      in if um_find (rv_src rv) v_k = None then g\<lparr>g_edges := um_touch RelatedVertices e_v (g_edges g)\<rparr>
         else
           let rv' = rv\<lparr>rv_src := um_erase v_k (rv_src rv)\<rparr>;
               g' = g\<lparr>g_edges := um_put e_v rv' (g_edges g)\<rparr>
           in fold (\<lambda>item g. DeleteCompleteEdge g \<lparr>e_src = src_v, e_dst = snd item, e_value = e_v\<rparr>)
                (rv_dst rv') g')"

definition DeleteIncomingEdge :: "graph \<Rightarrow> edge \<Rightarrow> graph" where
  "DeleteIncomingEdge g e =
     (let e_v = e_value e;
          rv = um_at RelatedVertices (g_edges g) e_v;
          dst_v = e_dst e;
          v_k = Vertice_GetKey dst_v
      in if um_find (rv_dst rv) v_k = None then g\<lparr>g_edges := um_touch RelatedVertices e_v (g_edges g)\<rparr>
         else
           let rv' = rv\<lparr>rv_dst := um_erase v_k (rv_dst rv)\<rparr>;
               g' = g\<lparr>g_edges := um_put e_v rv' (g_edges g)\<rparr>
           in fold (\<lambda>item g. DeleteCompleteEdge g \<lparr>e_src = snd item, e_dst = dst_v, e_value = e_v\<rparr>)
                (rv_src rv') g')"

definition Graph_Insert :: "graph \<Rightarrow> edge \<Rightarrow> graph" where
  "Graph_Insert g e =
     (if \<not> Edge_IsValid e then g
      else
        let g0 = g\<lparr>g_edges := um_touch RelatedVertices (e_value e) (g_edges g)\<rparr>;
            g1 = (if \<not> Vertice_IsDummy (e_src e) then InsertOutgoingEdge g0 e else g0)
        in if \<not> Vertice_IsDummy (e_dst e) then InsertIncomingEdge g1 e else g1)"

definition Graph_Delete :: "graph \<Rightarrow> edge \<Rightarrow> graph" where
  "Graph_Delete g e =
     (if \<not> Edge_IsValid e then g
      else if um_find (g_edges g) (e_value e) = None then g
      else
        let g1 = (if \<not> Vertice_IsDummy (e_src e) then DeleteOutgoingEdge g e else g)
        in if \<not> Vertice_IsDummy (e_dst e) then DeleteIncomingEdge g1 e else g1)"

text \<open>\<open>num\<close> is a \<open>uint32_t\<close>: the sum wraps.\<close>

definition GetNumOfEdge :: "graph \<Rightarrow> u32" where
  "GetNumOfEdge g = fold (\<lambda>item num. num + of_nat (length (snd item))) (g_list g) 0"

section \<open>Breadth-first search\<close>

text \<open>
  The loop of \<open>LevelTraverse\<close>. \<open>visited[k]\<close> and \<open>list_[k]\<close> are \<open>operator[]\<close> accesses, so both
  may insert a default entry; the loop returns both containers.
\<close>

definition list_vertices :: "adjacency_list \<Rightarrow> vertice set" where
  "list_vertices lst = (\<Union>m \<in> snd ` set lst. snd ` set m)"

definition search_universe :: "adjacency_list \<Rightarrow> vertice list \<Rightarrow> string set" where
  "search_universe lst q = Vertice_GetKey ` (set q \<union> list_vertices lst)"

definition search_pending :: "adjacency_list \<Rightarrow> (string, bool) umap \<Rightarrow> vertice list \<Rightarrow> nat" where
  "search_pending lst visited q = card {k \<in> search_universe lst q. \<not> um_at False visited k}"

lemma finite_search_universe [simp]: "finite (search_universe lst q)"
  by (auto simp: search_universe_def list_vertices_def)

lemma list_vertices_touch [simp]: "list_vertices (um_touch [] k lst) = list_vertices lst"
proof (cases "um_find lst k")
  case None
  then have "AList.update k [] lst = lst @ [(k, [])]"
    by (induction lst) (auto split: if_splits)
  with None show ?thesis by (simp add: list_vertices_def um_touch_def)
qed (simp add: um_touch_def)

lemma um_at_values: "snd ` set (um_at [] lst k) \<subseteq> list_vertices lst"
proof (cases "um_find lst k")
  case (Some m)
  then have "m \<in> snd ` set lst" by (force dest: map_of_SomeD)
  with Some show ?thesis by (auto simp: um_at_def list_vertices_def)
qed (simp add: um_at_def)

lemma search_universe_tail: "search_universe lst q \<subseteq> search_universe lst (v # q)"
  by (auto simp: search_universe_def)

lemma search_universe_expand:
  "search_universe (um_touch [] k lst) (q @ map snd (um_at [] (um_touch [] k lst) k))
     \<subseteq> search_universe lst (v # q)"
  unfolding search_universe_def
  by (rule image_mono) (use um_at_values [of lst k] in \<open>auto simp: um_at_touch\<close>)

lemma search_pending_skip:
  "search_pending lst (um_touch False k visited) q \<le> search_pending lst visited (v # q)"
  unfolding search_pending_def
  by (rule card_mono) (use search_universe_tail [of lst q v] in \<open>auto simp: um_at_touch\<close>)

lemma search_pending_visit:
  assumes "\<not> um_at False visited (Vertice_GetKey v)"
  shows "search_pending (um_touch [] (Vertice_GetKey v) lst)
           (um_put (Vertice_GetKey v) True (um_touch False (Vertice_GetKey v) visited))
           (q @ map snd (um_at [] (um_touch [] (Vertice_GetKey v) lst) (Vertice_GetKey v)))
         < search_pending lst visited (v # q)"
  unfolding search_pending_def
proof (rule psubset_card_mono)
  let ?k = "Vertice_GetKey v"
  let ?new = "{x \<in> search_universe (um_touch [] ?k lst)
                     (q @ map snd (um_at [] (um_touch [] ?k lst) ?k)).
                 \<not> um_at False (um_put ?k True (um_touch False ?k visited)) x}"
  let ?old = "{x \<in> search_universe lst (v # q). \<not> um_at False visited x}"
  have "?new \<subseteq> ?old - {?k}"
    using search_universe_expand [of ?k lst q v] by (auto simp: um_simps)
  moreover have "?k \<in> ?old"
    using assms by (simp add: search_universe_def)
  ultimately show "?new \<subset> ?old" by blast
qed simp

function level_loop ::
  "vertice \<Rightarrow> adjacency_list \<Rightarrow> (string, bool) umap \<Rightarrow> vertice list
     \<Rightarrow> (string, bool) umap \<times> adjacency_list" where
  "level_loop end_v lst visited [] = (visited, lst)"
| "level_loop end_v lst visited (cur_v # unvisited) =
     (let k = Vertice_GetKey cur_v;
          visited1 = um_touch False k visited
      in if um_at False visited k then level_loop end_v lst visited1 unvisited
         else
           let visited2 = um_put k True visited1
           in if Vertice_eq cur_v end_v then (visited2, lst)
              else
                let lst1 = um_touch [] k lst
                in level_loop end_v lst1 visited2 (unvisited @ map snd (um_at [] lst1 k)))"
  by pat_completeness auto
termination
proof (relation "measures [\<lambda>(e, l, v, q). search_pending l v q, \<lambda>(e, l, v, q). length q]", goal_cases)
  case 1
  then show ?case by simp
next
  case (2 end_v lst visited cur_v unvisited k visited1)
  then show ?case
    using search_pending_skip [of lst k visited unvisited cur_v] by (auto simp: le_less)
next
  case (3 end_v lst visited cur_v unvisited k visited1 visited2 lst1)
  then show ?case
    using search_pending_visit [of visited cur_v lst unvisited] by simp
qed

definition LevelTraverse :: "graph \<Rightarrow> vertice \<Rightarrow> vertice \<Rightarrow> bool \<times> graph" where
  "LevelTraverse g start end_v =
     (let (visited, lst) = level_loop end_v (g_list g) [(Vertice_GetKey end_v, False)] [start]
      in (um_at False visited (Vertice_GetKey end_v), g\<lparr>g_list := lst\<rparr>))"

definition GetDirectionOf :: "graph \<Rightarrow> vertice \<Rightarrow> vertice \<Rightarrow> flow_direction \<times> graph" where
  "GetDirectionOf g lhs rhs =
     (if Vertice_IsDummy lhs \<or> Vertice_IsDummy rhs then (UNREACHABLE, g)
      else if um_find (g_list g) (Vertice_GetKey lhs) = None
            \<or> um_find (g_list g) (Vertice_GetKey rhs) = None then (UNREACHABLE, g)
      else
        let (up, g1) = LevelTraverse g lhs rhs
        in if up then (UPSTREAM, g1)
           else
             let (down, g2) = LevelTraverse g1 rhs lhs
             in if down then (DOWNSTREAM, g2) else (UNREACHABLE, g2))"

section \<open>The search decides reachability\<close>

definition flow :: "adjacency_list \<Rightarrow> string \<Rightarrow> string \<Rightarrow> bool" where
  "flow lst k k' \<longleftrightarrow> k' \<in> Vertice_GetKey ` snd ` set (um_at [] lst k)"

lemma flow_touch [simp]: "flow (um_touch [] k lst) = flow lst"
  by (simp add: flow_def fun_eq_iff um_at_touch)

lemma level_loop_flow: "level_loop end_v lst visited q = (vis, lst') \<Longrightarrow> flow lst' = flow lst"
  by (induction end_v lst visited q arbitrary: vis lst' rule: level_loop.induct)
    (auto simp: Let_def split: if_splits)

lemma level_loop_sound:
  assumes "level_loop end_v lst visited q = (vis, lst')"
    and "\<And>v. v \<in> set q \<Longrightarrow> (flow lst)\<^sup>*\<^sup>* s (Vertice_GetKey v)"
    and "\<And>k. um_at False visited k \<Longrightarrow> (flow lst)\<^sup>*\<^sup>* s k"
    and "um_at False vis k"
  shows "(flow lst)\<^sup>*\<^sup>* s k"
  using assms
proof (induction end_v lst visited q arbitrary: vis lst' rule: level_loop.induct)
  case (2 end_v lst visited cur_v unvisited)
  let ?k = "Vertice_GetKey cur_v"
  have reach_k: "(flow lst)\<^sup>*\<^sup>* s ?k" using "2.prems"(2) by simp
  have reach_succ: "(flow lst)\<^sup>*\<^sup>* s (Vertice_GetKey w)" if "w \<in> snd ` set (um_at [] lst ?k)" for w
    using that by (intro rtranclp.rtrancl_into_rtrancl [OF reach_k]) (simp add: flow_def)
  show ?case
  proof (cases "um_at False visited ?k")
    case True
    then show ?thesis
      using "2.IH"(1) [OF refl refl True, of vis lst'] "2.prems" by (auto simp: Let_def um_at_touch)
  next
    case fresh: False
    show ?thesis
    proof (cases "Vertice_eq cur_v end_v")
      case True
      with fresh "2.prems" reach_k show ?thesis
        by (auto simp: Let_def um_simps split: if_splits)
    next
      case False
      have "(flow (um_touch [] ?k lst))\<^sup>*\<^sup>* s k"
        by (rule "2.IH"(2) [OF refl refl fresh refl False refl, of vis lst'])
          (use "2.prems" fresh False reach_k reach_succ in
            \<open>auto simp: Let_def um_simps split: if_splits\<close>)
      then show ?thesis by simp
    qed
  qed
qed simp

definition frontier_inv :: "adjacency_list \<Rightarrow> (string, bool) umap \<Rightarrow> vertice list \<Rightarrow> bool" where
  "frontier_inv lst visited q \<longleftrightarrow>
     (\<forall>x y. um_at False visited x \<longrightarrow> flow lst x y
        \<longrightarrow> um_at False visited y \<or> y \<in> Vertice_GetKey ` set q)"

lemma frontier_inv_skip:
  "frontier_inv lst visited (v # q) \<Longrightarrow> um_at False visited (Vertice_GetKey v)
     \<Longrightarrow> frontier_inv lst (um_touch False k visited) q"
  by (auto simp: frontier_inv_def um_at_touch)

lemma frontier_inv_visit:
  assumes "frontier_inv lst visited (v # q)"
  shows "frontier_inv (um_touch [] (Vertice_GetKey v) lst)
           (um_put (Vertice_GetKey v) True (um_touch False (Vertice_GetKey v) visited))
           (q @ map snd (um_at [] (um_touch [] (Vertice_GetKey v) lst) (Vertice_GetKey v)))"
  unfolding frontier_inv_def
proof (intro allI impI)
  fix x y
  let ?k = "Vertice_GetKey v"
  assume x: "um_at False (um_put ?k True (um_touch False ?k visited)) x"
    and "flow (um_touch [] ?k lst) x y"
  then have xy: "flow lst x y" by simp
  have "um_at False visited y \<or> y = ?k \<or> y \<in> Vertice_GetKey ` set q" if "x \<noteq> ?k"
    using assms xy x that by (auto simp: frontier_inv_def um_simps)
  moreover have "y \<in> Vertice_GetKey ` snd ` set (um_at [] lst ?k)" if "x = ?k"
    using xy that by (simp add: flow_def)
  ultimately show "um_at False (um_put ?k True (um_touch False ?k visited)) y
      \<or> y \<in> Vertice_GetKey ` set (q @ map snd (um_at [] (um_touch [] ?k lst) ?k))"
    by (cases "x = ?k") (auto simp: um_simps)
qed

lemma level_loop_complete:
  assumes "level_loop end_v lst visited q = (vis, lst')"
    and "frontier_inv lst visited q"
    and "\<not> um_at False vis (Vertice_GetKey end_v)"
  shows "frontier_inv lst vis []
    \<and> (\<forall>k. um_at False visited k \<or> k \<in> Vertice_GetKey ` set q \<longrightarrow> um_at False vis k)"
  using assms
proof (induction end_v lst visited q arbitrary: vis lst' rule: level_loop.induct)
  case (2 end_v lst visited cur_v unvisited)
  let ?k = "Vertice_GetKey cur_v"
  show ?case
  proof (cases "um_at False visited ?k")
    case True
    then show ?thesis
      using "2.IH"(1) [OF refl refl True, of vis lst'] "2.prems" frontier_inv_skip
      by (auto simp: Let_def um_at_touch)
  next
    case fresh: False
    show ?thesis
    proof (cases "Vertice_eq cur_v end_v")
      case True
      with fresh "2.prems" show ?thesis
        by (auto simp: Let_def um_simps Vertice_eq_def Vertice_GetKey_def)
    next
      case False
      have "frontier_inv (um_touch [] ?k lst) vis [] \<and> (\<forall>k. um_at False (um_put ?k True (um_touch False ?k visited)) k
          \<or> k \<in> Vertice_GetKey ` set (unvisited @ map snd (um_at [] (um_touch [] ?k lst) ?k)) \<longrightarrow> um_at False vis k)"
        using "2.prems" fresh False frontier_inv_visit [of lst visited cur_v unvisited]
        by (intro "2.IH"(2) [OF refl refl fresh refl False refl, of vis lst']) (auto simp: Let_def)
      then show ?thesis
        by (auto simp: um_simps frontier_inv_def)
    qed
  qed
qed simp

lemma level_loop_result:
  assumes run: "level_loop end_v lst [(Vertice_GetKey end_v, False)] [start] = (vis, lst')"
  shows "um_at False vis (Vertice_GetKey end_v)
    \<longleftrightarrow> (flow lst)\<^sup>*\<^sup>* (Vertice_GetKey start) (Vertice_GetKey end_v)"
proof
  have start_unvisited: "\<not> um_at False [(Vertice_GetKey end_v, False)] k" for k
    by (simp add: um_at_def)
  show "(flow lst)\<^sup>*\<^sup>* (Vertice_GetKey start) (Vertice_GetKey end_v)"
    if "um_at False vis (Vertice_GetKey end_v)"
    using run _ _ that by (rule level_loop_sound) (use start_unvisited in auto)
  show "um_at False vis (Vertice_GetKey end_v)"
    if path: "(flow lst)\<^sup>*\<^sup>* (Vertice_GetKey start) (Vertice_GetKey end_v)"
  proof (rule ccontr)
    assume missed: "\<not> um_at False vis (Vertice_GetKey end_v)"
    have closed: "frontier_inv lst vis []" and started: "um_at False vis (Vertice_GetKey start)"
      using level_loop_complete [OF run _ missed] start_unvisited
      by (auto simp: frontier_inv_def)
    from path have "um_at False vis (Vertice_GetKey end_v)"
      by (induction rule: rtranclp_induct) (use started closed in \<open>auto simp: frontier_inv_def\<close>)
    with missed show False by simp
  qed
qed

text \<open>
  No default entry is ever created when every listed vertex has its own adjacency entry: the
  search then leaves the adjacency list as it found it.
\<close>

definition list_closed :: "adjacency_list \<Rightarrow> bool" where
  "list_closed lst \<longleftrightarrow> (\<forall>v \<in> list_vertices lst. Vertice_GetKey v \<in> um_keys lst)"

lemma level_loop_pure:
  assumes "list_closed lst" and "\<forall>v \<in> set q. Vertice_GetKey v \<in> um_keys lst"
  shows "snd (level_loop end_v lst visited q) = lst"
  using assms
proof (induction end_v lst visited q rule: level_loop.induct)
  case (2 end_v lst visited cur_v unvisited)
  let ?k = "Vertice_GetKey cur_v"
  have succ: "\<forall>v \<in> snd ` set (um_at [] lst ?k). Vertice_GetKey v \<in> um_keys lst"
    using um_at_values [of lst ?k] "2.prems"(1) by (auto simp: list_closed_def)
  have cur: "um_touch [] ?k lst = lst"
    using "2.prems"(2) by (intro um_touch_present) simp
  show ?case
  proof (cases "um_at False visited ?k \<or> Vertice_eq cur_v end_v")
    case True
    with 2 show ?thesis by (auto simp: Let_def)
  next
    case False
    then show ?thesis
      using "2.IH"(2) [OF refl refl _ refl _ refl] "2.prems" succ by (simp add: Let_def cur ball_Un)
  qed
qed simp

lemma LevelTraverse_iff:
  "fst (LevelTraverse g start end_v)
     \<longleftrightarrow> (flow (g_list g))\<^sup>*\<^sup>* (Vertice_GetKey start) (Vertice_GetKey end_v)"
  using level_loop_result [of end_v "g_list g" start]
  by (auto simp: LevelTraverse_def split: prod.split)

lemma LevelTraverse_flow: "flow (g_list (snd (LevelTraverse g start end_v))) = flow (g_list g)"
  by (simp add: LevelTraverse_def split_beta level_loop_flow [OF prod.collapse [symmetric]]
      del: level_loop.simps)

lemma LevelTraverse_pure:
  assumes "list_closed (g_list g)" and "Vertice_GetKey start \<in> um_keys (g_list g)"
  shows "snd (LevelTraverse g start end_v) = g"
  using level_loop_pure [OF assms(1), of "[start]" end_v] assms(2)
  by (simp add: LevelTraverse_def split_beta)

section \<open>The adjacency list is the join of writers and readers\<close>

text \<open>The abstract topology: who writes and who reads each channel.\<close>

definition writers_of :: "graph \<Rightarrow> string \<Rightarrow> string set" where
  "writers_of g ch = um_keys (rv_src (um_at RelatedVertices (g_edges g) ch))"

definition readers_of :: "graph \<Rightarrow> string \<Rightarrow> string set" where
  "readers_of g ch = um_keys (rv_dst (um_at RelatedVertices (g_edges g) ch))"

definition edge_at :: "graph \<Rightarrow> string \<Rightarrow> string \<Rightarrow> vertice option" where
  "edge_at g s ek = um_find (um_at [] (g_list g) s) ek"

definition edge_key :: "string \<Rightarrow> string \<Rightarrow> string" where
  "edge_key ch d = ch @ ''_'' @ d"

definition keyed :: "vertice_set \<Rightarrow> bool" where
  "keyed m \<longleftrightarrow> um_ok m \<and> (\<forall>k v. um_find m k = Some v \<longrightarrow> v = Vertice k)"

definition edges_ok :: "graph \<Rightarrow> bool" where
  "edges_ok g \<longleftrightarrow> um_ok (g_edges g) \<and>
     (\<forall>ch. keyed (rv_src (um_at RelatedVertices (g_edges g) ch))
         \<and> keyed (rv_dst (um_at RelatedVertices (g_edges g) ch)))"

definition list_ok :: "graph \<Rightarrow> bool" where
  "list_ok g \<longleftrightarrow> um_ok (g_list g) \<and> (\<forall>s. um_ok (um_at [] (g_list g) s)) \<and>
     (\<forall>s ek v. edge_at g s ek = Some v \<longrightarrow> Vertice_GetKey v \<in> um_keys (g_list g))"

definition joined :: "graph \<Rightarrow> bool" where
  "joined g \<longleftrightarrow> (\<forall>s ek v. edge_at g s ek = Some v \<longleftrightarrow>
     (\<exists>ch. s \<in> writers_of g ch \<and> Vertice_GetKey v \<in> readers_of g ch
        \<and> ek = edge_key ch (Vertice_GetKey v)))"

definition graph_inv :: "(string \<times> string) set \<Rightarrow> graph \<Rightarrow> bool" where
  "graph_inv P g \<longleftrightarrow> edges_ok g \<and> list_ok g \<and> joined g
     \<and> (\<forall>ch. \<forall>d \<in> readers_of g ch. (ch, d) \<in> P)"

definition keys_unambiguous :: "(string \<times> string) set \<Rightarrow> bool" where
  "keys_unambiguous P \<longleftrightarrow> inj_on (\<lambda>(ch, d). edge_key ch d) P"

lemma Vertice_key [simp]: "Vertice_GetKey (Vertice k) = k" "Vertice (Vertice_GetKey v) = v"
  by (simp_all add: Vertice_def Vertice_GetKey_def)

lemma vertice_eq_key: "v = w \<longleftrightarrow> Vertice_GetKey v = Vertice_GetKey w"
  by (metis Vertice_key(2))

lemma edge_key_inject [simp]: "edge_key ch d = edge_key ch d' \<longleftrightarrow> d = d'"
  by (simp add: edge_key_def)

lemma Edge_GetKey_eq: "Edge_GetKey e = edge_key (e_value e) (Vertice_GetKey (e_dst e))"
  by (simp add: Edge_GetKey_def edge_key_def)

lemma keyed_Nil [simp]: "keyed []"
  by (simp add: keyed_def)

lemma keyed_put: "keyed m \<Longrightarrow> keyed (um_put (Vertice_GetKey v) v m)"
  by (auto simp: keyed_def um_simps)

lemma keyed_erase: "keyed m \<Longrightarrow> keyed (um_erase k m)"
  by (auto simp: keyed_def um_simps)

lemma keyed_item: "keyed m \<Longrightarrow> item \<in> set m \<Longrightarrow> snd item = Vertice (fst item)"
  by (cases item) (auto simp: keyed_def um_set_iff)

lemma keyed_snd: "keyed m \<Longrightarrow> snd ` set m = Vertice ` um_keys m"
  by (force simp: keyed_item image_iff)

subsection \<open>Single edges\<close>

lemma edge_at_insert:
  "edge_at (InsertCompleteEdge g e) s ek =
     (if s = Vertice_GetKey (e_src e) \<and> ek = Edge_GetKey e then Some (e_dst e) else edge_at g s ek)"
  by (simp add: edge_at_def InsertCompleteEdge_def Let_def um_simps)

lemma edge_at_delete:
  "edge_at (DeleteCompleteEdge g e) s ek =
     (if s = Vertice_GetKey (e_src e) \<and> ek = Edge_GetKey e then None else edge_at g s ek)"
  by (simp add: edge_at_def DeleteCompleteEdge_def Let_def um_simps)

lemma g_edges_complete [simp]:
  "g_edges (InsertCompleteEdge g e) = g_edges g" "g_edges (DeleteCompleteEdge g e) = g_edges g"
  by (simp_all add: InsertCompleteEdge_def DeleteCompleteEdge_def Let_def)

lemma list_ok_insert: "list_ok g \<Longrightarrow> list_ok (InsertCompleteEdge g e)"
  unfolding list_ok_def
  by (auto simp: edge_at_insert split: if_splits) (auto simp: InsertCompleteEdge_def Let_def um_simps)

lemma list_ok_delete: "list_ok g \<Longrightarrow> list_ok (DeleteCompleteEdge g e)"
  unfolding list_ok_def
  by (auto simp: edge_at_delete split: if_splits) (auto simp: DeleteCompleteEdge_def Let_def um_simps)

subsection \<open>The loops over related vertices\<close>

definition loop_hits :: "('i \<Rightarrow> edge) \<Rightarrow> 'i list \<Rightarrow> string \<Rightarrow> string \<Rightarrow> bool" where
  "loop_hits mk items s ek \<longleftrightarrow>
     (\<exists>it \<in> set items. s = Vertice_GetKey (e_src (mk it)) \<and> ek = Edge_GetKey (mk it))"

lemma fold_insert_frame:
  "g_edges (fold (\<lambda>it g. InsertCompleteEdge g (mk it)) items g) = g_edges g"
  "list_ok g \<Longrightarrow> list_ok (fold (\<lambda>it g. InsertCompleteEdge g (mk it)) items g)"
  by (induction items arbitrary: g) (simp_all add: list_ok_insert)

lemma fold_delete_frame:
  "g_edges (fold (\<lambda>it g. DeleteCompleteEdge g (mk it)) items g) = g_edges g"
  "list_ok g \<Longrightarrow> list_ok (fold (\<lambda>it g. DeleteCompleteEdge g (mk it)) items g)"
  by (induction items arbitrary: g) (simp_all add: list_ok_delete)

lemma edge_at_fold_insert:
  assumes "\<forall>it. e_value (mk it) = ch"
  shows "edge_at (fold (\<lambda>it g. InsertCompleteEdge g (mk it)) items g) s ek = Some v \<longleftrightarrow>
     (if loop_hits mk items s ek then ek = edge_key ch (Vertice_GetKey v) else edge_at g s ek = Some v)"
proof (induction items arbitrary: g)
  case (Cons it items)
  then show ?case
    using assms
    by (auto simp: loop_hits_def edge_at_insert Edge_GetKey_eq vertice_eq_key split: if_splits)
qed (simp add: loop_hits_def)

lemma edge_at_fold_delete:
  "edge_at (fold (\<lambda>it g. DeleteCompleteEdge g (mk it)) items g) s ek =
     (if loop_hits mk items s ek then None else edge_at g s ek)"
  by (induction items arbitrary: g) (auto simp: loop_hits_def edge_at_delete)

lemma loop_hits_out:
  "keyed m \<Longrightarrow> loop_hits (\<lambda>it. \<lparr>e_src = v, e_dst = snd it, e_value = ch\<rparr>) m s ek
     \<longleftrightarrow> s = Vertice_GetKey v \<and> (\<exists>d \<in> um_keys m. ek = edge_key ch d)"
  by (force simp: loop_hits_def Edge_GetKey_eq keyed_item)

lemma loop_hits_in:
  "keyed m \<Longrightarrow> loop_hits (\<lambda>it. \<lparr>e_src = snd it, e_dst = v, e_value = ch\<rparr>) m s ek
     \<longleftrightarrow> s \<in> um_keys m \<and> ek = edge_key ch (Vertice_GetKey v)"
  by (force simp: loop_hits_def Edge_GetKey_eq keyed_item)

lemmas fold_frames = fold_insert_frame fold_delete_frame

subsection \<open>Each half-edge operation, seen on the abstract topology\<close>

lemma edges_frame:
  assumes "g_edges g' = g_edges g"
  shows "writers_of g' = writers_of g" "readers_of g' = readers_of g" "edges_ok g' = edges_ok g"
  using assms by (simp_all add: writers_of_def readers_of_def edges_ok_def fun_eq_iff)

lemma edges_touch [simp]:
  "writers_of (g\<lparr>g_edges := um_touch RelatedVertices ch (g_edges g)\<rparr>) = writers_of g"
  "readers_of (g\<lparr>g_edges := um_touch RelatedVertices ch (g_edges g)\<rparr>) = readers_of g"
  "edges_ok g \<Longrightarrow> edges_ok (g\<lparr>g_edges := um_touch RelatedVertices ch (g_edges g)\<rparr>)"
  "edge_at (g\<lparr>g_edges := es\<rparr>) = edge_at g"
  "list_ok (g\<lparr>g_edges := es\<rparr>) = list_ok g"
  by (simp_all add: writers_of_def readers_of_def edges_ok_def edge_at_def list_ok_def fun_eq_iff
      um_at_touch)

lemma graph_inv_touch:
  "graph_inv P g \<Longrightarrow> graph_inv P (g\<lparr>g_edges := um_touch RelatedVertices ch (g_edges g)\<rparr>)"
  by (simp add: graph_inv_def joined_def)

lemma writers_find: "um_find (rv_src (um_at RelatedVertices (g_edges g) ch)) k = None
    \<longleftrightarrow> k \<notin> writers_of g ch"
  by (simp add: writers_of_def map_of_eq_None_iff)

lemma readers_find: "um_find (rv_dst (um_at RelatedVertices (g_edges g) ch)) k = None
    \<longleftrightarrow> k \<notin> readers_of g ch"
  by (simp add: readers_of_def map_of_eq_None_iff)

lemma related_found:
  "um_find (rv_src (um_at RelatedVertices (g_edges g) ch)) k = Some v \<Longrightarrow> k \<in> writers_of g ch"
  "um_find (rv_dst (um_at RelatedVertices (g_edges g) ch)) k = Some v \<Longrightarrow> k \<in> readers_of g ch"
  by (simp_all add: writers_of_def readers_of_def um_keys_find)

lemma edges_put:
  "writers_of (g\<lparr>g_edges := um_put ch (um_at RelatedVertices (g_edges g) ch\<lparr>rv_src := m\<rparr>) (g_edges g)\<rparr>)
     = (writers_of g)(ch := um_keys m)"
  "readers_of (g\<lparr>g_edges := um_put ch (um_at RelatedVertices (g_edges g) ch\<lparr>rv_src := m\<rparr>) (g_edges g)\<rparr>)
     = readers_of g"
  "writers_of (g\<lparr>g_edges := um_put ch (um_at RelatedVertices (g_edges g) ch\<lparr>rv_dst := m\<rparr>) (g_edges g)\<rparr>)
     = writers_of g"
  "readers_of (g\<lparr>g_edges := um_put ch (um_at RelatedVertices (g_edges g) ch\<lparr>rv_dst := m\<rparr>) (g_edges g)\<rparr>)
     = (readers_of g)(ch := um_keys m)"
  by (simp_all add: writers_of_def readers_of_def fun_eq_iff um_at_put)

lemma edges_ok_put:
  "edges_ok g \<Longrightarrow> keyed m \<Longrightarrow>
     edges_ok (g\<lparr>g_edges := um_put ch (um_at RelatedVertices (g_edges g) ch\<lparr>rv_src := m\<rparr>) (g_edges g)\<rparr>)"
  "edges_ok g \<Longrightarrow> keyed m \<Longrightarrow>
     edges_ok (g\<lparr>g_edges := um_put ch (um_at RelatedVertices (g_edges g) ch\<lparr>rv_dst := m\<rparr>) (g_edges g)\<rparr>)"
  by (simp_all add: edges_ok_def um_at_put)

lemmas half_edge_defs =
  InsertOutgoingEdge_def InsertIncomingEdge_def DeleteOutgoingEdge_def DeleteIncomingEdge_def
  Let_def writers_find readers_find
lemmas fold_edges = fold_frames edges_frame [OF fold_insert_frame(1)] edges_frame [OF fold_delete_frame(1)]

lemma out_edges:
  "writers_of (InsertOutgoingEdge g e) =
     (writers_of g)(e_value e := insert (Vertice_GetKey (e_src e)) (writers_of g (e_value e)))"
  "readers_of (InsertOutgoingEdge g e) = readers_of g"
  "writers_of (DeleteOutgoingEdge g e) =
     (writers_of g)(e_value e := writers_of g (e_value e) - {Vertice_GetKey (e_src e)})"
  "readers_of (DeleteOutgoingEdge g e) = readers_of g"
  by (auto simp: half_edge_defs fold_edges edges_put insert_absorb fun_eq_iff
      writers_of_def [symmetric] dest: related_found)

lemma in_edges:
  "writers_of (InsertIncomingEdge g e) = writers_of g"
  "readers_of (InsertIncomingEdge g e) =
     (readers_of g)(e_value e := insert (Vertice_GetKey (e_dst e)) (readers_of g (e_value e)))"
  "writers_of (DeleteIncomingEdge g e) = writers_of g"
  "readers_of (DeleteIncomingEdge g e) =
     (readers_of g)(e_value e := readers_of g (e_value e) - {Vertice_GetKey (e_dst e)})"
  by (auto simp: half_edge_defs fold_edges edges_put insert_absorb fun_eq_iff
      readers_of_def [symmetric] dest: related_found)

lemma half_edges_ok:
  assumes "edges_ok g"
  shows "edges_ok (InsertOutgoingEdge g e)" "edges_ok (InsertIncomingEdge g e)"
    "edges_ok (DeleteOutgoingEdge g e)" "edges_ok (DeleteIncomingEdge g e)"
  using assms
  by (auto simp: half_edge_defs fold_edges intro!: edges_ok_put keyed_put keyed_erase)
    (simp_all add: edges_ok_def)

lemma half_list_ok:
  assumes "list_ok g"
  shows "list_ok (InsertOutgoingEdge g e)" "list_ok (InsertIncomingEdge g e)"
    "list_ok (DeleteOutgoingEdge g e)" "list_ok (DeleteIncomingEdge g e)"
  using assms by (auto simp: half_edge_defs fold_frames)

lemma edges_okD:
  "edges_ok g \<Longrightarrow> keyed (rv_src (um_at RelatedVertices (g_edges g) ch))"
  "edges_ok g \<Longrightarrow> keyed (rv_dst (um_at RelatedVertices (g_edges g) ch))"
  by (simp_all add: edges_ok_def)

lemmas half_edge_facts = half_edge_defs edge_at_fold_delete edge_at_fold_insert loop_hits_out loop_hits_in
  edges_okD writers_of_def [symmetric] readers_of_def [symmetric]

lemma edge_at_insert_out:
  "edges_ok g \<Longrightarrow> edge_at (InsertOutgoingEdge g e) s ek = Some v \<longleftrightarrow>
     (if Vertice_GetKey (e_src e) \<notin> writers_of g (e_value e) \<and> s = Vertice_GetKey (e_src e)
         \<and> (\<exists>d \<in> readers_of g (e_value e). ek = edge_key (e_value e) d)
      then ek = edge_key (e_value e) (Vertice_GetKey v) else edge_at g s ek = Some v)"
  by (auto simp: half_edge_facts edge_at_fold_insert [where ch = "e_value e"] simp del: not_None_eq)

lemma edge_at_insert_in:
  "edges_ok g \<Longrightarrow> edge_at (InsertIncomingEdge g e) s ek = Some v \<longleftrightarrow>
     (if Vertice_GetKey (e_dst e) \<notin> readers_of g (e_value e) \<and> s \<in> writers_of g (e_value e)
         \<and> ek = edge_key (e_value e) (Vertice_GetKey (e_dst e))
      then ek = edge_key (e_value e) (Vertice_GetKey v) else edge_at g s ek = Some v)"
  by (auto simp: half_edge_facts edge_at_fold_insert [where ch = "e_value e"] simp del: not_None_eq)

lemma edge_at_delete_out:
  "edges_ok g \<Longrightarrow> edge_at (DeleteOutgoingEdge g e) s ek =
     (if Vertice_GetKey (e_src e) \<in> writers_of g (e_value e) \<and> s = Vertice_GetKey (e_src e)
         \<and> (\<exists>d \<in> readers_of g (e_value e). ek = edge_key (e_value e) d)
      then None else edge_at g s ek)"
  by (auto simp: half_edge_facts)

lemma edge_at_delete_in:
  "edges_ok g \<Longrightarrow> edge_at (DeleteIncomingEdge g e) s ek =
     (if Vertice_GetKey (e_dst e) \<in> readers_of g (e_value e) \<and> s \<in> writers_of g (e_value e)
         \<and> ek = edge_key (e_value e) (Vertice_GetKey (e_dst e))
      then None else edge_at g s ek)"
  by (auto simp: half_edge_facts)

lemma keys_unambiguousD:
  "keys_unambiguous P \<Longrightarrow> (ch, d) \<in> P \<Longrightarrow> (ch', d') \<in> P \<Longrightarrow> edge_key ch d = edge_key ch' d'
     \<Longrightarrow> ch = ch' \<and> d = d'"
  by (auto simp: keys_unambiguous_def inj_on_def)

text \<open>The set-level content of the four operations.\<close>

definition join_edge :: "(string \<Rightarrow> string set) \<Rightarrow> (string \<Rightarrow> string set) \<Rightarrow> string \<Rightarrow> string \<Rightarrow> string \<Rightarrow> bool"
  where "join_edge W R s ek d \<longleftrightarrow> (\<exists>ch. s \<in> W ch \<and> d \<in> R ch \<and> ek = edge_key ch d)"

lemma joined_iff:
  "joined g \<longleftrightarrow> (\<forall>s ek v. edge_at g s ek = Some v \<longleftrightarrow>
     join_edge (writers_of g) (readers_of g) s ek (Vertice_GetKey v))"
  by (simp add: joined_def join_edge_def)

definition join_other :: "string \<Rightarrow> (string \<Rightarrow> string set) \<Rightarrow> (string \<Rightarrow> string set) \<Rightarrow> string \<Rightarrow> string \<Rightarrow> string \<Rightarrow> bool"
  where "join_other c W R s ek d \<longleftrightarrow> (\<exists>ch. ch \<noteq> c \<and> s \<in> W ch \<and> d \<in> R ch \<and> ek = edge_key ch d)"

lemma join_edge_split:
  "join_edge W R s ek d \<longleftrightarrow> (s \<in> W c \<and> d \<in> R c \<and> ek = edge_key c d) \<or> join_other c W R s ek d"
  by (auto simp: join_edge_def join_other_def)

lemma join_other_upd [simp]:
  "join_other c (W(c := A)) R s ek d = join_other c W R s ek d"
  "join_other c W (R(c := A)) s ek d = join_other c W R s ek d"
  by (auto simp: join_other_def)

lemma join_other_clash:
  assumes "keys_unambiguous P" "\<And>ch d. d \<in> R ch \<Longrightarrow> (ch, d) \<in> P" "(c, d') \<in> P"
  shows "\<not> join_other c W R s (edge_key c d') d"
  using keys_unambiguousD [OF assms(1) assms(2) assms(3)] by (auto simp: join_other_def dest: sym)

lemma join_edge_add_writer:
  assumes "keys_unambiguous P" "\<And>ch d. d \<in> R ch \<Longrightarrow> (ch, d) \<in> P"
  shows "join_edge (W(c := insert w (W c))) R s ek d \<longleftrightarrow>
    (if w \<notin> W c \<and> s = w \<and> (\<exists>d' \<in> R c. ek = edge_key c d') then ek = edge_key c d
     else join_edge W R s ek d)"
  using join_other_clash [OF assms assms(2), where c = c and W = W and s = s and d = d]
  by (auto simp: join_edge_split [where c = c])

lemma join_edge_add_reader:
  assumes "keys_unambiguous P" "\<And>ch d. d \<in> R ch \<Longrightarrow> (ch, d) \<in> P" "(c, r) \<in> P"
  shows "join_edge W (R(c := insert r (R c))) s ek d \<longleftrightarrow>
    (if r \<notin> R c \<and> s \<in> W c \<and> ek = edge_key c r then ek = edge_key c d else join_edge W R s ek d)"
  using join_other_clash [OF assms, where W = W and s = s and d = d]
  by (auto simp: join_edge_split [where c = c])

lemma join_edge_del_writer:
  assumes "keys_unambiguous P" "\<And>ch d. d \<in> R ch \<Longrightarrow> (ch, d) \<in> P"
  shows "join_edge (W(c := W c - {w})) R s ek d \<longleftrightarrow>
    \<not> (w \<in> W c \<and> s = w \<and> (\<exists>d' \<in> R c. ek = edge_key c d')) \<and> join_edge W R s ek d"
  using join_other_clash [OF assms assms(2), where c = c and W = W and s = s and d = d]
  by (auto simp: join_edge_split [where c = c])

lemma join_edge_del_reader:
  assumes "keys_unambiguous P" "\<And>ch d. d \<in> R ch \<Longrightarrow> (ch, d) \<in> P"
  shows "join_edge W (R(c := R c - {r})) s ek d \<longleftrightarrow>
    \<not> (r \<in> R c \<and> s \<in> W c \<and> ek = edge_key c r) \<and> join_edge W R s ek d"
  using join_other_clash [OF assms assms(2), where c = c and d' = r and W = W and s = s and d = d]
  by (auto simp: join_edge_split [where c = c])

subsection \<open>The invariant is kept\<close>

lemma graph_invD:
  assumes "graph_inv P g"
  shows "edges_ok g" "list_ok g" "\<And>ch d. d \<in> readers_of g ch \<Longrightarrow> (ch, d) \<in> P"
    "\<And>s ek v. edge_at g s ek = Some v \<longleftrightarrow>
       join_edge (writers_of g) (readers_of g) s ek (Vertice_GetKey v)"
  using assms by (auto simp: graph_inv_def joined_iff)

lemma graph_inv_half:
  assumes "keys_unambiguous P" and inv: "graph_inv P g"
  shows "graph_inv P (InsertOutgoingEdge g e)"
    and "(e_value e, Vertice_GetKey (e_dst e)) \<in> P \<Longrightarrow> graph_inv P (InsertIncomingEdge g e)"
    and "graph_inv P (DeleteOutgoingEdge g e)"
    and "graph_inv P (DeleteIncomingEdge g e)"
proof -
  note D = graph_invD [OF inv]
  note J = join_edge_add_writer [OF assms(1) D(3)] join_edge_add_reader [OF assms(1) D(3)]
    join_edge_del_writer [OF assms(1) D(3)] join_edge_del_reader [OF assms(1) D(3)]
  note E = edge_at_insert_out [OF D(1)] edge_at_insert_in [OF D(1)]
    edge_at_delete_out [OF D(1)] edge_at_delete_in [OF D(1)]
  note frames = out_edges in_edges half_edges_ok [OF D(1)] half_list_ok [OF D(2)]
  show "graph_inv P (InsertOutgoingEdge g e)"
    by (simp add: graph_inv_def joined_iff frames E J D(4)) (use D(3) in blast)
  show "graph_inv P (InsertIncomingEdge g e)" if "(e_value e, Vertice_GetKey (e_dst e)) \<in> P"
    using that by (simp add: graph_inv_def joined_iff frames E J D(4)) (use D(3) in blast)
  show "graph_inv P (DeleteOutgoingEdge g e)"
    by (simp add: graph_inv_def joined_iff frames E J D(4)) (use D(3) in blast)
  show "graph_inv P (DeleteIncomingEdge g e)"
    by (simp add: graph_inv_def joined_iff frames E J D(4)) (use D(3) in blast)
qed

section \<open>The abstract topology and the refinement\<close>

record topology =
  t_writers :: "string \<Rightarrow> string set"
  t_readers :: "string \<Rightarrow> string set"

datatype graph_op = GInsert edge | GDelete edge

definition topo_empty :: topology where
  "topo_empty = \<lparr>t_writers = (\<lambda>_. {}), t_readers = (\<lambda>_. {})\<rparr>"

fun topo_step :: "graph_op \<Rightarrow> topology \<Rightarrow> topology" where
  "topo_step (GInsert e) t =
     (if \<not> Edge_IsValid e then t
      else t\<lparr>t_writers := (if Vertice_IsDummy (e_src e) then t_writers t
               else (t_writers t)(e_value e := insert (v_value (e_src e)) (t_writers t (e_value e)))),
             t_readers := (if Vertice_IsDummy (e_dst e) then t_readers t
               else (t_readers t)(e_value e := insert (v_value (e_dst e)) (t_readers t (e_value e))))\<rparr>)"
| "topo_step (GDelete e) t =
     (if \<not> Edge_IsValid e then t
      else t\<lparr>t_writers := (if Vertice_IsDummy (e_src e) then t_writers t
               else (t_writers t)(e_value e := t_writers t (e_value e) - {v_value (e_src e)})),
             t_readers := (if Vertice_IsDummy (e_dst e) then t_readers t
               else (t_readers t)(e_value e := t_readers t (e_value e) - {v_value (e_dst e)}))\<rparr>)"

fun graph_step :: "graph_op \<Rightarrow> graph \<Rightarrow> graph" where
  "graph_step (GInsert e) g = Graph_Insert g e"
| "graph_step (GDelete e) g = Graph_Delete g e"

definition graph_run :: "graph_op list \<Rightarrow> graph" where
  "graph_run ops = fold graph_step ops Graph_new"

definition topo_run :: "graph_op list \<Rightarrow> topology" where
  "topo_run ops = fold topo_step ops topo_empty"

definition topo_flow :: "topology \<Rightarrow> string \<Rightarrow> string \<Rightarrow> bool" where
  "topo_flow t s d \<longleftrightarrow> (\<exists>ch. s \<in> t_writers t ch \<and> d \<in> t_readers t ch)"

definition topo_direction :: "topology \<Rightarrow> string \<Rightarrow> string \<Rightarrow> flow_direction" where
  "topo_direction t l r =
     (if (topo_flow t)\<^sup>*\<^sup>* l r then UPSTREAM
      else if (topo_flow t)\<^sup>*\<^sup>* r l then DOWNSTREAM else UNREACHABLE)"

fun reader_keys :: "graph_op list \<Rightarrow> (string \<times> string) set" where
  "reader_keys [] = {}"
| "reader_keys (GInsert e # ops) = insert (e_value e, v_value (e_dst e)) (reader_keys ops)"
| "reader_keys (GDelete e # ops) = reader_keys ops"

definition abs_graph :: "graph \<Rightarrow> topology" where
  "abs_graph g = \<lparr>t_writers = writers_of g, t_readers = readers_of g\<rparr>"

lemma abs_graph_insert: "abs_graph (Graph_Insert g e) = topo_step (GInsert e) (abs_graph g)"
  by (simp add: abs_graph_def Graph_Insert_def Let_def out_edges in_edges Vertice_GetKey_def)

lemma abs_graph_delete: "abs_graph (Graph_Delete g e) = topo_step (GDelete e) (abs_graph g)"
proof (cases "um_find (g_edges g) (e_value e)")
  case None
  then have "writers_of g (e_value e) = {}" "readers_of g (e_value e) = {}"
    by (simp_all add: writers_of_def readers_of_def um_at_def RelatedVertices_def)
  with None show ?thesis
    by (auto simp: abs_graph_def Graph_Delete_def fun_upd_idem)
next
  case (Some rv)
  then show ?thesis
    by (simp add: abs_graph_def Graph_Delete_def Let_def out_edges in_edges Vertice_GetKey_def)
qed

lemma abs_graph_run: "abs_graph (fold graph_step ops g) = fold topo_step ops (abs_graph g)"
proof (induction ops arbitrary: g)
  case (Cons op ops)
  then show ?case by (cases op) (simp_all add: abs_graph_insert abs_graph_delete)
qed simp

lemma abs_graph_new: "abs_graph Graph_new = topo_empty"
  by (simp add: abs_graph_def Graph_new_def topo_empty_def writers_of_def readers_of_def um_at_def
      RelatedVertices_def fun_eq_iff)

lemma graph_inv_new: "graph_inv P Graph_new"
  by (auto simp: graph_inv_def Graph_new_def edges_ok_def list_ok_def joined_def edge_at_def um_at_def
      writers_of_def readers_of_def RelatedVertices_def)

lemma graph_inv_step:
  assumes "keys_unambiguous P" "graph_inv P g" "reader_keys [op] \<subseteq> P"
  shows "graph_inv P (graph_step op g)"
  using assms
  by (cases op)
    (auto simp: Graph_Insert_def Graph_Delete_def Let_def Vertice_GetKey_def
      intro!: graph_inv_half graph_inv_touch)

lemma graph_inv_run:
  assumes "keys_unambiguous P" "graph_inv P g" "reader_keys ops \<subseteq> P"
  shows "graph_inv P (fold graph_step ops g)"
  using assms(2,3)
proof (induction ops arbitrary: g)
  case (Cons op ops)
  have "graph_inv P (graph_step op g)"
    using Cons.prems by (intro graph_inv_step assms(1)) (cases op, auto)+
  with Cons show ?case by (cases op) auto
qed simp

lemma list_ok_step: "list_ok g \<Longrightarrow> list_ok (graph_step op g)"
  by (cases op) (simp_all add: Graph_Insert_def Graph_Delete_def Let_def half_list_ok)

lemma list_ok_run: "list_ok g \<Longrightarrow> list_ok (fold graph_step ops g)"
  by (induction ops arbitrary: g) (simp_all add: list_ok_step)

lemma list_ok_closed:
  assumes "list_ok g"
  shows "list_closed (g_list g)"
  unfolding list_closed_def
proof
  fix v assume "v \<in> list_vertices (g_list g)"
  then obtain s m where s: "(s, m) \<in> set (g_list g)" and v: "v \<in> snd ` set m"
    unfolding list_vertices_def by fastforce
  have m: "m = um_at [] (g_list g) s"
    using s assms by (simp add: list_ok_def um_set_iff um_at_def)
  then obtain ek where "edge_at g s ek = Some v"
    using v assms by (auto simp: list_ok_def edge_at_def um_values_iff)
  with assms show "Vertice_GetKey v \<in> um_keys (g_list g)" by (auto simp: list_ok_def)
qed

lemma flow_edge_at:
  assumes "list_ok g"
  shows "flow (g_list g) s d \<longleftrightarrow> (\<exists>ek. edge_at g s ek = Some (Vertice d))"
proof -
  have "um_ok (um_at [] (g_list g) s)" using assms by (simp add: list_ok_def)
  then have "v \<in> snd ` set (um_at [] (g_list g) s) \<longleftrightarrow> (\<exists>ek. edge_at g s ek = Some v)" for v
    by (simp add: um_values_iff edge_at_def)
  moreover have "flow (g_list g) s d \<longleftrightarrow> Vertice d \<in> snd ` set (um_at [] (g_list g) s)"
    unfolding flow_def image_iff [of d] by (metis Vertice_key)
  ultimately show ?thesis by simp
qed

lemma flow_is_topo_flow:
  assumes "graph_inv P g"
  shows "flow (g_list g) = topo_flow (abs_graph g)"
  using graph_invD [OF assms]
  by (auto simp: fun_eq_iff flow_edge_at topo_flow_def abs_graph_def join_edge_def)

lemma flow_in_list:
  assumes "list_ok g" "(flow (g_list g))\<^sup>*\<^sup>* a b" "a \<noteq> b"
  shows "um_find (g_list g) a \<noteq> None" "um_find (g_list g) b \<noteq> None"
proof -
  have edge: "um_find (g_list g) s \<noteq> None \<and> um_find (g_list g) d \<noteq> None" if "flow (g_list g) s d" for s d
    using that assms(1)
    by (fastforce simp: flow_edge_at list_ok_def edge_at_def um_at_def um_keys_find split: option.splits)
  from assms(2,3) obtain c where "flow (g_list g) a c" by (metis converse_rtranclpE)
  then show "um_find (g_list g) a \<noteq> None" using edge by blast
  from assms(2,3) obtain c' where "flow (g_list g) c' b" by (metis rtranclp.cases)
  then show "um_find (g_list g) b \<noteq> None" using edge by blast
qed

lemma GetDirectionOf_flow:
  assumes "list_ok g" "\<not> Vertice_IsDummy l" "\<not> Vertice_IsDummy r" "v_value l \<noteq> v_value r"
  shows "fst (GetDirectionOf g l r) =
    (if (flow (g_list g))\<^sup>*\<^sup>* (v_value l) (v_value r) then UPSTREAM
     else if (flow (g_list g))\<^sup>*\<^sup>* (v_value r) (v_value l) then DOWNSTREAM else UNREACHABLE)"
  using assms flow_in_list [OF assms(1), of "v_value l" "v_value r"]
    flow_in_list [OF assms(1), of "v_value r" "v_value l"]
  by (auto simp: GetDirectionOf_def split_beta Let_def LevelTraverse_iff LevelTraverse_flow Vertice_GetKey_def)

lemma GetDirectionOf_frame: "list_ok g \<Longrightarrow> snd (GetDirectionOf g l r) = g"
  using list_ok_closed [of g]
  by (auto simp: GetDirectionOf_def split_beta Let_def LevelTraverse_pure um_keys_find)

lemma abs_graph_list_ok_new: "list_ok Graph_new"
  using graph_inv_new by (simp add: graph_inv_def)

section \<open>Counting edges\<close>

lemma um_length: "um_ok m \<Longrightarrow> length m = card (um_keys m)"
  by (metis distinct_card length_map list.set_map um_ok_def)

lemma GetNumOfEdge_sum: "GetNumOfEdge g = of_nat (\<Sum>it \<leftarrow> g_list g. length (snd it))"
proof -
  have "fold (\<lambda>it num. num + of_nat (length (snd it))) xs n = n + (of_nat (\<Sum>it \<leftarrow> xs. length (snd it)) :: u32)"
    for xs :: adjacency_list and n
    by (induction xs arbitrary: n) simp_all
  then show ?thesis by (simp add: GetNumOfEdge_def)
qed

lemma list_edge_count:
  assumes "list_ok g"
  shows "(\<Sum>it \<leftarrow> g_list g. length (snd it)) = card {(s, ek). edge_at g s ek \<noteq> None}"
proof -
  let ?l = "g_list g"
  have okl: "um_ok ?l" and oks: "um_ok (um_at [] ?l s)" for s
    using assms by (simp_all add: list_ok_def)
  have at: "um_at [] ?l (fst it) = snd it" if "it \<in> set ?l" for it
    using um_set_iff [OF okl, of "fst it" "snd it"] that by (simp add: um_at_def)
  have "length (snd it) = card (um_keys (um_at [] ?l (fst it)))" if "it \<in> set ?l" for it
    using um_length [OF oks [of "fst it"]] at [OF that] by simp
  then have "(\<Sum>it \<leftarrow> ?l. length (snd it)) = (\<Sum>it \<leftarrow> ?l. card (um_keys (um_at [] ?l (fst it))))"
    by (simp cong: map_cong)
  also have "\<dots> = (\<Sum>s \<in> um_keys ?l. card (um_keys (um_at [] ?l s)))"
    using okl sum_list_distinct_conv_sum_set [of "map fst ?l" "\<lambda>s. card (um_keys (um_at [] ?l s))"]
    by (simp add: um_ok_def o_def)
  also have "\<dots> = card (SIGMA s:um_keys ?l. um_keys (um_at [] ?l s))"
    by (simp add: card_SigmaI)
  also have "(SIGMA s:um_keys ?l. um_keys (um_at [] ?l s)) = {(s, ek). edge_at g s ek \<noteq> None}"
    by (auto simp: set_eq_iff edge_at_def um_keys_find um_at_def simp del: image_iff split: option.splits)
  finally show ?thesis .
qed

definition topo_edges :: "topology \<Rightarrow> (string \<times> string \<times> string) set" where
  "topo_edges t = {(s, ch, d). s \<in> t_writers t ch \<and> d \<in> t_readers t ch}"

lemma graph_edges_bij:
  assumes "keys_unambiguous P" "graph_inv P g"
  shows "card {(s, ek). edge_at g s ek \<noteq> None} = card (topo_edges (abs_graph g))"
proof -
  let ?f = "\<lambda>(s, ch, d). (s, edge_key ch d)"
  have "inj_on ?f (topo_edges (abs_graph g))"
    using keys_unambiguousD [OF assms(1)] graph_invD(3) [OF assms(2)]
    by (clarsimp simp: inj_on_def topo_edges_def abs_graph_def) blast
  moreover have "{(s, ek). edge_at g s ek \<noteq> None} = ?f ` topo_edges (abs_graph g)"
  proof (rule set_eqI, clarify)
    fix s ek
    have "edge_at g s ek \<noteq> None \<longleftrightarrow> (\<exists>d. edge_at g s ek = Some (Vertice d))"
      by (metis Vertice_key(2) not_None_eq)
    also have "\<dots> \<longleftrightarrow> (s, ek) \<in> ?f ` topo_edges (abs_graph g)"
      by (auto simp: graph_invD(4) [OF assms(2)] join_edge_def topo_edges_def abs_graph_def image_iff)
    finally show "(s, ek) \<in> {(s, ek). edge_at g s ek \<noteq> None} \<longleftrightarrow> (s, ek) \<in> ?f ` topo_edges (abs_graph g)"
      by simp
  qed
  ultimately show ?thesis by (simp add: card_image)
qed

lemma GetDirectionOf_run:
  assumes "keys_unambiguous (reader_keys ops)" and "l \<noteq> []" and "r \<noteq> []" and "l \<noteq> r"
  shows "fst (GetDirectionOf (graph_run ops) (Vertice l) (Vertice r)) = topo_direction (topo_run ops) l r"
proof -
  have inv: "graph_inv (reader_keys ops) (graph_run ops)"
    unfolding graph_run_def using assms(1) graph_inv_new by (rule graph_inv_run) simp
  have abs: "abs_graph (graph_run ops) = topo_run ops"
    by (simp add: graph_run_def topo_run_def abs_graph_run abs_graph_new)
  show ?thesis
    using GetDirectionOf_flow [of "graph_run ops" "Vertice l" "Vertice r"] assms(2-4) inv
    by (simp add: topo_direction_def flow_is_topo_flow [OF inv] abs graph_invD(2) [OF inv]
        Vertice_IsDummy_def Vertice_def)
qed

lemma abs_graph_of_run: "abs_graph (graph_run ops) = topo_run ops"
  by (simp add: graph_run_def topo_run_def abs_graph_run abs_graph_new)

section \<open>Properties\<close>

text \<open>
  Running any sequence of \<open>Insert\<close> and \<open>Delete\<close> calls on the graph and looking at its
  \<open>edges_\<close> table is the same as running them on the abstract topology, where a channel simply has
  a set of writers and a set of readers.
\<close>

theorem graph_refines_topology: "abs_graph (graph_run ops) = topo_run ops"
  by (simp add: graph_run_def topo_run_def abs_graph_run abs_graph_new)

text \<open>
  C1: after any sequence of insertions and deletions whose textual edge keys
  \<open>channel + "_" + reader\<close> do not collide, \<open>GetDirectionOf\<close> answers exactly the reachability
  question on the abstract topology: \<open>UPSTREAM\<close> when data can flow from \<open>l\<close> to \<open>r\<close> through
  channels, otherwise \<open>DOWNSTREAM\<close> when it can flow from \<open>r\<close> to \<open>l\<close>, otherwise \<open>UNREACHABLE\<close>.
\<close>

theorem graph_direction_correct:
  assumes "keys_unambiguous (reader_keys ops)" and "l \<noteq> []" and "r \<noteq> []" and "l \<noteq> r"
  shows "fst (GetDirectionOf (graph_run ops) (Vertice l) (Vertice r)) = topo_direction (topo_run ops) l r"
  using assms by (rule GetDirectionOf_run)

definition demo_ops :: "graph_op list" where
  "demo_ops =
    [GInsert \<lparr>e_src = Vertice ''A'', e_dst = Vertice ''B'', e_value = ''x''\<rparr>,
     GInsert \<lparr>e_src = Vertice ''B'', e_dst = Vertice ''C'', e_value = ''y''\<rparr>,
     GInsert \<lparr>e_src = Vertice ''D'', e_dst = Vertice [], e_value = ''y''\<rparr>]"

theorem graph_direction_correct_witness:
  "fst (GetDirectionOf (graph_run demo_ops) (Vertice ''C'') (Vertice ''A''))
     = topo_direction (topo_run demo_ops) ''C'' ''A''"
proof (rule graph_direction_correct)
  show "keys_unambiguous (reader_keys demo_ops)"
    by (simp add: demo_ops_def keys_unambiguous_def edge_key_def Vertice_def)
qed simp_all

text \<open>
  A query never changes the graph. \<open>GetDirectionOf\<close> holds only the read lock, while it indexes
  \<open>list_\<close> with the inserting \<open>operator[]\<close>; in every graph built by \<open>Insert\<close> and \<open>Delete\<close> all
  looked-up keys are present, so no entry is created.
\<close>

theorem graph_query_pure: "snd (GetDirectionOf (graph_run ops) l r) = graph_run ops"
  unfolding graph_run_def by (intro GetDirectionOf_frame list_ok_run abs_graph_list_ok_new)

text \<open>
  \<open>GetNumOfEdge\<close> is the number of (writer, channel, reader) triples of the topology, modulo
  the width of its \<open>uint32_t\<close> accumulator, provided the edge keys do not collide.
\<close>

theorem graph_edge_count:
  assumes "keys_unambiguous (reader_keys ops)"
  shows "GetNumOfEdge (graph_run ops) = of_nat (card (topo_edges (topo_run ops)))"
proof -
  have inv: "graph_inv (reader_keys ops) (graph_run ops)"
    unfolding graph_run_def using assms graph_inv_new by (rule graph_inv_run) simp
  have abs: "abs_graph (graph_run ops) = topo_run ops"
    by (simp add: graph_run_def topo_run_def abs_graph_run abs_graph_new)
  show ?thesis
    by (simp add: GetNumOfEdge_sum list_edge_count [OF graph_invD(2) [OF inv]]
        graph_edges_bij [OF assms inv] abs del: not_None_eq)
qed

theorem graph_edge_count_witness:
  "GetNumOfEdge (graph_run demo_ops) = of_nat (card (topo_edges (topo_run demo_ops)))"
  by (rule graph_edge_count) (simp add: demo_ops_def keys_unambiguous_def edge_key_def Vertice_def)

definition collision_ops :: "graph_op list" where
  "collision_ops =
    [GInsert \<lparr>e_src = Vertice ''w'', e_dst = Vertice ''b_c'', e_value = ''a''\<rparr>,
     GInsert \<lparr>e_src = Vertice ''w'', e_dst = Vertice ''c'', e_value = ''a_b''\<rparr>]"

text \<open>
  Without the hypothesis on edge keys the adjacency list loses edges: channel \<open>a\<close> read by node
  \<open>b_c\<close> and channel \<open>a_b\<close> read by node \<open>c\<close> share the key \<open>a_b_c\<close>.
\<close>

lemma graph_key_collision:
  "fst (GetDirectionOf (graph_run collision_ops) (Vertice ''w'') (Vertice ''b_c'')) = UNREACHABLE
   \<and> topo_direction (topo_run collision_ops) ''w'' ''b_c'' = UPSTREAM"
proof
  show "fst (GetDirectionOf (graph_run collision_ops) (Vertice ''w'') (Vertice ''b_c'')) = UNREACHABLE"
    by code_simp
  have "topo_flow (topo_run collision_ops) ''w'' ''b_c''"
    by (auto simp: topo_flow_def topo_run_def collision_ops_def topo_empty_def Edge_IsValid_def
        Vertice_IsDummy_def Vertice_def intro!: exI [of _ "''a''"])
  then show "topo_direction (topo_run collision_ops) ''w'' ''b_c'' = UPSTREAM"
    by (simp add: topo_direction_def)
qed

end
