(* ===== verification/Channel_Manager.thy ===== *)
theory Channel_Manager
  imports Discovery_Manager Topology_Graph Global_Data "HOL-Library.Monad_Syntax"
begin

text \<open>
  \<open>service_discovery/specific_manager/channel_manager.{h,cc}\<close>: the manager of writers and readers.
  It keeps every writer (and every reader) twice, by node and by channel, and the flow graph of the
  nodes. \<open>cm_protos\<close> lists the descriptors handed to \<open>ProtobufFactory::RegisterMessage\<close> and
  \<open>cm_type_errors\<close> the mismatches \<open>ScanMessageType\<close> reports. A query registers the names it is
  given in the global registry; \<open>None\<close> is a registration that does not return.
\<close>

record channel_manager = manager +
  cm_exempted :: "string list"
  cm_node_graph :: graph
  cm_node_writers :: multi_value_warehouse
  cm_node_readers :: multi_value_warehouse
  cm_channel_writers :: multi_value_warehouse
  cm_channel_readers :: multi_value_warehouse
  cm_protos :: "string list"
  cm_type_errors :: "(change_msg \<times> role_attributes) list"

definition ChannelManager :: "string \<Rightarrow> int \<Rightarrow> channel_manager" where
  "ChannelManager host pid = manager.extend
     ((Manager host pid)\<lparr>allowed_role := (allowed_role (Manager host pid) OR push_bit (role_number ROLE_WRITER) 1)
          OR push_bit (role_number ROLE_READER) 1,
        mgr_change_type := CHANGE_CHANNEL, mgr_channel_name := ''channel_change_broadcast''\<rparr>)
     \<lparr>cm_exempted = [''apollo.cyber.message.RawMessage'', ''apollo.cyber.message.PyMessage''],
      cm_node_graph = Graph_new, cm_node_writers = MV_new, cm_node_readers = MV_new,
      cm_channel_writers = MV_new, cm_channel_readers = MV_new, cm_protos = [], cm_type_errors = []\<rparr>"

section \<open>Queries\<close>

text \<open>The order in which an \<open>unordered_set\<close> is walked is that of the first insertions.\<close>

definition GetChannelNames :: "channel_manager \<Rightarrow> string list out \<Rightarrow> string list out" where
  "GetChannelNames m channels =
     (case channels of
        None \<Rightarrow> None
      | Some vec \<Rightarrow>
          let roles = MV_GetAllRoles (cm_channel_readers m) (MV_GetAllRoles (cm_channel_writers m) (Some []));
              local_channels = remdups (map (\<lambda>r. channel_name (attributes r)) (the roles))
          in Some (vec @ local_channels))"

definition GetProtoDesc :: "(string \<Rightarrow> u64) \<Rightarrow> channel_manager \<Rightarrow> string \<Rightarrow> string out \<Rightarrow> global_data
    \<Rightarrow> (string out \<times> global_data) option" where
  "GetProtoDesc hash m channel desc g =
     (case desc of
        None \<Rightarrow> Some (None, g)
      | Some old \<Rightarrow> do {
          (key, g') \<leftarrow> RegisterChannel hash g channel;
          case MV_Search_key_ptr (cm_channel_writers m) key (Some None) of
            (True, Some (Some writer)) \<Rightarrow>
              (case proto_desc_opt (attributes writer) of
                 Some d \<Rightarrow> Some (Some d, g')
               | None \<Rightarrow> Some (Some old, g'))
          | _ \<Rightarrow> Some (Some old, g') })"

definition GetMsgType :: "(string \<Rightarrow> u64) \<Rightarrow> channel_manager \<Rightarrow> string \<Rightarrow> string out \<Rightarrow> global_data
    \<Rightarrow> (string out \<times> global_data) option" where
  "GetMsgType hash m channel msg_type g =
     (case msg_type of
        None \<Rightarrow> Some (None, g)
      | Some old \<Rightarrow> do {
          (key, g') \<leftarrow> RegisterChannel hash g channel;
          case MV_Search_key_ptr (cm_channel_writers m) key (Some None) of
            (True, Some (Some writer)) \<Rightarrow>
              (case message_type_opt (attributes writer) of
                 Some t \<Rightarrow> Some (Some t, g')
               | None \<Rightarrow> Some (Some old, g'))
          | _ \<Rightarrow> Some (Some old, g') })"

definition HasWriter :: "(string \<Rightarrow> u64) \<Rightarrow> channel_manager \<Rightarrow> string \<Rightarrow> global_data \<Rightarrow> (bool \<times> global_data) option" where
  "HasWriter hash m channel g = do {
     (key, g') \<leftarrow> RegisterChannel hash g channel;
     Some (MV_Search_key (cm_channel_writers m) key, g') }"

definition HasReader :: "(string \<Rightarrow> u64) \<Rightarrow> channel_manager \<Rightarrow> string \<Rightarrow> global_data \<Rightarrow> (bool \<times> global_data) option" where
  "HasReader hash m channel g = do {
     (key, g') \<leftarrow> RegisterChannel hash g channel;
     Some (MV_Search_key (cm_channel_readers m) key, g') }"

definition GetWriters :: "channel_manager \<Rightarrow> role_attributes list out \<Rightarrow> role_attributes list out" where
  "GetWriters m writers = (case writers of None \<Rightarrow> None | Some vec \<Rightarrow> MV_GetAllRoles_attr (cm_channel_writers m) (Some vec))"

definition GetReaders :: "channel_manager \<Rightarrow> role_attributes list out \<Rightarrow> role_attributes list out" where
  "GetReaders m readers = (case readers of None \<Rightarrow> None | Some vec \<Rightarrow> MV_GetAllRoles_attr (cm_channel_readers m) (Some vec))"

text \<open>The four indexed queries differ in the registry and the container they look into.\<close>

definition query_roles :: "(u64 \<times> global_data) option \<Rightarrow> multi_value_warehouse \<Rightarrow> role_attributes list out \<Rightarrow> global_data
    \<Rightarrow> (role_attributes list out \<times> global_data) option" where
  "query_roles reg w out g =
     (case out of
        None \<Rightarrow> Some (None, g)
      | Some vec \<Rightarrow> do { (key, g') \<leftarrow> reg; Some (snd (MV_Search_key_attrs w key (Some vec)), g') })"

definition GetWritersOfNode :: "(string \<Rightarrow> u64) \<Rightarrow> channel_manager \<Rightarrow> string \<Rightarrow> role_attributes list out \<Rightarrow> global_data
    \<Rightarrow> (role_attributes list out \<times> global_data) option" where
  "GetWritersOfNode hash m node writers g = query_roles (RegisterNode hash g node) (cm_node_writers m) writers g"

definition GetWritersOfChannel :: "(string \<Rightarrow> u64) \<Rightarrow> channel_manager \<Rightarrow> string \<Rightarrow> role_attributes list out \<Rightarrow> global_data
    \<Rightarrow> (role_attributes list out \<times> global_data) option" where
  "GetWritersOfChannel hash m channel writers g =
     query_roles (RegisterChannel hash g channel) (cm_channel_writers m) writers g"

definition GetReadersOfNode :: "(string \<Rightarrow> u64) \<Rightarrow> channel_manager \<Rightarrow> string \<Rightarrow> role_attributes list out \<Rightarrow> global_data
    \<Rightarrow> (role_attributes list out \<times> global_data) option" where
  "GetReadersOfNode hash m node readers g = query_roles (RegisterNode hash g node) (cm_node_readers m) readers g"

definition GetReadersOfChannel :: "(string \<Rightarrow> u64) \<Rightarrow> channel_manager \<Rightarrow> string \<Rightarrow> role_attributes list out \<Rightarrow> global_data
    \<Rightarrow> (role_attributes list out \<times> global_data) option" where
  "GetReadersOfChannel hash m channel readers g =
     query_roles (RegisterChannel hash g channel) (cm_channel_readers m) readers g"

fun of_channels :: "(string \<Rightarrow> role_attributes list out \<Rightarrow> global_data \<Rightarrow> (role_attributes list out \<times> global_data) option)
    \<Rightarrow> string list \<Rightarrow> role_attributes list out \<Rightarrow> global_data \<Rightarrow> (role_attributes list out \<times> global_data) option" where
  "of_channels get [] out g = Some (out, g)"
| "of_channels get (channel # channels) out g = do { (out', g') \<leftarrow> get channel out g; of_channels get channels out' g' }"

definition node_attr :: "role_attributes \<Rightarrow> role_attributes" where
  "node_attr a = RoleAttributes\<lparr>host_name_opt := Some (host_name a), process_id_opt := Some (process_id a),
     node_name_opt := Some (node_name a), node_id_opt := Some (node_id a)\<rparr>"

definition nodes_of_roles :: "role_attributes list \<Rightarrow> (string, role_attributes) umap" where
  "nodes_of_roles rs = fold (\<lambda>a nodes. um_put (node_name (node_attr a)) (node_attr a) nodes) rs []"

definition GetUpstreamOfNode :: "(string \<Rightarrow> u64) \<Rightarrow> channel_manager \<Rightarrow> string \<Rightarrow> role_attributes list out \<Rightarrow> global_data
    \<Rightarrow> (role_attributes list out \<times> global_data) option" where
  "GetUpstreamOfNode hash m node upstream_nodes g =
     (case upstream_nodes of
        None \<Rightarrow> Some (None, g)
      | Some vec \<Rightarrow> do {
          (readers, g1) \<leftarrow> GetReadersOfNode hash m node (Some []) g;
          if the readers = [] then Some (Some vec, g1)
          else do {
            let channels = remdups (map (\<lambda>a. channel_name a) (the readers));
            (writers, g2) \<leftarrow> of_channels (GetWritersOfChannel hash m) channels (Some []) g1;
            Some (Some (vec @ map snd (nodes_of_roles (the writers))), g2) } })"

definition GetDownstreamOfNode :: "(string \<Rightarrow> u64) \<Rightarrow> channel_manager \<Rightarrow> string \<Rightarrow> role_attributes list out \<Rightarrow> global_data
    \<Rightarrow> (role_attributes list out \<times> global_data) option" where
  "GetDownstreamOfNode hash m node downstream_nodes g =
     (case downstream_nodes of
        None \<Rightarrow> Some (None, g)
      | Some vec \<Rightarrow> do {
          (writers, g1) \<leftarrow> GetWritersOfNode hash m node (Some []) g;
          if the writers = [] then Some (Some vec, g1)
          else do {
            let channels = remdups (map (\<lambda>a. channel_name a) (the writers));
            (readers, g2) \<leftarrow> of_channels (GetReadersOfChannel hash m) channels (Some []) g1;
            Some (Some (vec @ map snd (nodes_of_roles (the readers))), g2) } })"

definition GetFlowDirection :: "channel_manager \<Rightarrow> string \<Rightarrow> string \<Rightarrow> flow_direction \<times> channel_manager" where
  "GetFlowDirection m lhs_node_name rhs_node_name =
     (let (d, gr) = GetDirectionOf (cm_node_graph m) (Vertice lhs_node_name) (Vertice rhs_node_name)
      in (d, m\<lparr>cm_node_graph := gr\<rparr>))"

definition IsMessageTypeMatching :: "channel_manager \<Rightarrow> string \<Rightarrow> string \<Rightarrow> bool" where
  "IsMessageTypeMatching m lhs rhs =
     (if lhs = rhs then True
      else if lhs \<in> set (cm_exempted m) then True
      else if rhs \<in> set (cm_exempted m) then True
      else False)"

section \<open>Changes\<close>

definition CM_Check :: "role_attributes \<Rightarrow> bool" where
  "CM_Check attr =
     (if channel_name_opt attr = None then False
      else if channel_id_opt attr = None then False
      else if id_opt attr = None then False
      else True)"

definition ScanMessageType :: "change_msg \<Rightarrow> channel_manager \<Rightarrow> channel_manager" where
  "ScanMessageType msg m =
     (let key = channel_id (role_attr msg);
          mismatched = filter (\<lambda>a. \<not> IsMessageTypeMatching m (message_type (role_attr msg)) (message_type a));
          existed_writers = the (snd (MV_Search_key_attrs (cm_channel_writers m) key (Some [])));
          existed_readers = the (snd (MV_Search_key_attrs (cm_channel_readers m) key (Some [])))
      in m\<lparr>cm_type_errors := cm_type_errors m @ map (Pair msg) (mismatched existed_writers)
             @ map (Pair msg) (mismatched existed_readers)\<rparr>)"

definition CM_DisposeJoin :: "change_msg \<Rightarrow> channel_manager \<Rightarrow> channel_manager" where
  "CM_DisposeJoin msg m0 =
     (let m = ScanMessageType msg m0;
          v = Vertice (node_name (role_attr msg));
          e = \<lparr>e_src = Vertice [], e_dst = Vertice [], e_value = channel_name (role_attr msg)\<rparr>;
          r = role_new RoleWriter (role_attr msg) (msg_timestamp msg)
      in if role_type msg = ROLE_WRITER
         then let m1 = (case proto_desc_opt (role_attr msg) of
                          Some desc \<Rightarrow> if desc \<noteq> [] then m\<lparr>cm_protos := cm_protos m @ [desc]\<rparr> else m
                        | None \<Rightarrow> m)
              in m1\<lparr>cm_node_writers := snd (MV_Add (cm_node_writers m1) (node_id (attributes r)) r True),
                    cm_channel_writers := snd (MV_Add (cm_channel_writers m1) (channel_id (attributes r)) r True),
                    cm_node_graph := Graph_Insert (cm_node_graph m1) (e\<lparr>e_src := v\<rparr>)\<rparr>
         else m\<lparr>cm_node_readers := snd (MV_Add (cm_node_readers m) (node_id (attributes r)) r True),
                cm_channel_readers := snd (MV_Add (cm_channel_readers m) (channel_id (attributes r)) r True),
                cm_node_graph := Graph_Insert (cm_node_graph m) (e\<lparr>e_dst := v\<rparr>)\<rparr>)"

definition CM_DisposeLeave :: "change_msg \<Rightarrow> channel_manager \<Rightarrow> channel_manager" where
  "CM_DisposeLeave msg m =
     (let v = Vertice (node_name (role_attr msg));
          e = \<lparr>e_src = Vertice [], e_dst = Vertice [], e_value = channel_name (role_attr msg)\<rparr>;
          r = role_new RoleWriter (role_attr msg) 0
      in if role_type msg = ROLE_WRITER
         then m\<lparr>cm_node_writers := MV_Remove_role (cm_node_writers m) (node_id (attributes r)) r,
                cm_channel_writers := MV_Remove_role (cm_channel_writers m) (channel_id (attributes r)) r,
                cm_node_graph := Graph_Delete (cm_node_graph m) (e\<lparr>e_src := v\<rparr>)\<rparr>
         else m\<lparr>cm_node_readers := MV_Remove_role (cm_node_readers m) (node_id (attributes r)) r,
                cm_channel_readers := MV_Remove_role (cm_channel_readers m) (channel_id (attributes r)) r,
                cm_node_graph := Graph_Delete (cm_node_graph m) (e\<lparr>e_dst := v\<rparr>)\<rparr>)"

definition CM_Dispose :: "change_msg \<Rightarrow> channel_manager \<Rightarrow> channel_manager" where
  "CM_Dispose msg m =
     (let m1 = (if operate_type msg = OPT_JOIN then CM_DisposeJoin msg m else CM_DisposeLeave msg m)
      in Notify msg m1)"

definition CM_leave_role :: "rtps_env \<Rightarrow> role_type \<Rightarrow> role \<Rightarrow> channel_manager \<Rightarrow> channel_manager" where
  "CM_leave_role env rt r m =
     (let (msg, m1) = Convert env (attributes r) rt OPT_LEAVE m
      in Notify msg (CM_DisposeLeave msg m1))"

definition CM_OnTopoModuleLeave :: "rtps_env \<Rightarrow> string \<Rightarrow> int \<Rightarrow> channel_manager \<Rightarrow> channel_manager" where
  "CM_OnTopoModuleLeave env host pid m =
     (if \<not> is_discovery_started m then m
      else let attr = RoleAttributes\<lparr>host_name_opt := Some host, process_id_opt := Some pid\<rparr>;
               writers_to_remove = the (snd (MV_Search_attr_roles (cm_channel_writers m) attr (Some [])));
               readers_to_remove = the (snd (MV_Search_attr_roles (cm_channel_readers m) attr (Some [])))
           in fold (CM_leave_role env ROLE_READER) readers_to_remove
                (fold (CM_leave_role env ROLE_WRITER) writers_to_remove m))"

section \<open>The tables a message changes\<close>

record channel_tables =
  ct_graph :: graph
  ct_node_writers :: "(u64 \<times> role) list"
  ct_node_readers :: "(u64 \<times> role) list"
  ct_channel_writers :: "(u64 \<times> role) list"
  ct_channel_readers :: "(u64 \<times> role) list"

definition cm_tables :: "channel_manager \<Rightarrow> channel_tables" where
  "cm_tables m = \<lparr>ct_graph = cm_node_graph m,
     ct_node_writers = mv_roles (cm_node_writers m), ct_node_readers = mv_roles (cm_node_readers m),
     ct_channel_writers = mv_roles (cm_channel_writers m), ct_channel_readers = mv_roles (cm_channel_readers m)\<rparr>"

definition graph_op_of :: "change_msg \<Rightarrow> graph_op" where
  "graph_op_of msg =
     (let v = Vertice (node_name (role_attr msg));
          e = (if role_type msg = ROLE_WRITER
               then \<lparr>e_src = v, e_dst = Vertice [], e_value = channel_name (role_attr msg)\<rparr>
               else \<lparr>e_src = Vertice [], e_dst = v, e_value = channel_name (role_attr msg)\<rparr>)
      in if operate_type msg = OPT_JOIN then GInsert e else GDelete e)"

definition index_change :: "change_msg \<Rightarrow> u64 \<Rightarrow> (u64 \<times> role) list \<Rightarrow> (u64 \<times> role) list" where
  "index_change msg key items =
     (if operate_type msg = OPT_JOIN
      then items @ [(key, role_new RoleWriter (role_attr msg) (msg_timestamp msg))]
      else filter (\<lambda>item. \<not> (fst item = key \<and> Match (snd item) (role_attr msg))) items)"

definition channel_change :: "change_msg \<Rightarrow> channel_tables \<Rightarrow> channel_tables" where
  "channel_change msg t =
     (let nid = node_id (role_attr msg); cid = channel_id (role_attr msg);
          t1 = (if role_type msg = ROLE_WRITER
                then t\<lparr>ct_node_writers := index_change msg nid (ct_node_writers t),
                       ct_channel_writers := index_change msg cid (ct_channel_writers t)\<rparr>
                else t\<lparr>ct_node_readers := index_change msg nid (ct_node_readers t),
                       ct_channel_readers := index_change msg cid (ct_channel_readers t)\<rparr>)
      in t1\<lparr>ct_graph := graph_step (graph_op_of msg) (ct_graph t1)\<rparr>)"

lemma cm_more: "manager.more m = manager.more m' \<Longrightarrow> cm_tables (m :: channel_manager) = cm_tables m'"
  by (cases m; cases m') (simp add: cm_tables_def)

lemma ScanMessageType_shape: "ScanMessageType msg m = m\<lparr>cm_type_errors := cm_type_errors (ScanMessageType msg m)\<rparr>"
  by (simp add: ScanMessageType_def Let_def)

lemma cm_tables_scan [simp]:
  "cm_tables (m\<lparr>cm_type_errors := x\<rparr>) = cm_tables m" "cm_tables (m\<lparr>cm_protos := y\<rparr>) = cm_tables m"
  by (simp_all add: cm_tables_def)

lemma CM_DisposeJoin_tables:
  assumes "operate_type msg = OPT_JOIN"
  shows "cm_tables (CM_DisposeJoin msg m) = channel_change msg (cm_tables m)"
  using assms
  by (subst CM_DisposeJoin_def, subst ScanMessageType_shape)
    (simp add: Let_def cm_tables_def channel_change_def index_change_def graph_op_of_def MV_Add_def role_new_def
      split: option.split)

lemma CM_DisposeLeave_tables:
  assumes "operate_type msg \<noteq> OPT_JOIN"
  shows "cm_tables (CM_DisposeLeave msg m) = channel_change msg (cm_tables m)"
  using assms
  by (simp add: CM_DisposeLeave_def Let_def cm_tables_def channel_change_def index_change_def graph_op_of_def
      MV_Remove_role_def role_new_def)

lemma CM_Dispose_tables: "cm_tables (CM_Dispose msg m) = channel_change msg (cm_tables m)"
proof (cases "operate_type msg = OPT_JOIN")
  case True
  then have "cm_tables (CM_Dispose msg m) = cm_tables (CM_DisposeJoin msg m)"
    by (simp add: CM_Dispose_def cm_more [OF Notify_frame(10)])
  with CM_DisposeJoin_tables [OF True] show ?thesis by simp
next
  case False
  then have "cm_tables (CM_Dispose msg m) = cm_tables (CM_DisposeLeave msg m)"
    by (simp add: CM_Dispose_def cm_more [OF Notify_frame(10)])
  with CM_DisposeLeave_tables [OF False] show ?thesis by simp
qed

text \<open>Disposing touches only the fields the channel manager adds to its base.\<close>

definition same_base :: "channel_manager \<Rightarrow> channel_manager \<Rightarrow> bool" where
  "same_base m m' \<longleftrightarrow> manager.truncate m = manager.truncate m'"

lemma same_baseD:
  assumes "same_base m m'"
  shows "mgr_ok m = mgr_ok m'" "is_shutdown m = is_shutdown m'" "is_discovery_started m = is_discovery_started m'"
    "publisher m = publisher m'" "mgr_host_name m = mgr_host_name m'" "mgr_process_id m = mgr_process_id m'"
    "published m = published m'" "notified m = notified m'" "mgr_signal m = mgr_signal m'"
  using assms by (simp_all add: same_base_def manager.defs mgr_ok_def)

lemma same_base_join: "same_base (CM_DisposeJoin msg m) m"
  by (subst CM_DisposeJoin_def, subst ScanMessageType_shape)
    (simp add: Let_def same_base_def manager.defs split: option.split)

lemma same_base_leave: "same_base (CM_DisposeLeave msg m) m"
  by (simp add: CM_DisposeLeave_def Let_def same_base_def manager.defs)

lemmas same_base_dispose [mgr_frame] = same_baseD [OF same_base_join] same_baseD [OF same_base_leave]

interpretation channels: topology_element CM_Check CM_Dispose cm_tables channel_change
proof (unfold_locales, goal_cases)
  case (1 m msg)
  then show ?case by (simp add: CM_Dispose_def Let_def mgr_frame)
next
  case (9 msg m)
  show ?case by (rule CM_Dispose_tables)
next
  case (10 m m')
  then show ?case by (rule cm_more)
qed (simp_all add: CM_Dispose_def CM_Check_def Let_def mgr_frame)

section \<open>Writers and readers as lists of roles\<close>

text \<open>
  The contract of the four indexes: there is one list of writers and one of readers; a join appends a
  role, a leave removes the roles that match its attributes.
\<close>

definition roles_change :: "change_msg \<Rightarrow> role list \<Rightarrow> role list" where
  "roles_change msg rs =
     (if operate_type msg = OPT_JOIN then rs @ [role_new RoleWriter (role_attr msg) (msg_timestamp msg)]
      else filter (\<lambda>r. \<not> RoleWriter_Match (attributes r) (role_attr msg)) rs)"

definition roles_step :: "change_msg \<Rightarrow> role list \<times> role list \<Rightarrow> role list \<times> role list" where
  "roles_step msg ws =
     (if role_type msg = ROLE_WRITER then (roles_change msg (fst ws), snd ws)
      else (fst ws, roles_change msg (snd ws)))"

definition by_node :: "role list \<Rightarrow> (u64 \<times> role) list" where
  "by_node rs = map (\<lambda>r. (node_id (attributes r), r)) rs"

definition by_channel :: "role list \<Rightarrow> (u64 \<times> role) list" where
  "by_channel rs = map (\<lambda>r. (channel_id (attributes r), r)) rs"

definition indexes :: "role list \<times> role list \<Rightarrow> channel_tables \<Rightarrow> bool" where
  "indexes ws t \<longleftrightarrow> ct_node_writers t = by_node (fst ws) \<and> ct_channel_writers t = by_channel (fst ws)
     \<and> ct_node_readers t = by_node (snd ws) \<and> ct_channel_readers t = by_channel (snd ws)
     \<and> (\<forall>r \<in> set (fst ws) \<union> set (snd ws). role_class r = RoleWriter)"

definition addressed :: "change_msg \<Rightarrow> bool" where
  "addressed msg \<longleftrightarrow> node_id_opt (role_attr msg) \<noteq> None \<and> channel_id_opt (role_attr msg) \<noteq> None"

lemma RoleWriter_Match_ids:
  assumes "RoleWriter_Match a t"
  shows "node_id_opt t \<noteq> None \<Longrightarrow> node_id a = node_id t" "channel_id_opt t \<noteq> None \<Longrightarrow> channel_id a = channel_id t"
  using assms by (auto simp: RoleWriter_Match_def RoleBase_Match_def split: if_splits)

lemma Match_writer: "role_class r = RoleWriter \<Longrightarrow> Match r a = RoleWriter_Match (attributes r) a"
  by (simp add: Match_def)

lemma index_change_eq:
  assumes "addressed msg" and "\<forall>r \<in> set rs. role_class r = RoleWriter"
  shows "index_change msg (node_id (role_attr msg)) (by_node rs) = by_node (roles_change msg rs)"
    "index_change msg (channel_id (role_attr msg)) (by_channel rs) = by_channel (roles_change msg rs)"
  using assms RoleWriter_Match_ids [of _ "role_attr msg"]
  by (auto simp: index_change_def by_node_def by_channel_def roles_change_def role_new_def filter_map o_def
      Match_writer addressed_def intro!: arg_cong [where f = "map _"] filter_cong)

lemma roles_change_class:
  "\<forall>r \<in> set rs. role_class r = RoleWriter \<Longrightarrow> \<forall>r \<in> set (roles_change msg rs). role_class r = RoleWriter"
  by (auto simp: roles_change_def role_new_def)

lemma indexes_step:
  assumes "indexes ws t" and "addressed msg"
  shows "indexes (roles_step msg ws) (channel_change msg t)"
  using assms index_change_eq [OF assms(2)] roles_change_class
  by (simp add: indexes_def channel_change_def roles_step_def Let_def ball_Un) blast

lemma indexes_run:
  assumes "indexes ws (cm_tables m)" and "\<forall>msg \<in> set msgs. addressed msg"
  shows "indexes (fold roles_step msgs ws) (cm_tables (fold CM_Dispose msgs m))"
  using assms
proof (induction msgs arbitrary: ws m)
  case (Cons msg msgs)
  then have "indexes (roles_step msg ws) (cm_tables (CM_Dispose msg m))"
    by (simp add: CM_Dispose_tables indexes_step)
  with Cons show ?case by simp
qed simp

lemma cm_tables_new: "cm_tables (ChannelManager host pid) = \<lparr>ct_graph = Graph_new, ct_node_writers = [],
    ct_node_readers = [], ct_channel_writers = [], ct_channel_readers = []\<rparr>"
  by (simp add: cm_tables_def ChannelManager_def manager.defs MV_new_def)

lemma indexes_new: "indexes ([], []) (cm_tables (ChannelManager host pid))"
  by (simp add: cm_tables_new indexes_def by_node_def by_channel_def)

section \<open>The flow graph\<close>

lemma graph_of_run:
  "cm_node_graph (fold CM_Dispose msgs m) = fold graph_step (map graph_op_of msgs) (cm_node_graph m)"
proof (induction msgs arbitrary: m)
  case (Cons msg msgs)
  have "ct_graph (cm_tables (CM_Dispose msg m)) = graph_step (graph_op_of msg) (cm_node_graph m)"
    by (simp add: CM_Dispose_tables channel_change_def Let_def) (simp add: cm_tables_def)
  then show ?case using Cons.IH [of "CM_Dispose msg m"] by (simp add: cm_tables_def)
qed simp

definition topo_of_roles :: "role list \<times> role list \<Rightarrow> topology" where
  "topo_of_roles ws =
     \<lparr>t_writers = (\<lambda>ch. {node_name (attributes r) |r. r \<in> set (fst ws) \<and> channel_name (attributes r) = ch}),
      t_readers = (\<lambda>ch. {node_name (attributes r) |r. r \<in> set (snd ws) \<and> channel_name (attributes r) = ch})\<rparr>"

text \<open>
  An orderly history: names are not empty, a node joins a channel as a writer (or as a reader) at
  most once at a time, and a leave names the node and channel of the role it removes.
\<close>

definition placed_at :: "role_attributes \<Rightarrow> role \<Rightarrow> bool" where
  "placed_at a r \<longleftrightarrow> node_name (attributes r) = node_name a \<and> channel_name (attributes r) = channel_name a"

definition orderly_change :: "change_msg \<Rightarrow> role list \<Rightarrow> bool" where
  "orderly_change msg rs \<longleftrightarrow> node_name (role_attr msg) \<noteq> [] \<and> channel_name (role_attr msg) \<noteq> []
     \<and> (if operate_type msg = OPT_JOIN then \<forall>r \<in> set rs. \<not> placed_at (role_attr msg) r
        else \<forall>r \<in> set rs. RoleWriter_Match (attributes r) (role_attr msg) = placed_at (role_attr msg) r)"

fun orderly :: "role list \<times> role list \<Rightarrow> change_msg list \<Rightarrow> bool" where
  "orderly ws [] = True"
| "orderly ws (msg # msgs) =
     (orderly_change msg (if role_type msg = ROLE_WRITER then fst ws else snd ws) \<and> orderly (roles_step msg ws) msgs)"

definition names_on :: "role list \<Rightarrow> string \<Rightarrow> string set" where
  "names_on rs ch = {node_name (attributes r) |r. r \<in> set rs \<and> channel_name (attributes r) = ch}"

lemma names_on_snoc: "names_on (rs @ [r]) = (names_on rs)(channel_name (attributes r) :=
    insert (node_name (attributes r)) (names_on rs (channel_name (attributes r))))"
  by (auto simp: fun_eq_iff names_on_def)

lemma names_on_change:
  assumes "orderly_change msg rs"
  shows "names_on (roles_change msg rs) = (names_on rs)(channel_name (role_attr msg) :=
    (if operate_type msg = OPT_JOIN then insert (node_name (role_attr msg)) (names_on rs (channel_name (role_attr msg)))
     else names_on rs (channel_name (role_attr msg)) - {node_name (role_attr msg)}))"
proof (cases "operate_type msg = OPT_JOIN")
  case True
  then show ?thesis by (simp add: roles_change_def names_on_snoc role_new_def)
next
  case False
  have "filter (\<lambda>r. \<not> RoleWriter_Match (attributes r) (role_attr msg)) rs
      = filter (\<lambda>r. \<not> placed_at (role_attr msg) r) rs"
    using assms False by (intro filter_cong) (simp_all add: orderly_change_def)
  with False show ?thesis
    by (simp add: roles_change_def) (auto simp: fun_eq_iff names_on_def placed_at_def)
qed

lemma topo_step_roles:
  assumes "orderly_change msg (if role_type msg = ROLE_WRITER then fst ws else snd ws)"
  shows "topo_step (graph_op_of msg) (topo_of_roles ws) = topo_of_roles (roles_step msg ws)"
proof -
  have topo: "topo_of_roles ws = \<lparr>t_writers = names_on (fst ws), t_readers = names_on (snd ws)\<rparr>" for ws
    by (simp add: topo_of_roles_def names_on_def fun_eq_iff)
  have ne: "node_name (role_attr msg) \<noteq> []" "channel_name (role_attr msg) \<noteq> []"
    using assms by (simp_all add: orderly_change_def)
  show ?thesis
    using names_on_change [OF assms] ne
    by (cases "role_type msg = ROLE_WRITER"; cases "operate_type msg = OPT_JOIN")
      (simp_all add: topo graph_op_of_def roles_step_def Let_def Edge_IsValid_def Vertice_IsDummy_def Vertice_def)
qed

lemma topo_run_roles:
  "orderly ws msgs \<Longrightarrow> fold topo_step (map graph_op_of msgs) (topo_of_roles ws) = topo_of_roles (fold roles_step msgs ws)"
  by (induction msgs arbitrary: ws) (simp_all add: topo_step_roles)

section \<open>Departed processes\<close>

definition sourced :: "role \<Rightarrow> bool" where
  "sourced r \<longleftrightarrow> host_name_opt (attributes r) \<noteq> None \<and> process_id_opt (attributes r) \<noteq> None
     \<and> node_id_opt (attributes r) \<noteq> None \<and> channel_id_opt (attributes r) \<noteq> None"

definition of_module :: "string \<Rightarrow> int \<Rightarrow> role \<Rightarrow> bool" where
  "of_module host pid r \<longleftrightarrow> host_name (attributes r) = host \<and> process_id (attributes r) = pid"

definition drop_matching :: "role list \<Rightarrow> role list \<Rightarrow> role list" where
  "drop_matching rs ws = filter (\<lambda>x. \<forall>r \<in> set rs. \<not> RoleWriter_Match (attributes x) (attributes r)) ws"

lemma drop_matching_Cons: "drop_matching rs (drop_matching [r] ws) = drop_matching (r # rs) ws"
  by (auto simp: drop_matching_def intro: filter_cong)

lemma leave_role_tables:
  assumes "sourced r"
  shows "\<exists>msg. role_type msg = rt \<and> operate_type msg = OPT_LEAVE \<and> role_attr msg = attributes r
    \<and> cm_tables (CM_leave_role env rt r m) = channel_change msg (cm_tables m)"
proof -
  let ?msg = "fst (Convert env (attributes r) rt OPT_LEAVE m)"
  have "attributes r = complete_attr m (attributes r)"
    using assms by (auto simp: sourced_def complete_attr_def)
  moreover have "cm_tables (CM_leave_role env rt r m) = cm_tables (CM_DisposeLeave ?msg (m\<lparr>clock_reads := clock_reads m + 1\<rparr>))"
    by (simp add: CM_leave_role_def case_prod_beta Convert_state cm_more [OF Notify_frame(10)])
  moreover have "cm_tables (m\<lparr>clock_reads := clock_reads m + 1\<rparr>) = cm_tables m" by (rule cm_more) simp
  ultimately show ?thesis
    by (intro exI [of _ ?msg]) (simp add: Convert_msg CM_DisposeLeave_tables)
qed

lemma leave_role_indexes:
  assumes "indexes (W, R) (cm_tables m)" and "sourced r"
  shows "indexes (drop_matching [r] W, R) (cm_tables (CM_leave_role env ROLE_WRITER r m))"
    "indexes (W, drop_matching [r] R) (cm_tables (CM_leave_role env ROLE_READER r m))"
proof -
  obtain msg where msg: "role_type msg = ROLE_WRITER" "operate_type msg = OPT_LEAVE" "role_attr msg = attributes r"
      "cm_tables (CM_leave_role env ROLE_WRITER r m) = channel_change msg (cm_tables m)"
    using leave_role_tables [OF assms(2)] by blast
  moreover have "addressed msg" using assms(2) by (simp add: addressed_def sourced_def msg(3))
  ultimately show "indexes (drop_matching [r] W, R) (cm_tables (CM_leave_role env ROLE_WRITER r m))"
    using indexes_step [OF assms(1), of msg] by (simp add: roles_step_def roles_change_def drop_matching_def)
next
  obtain msg where msg: "role_type msg = ROLE_READER" "operate_type msg = OPT_LEAVE" "role_attr msg = attributes r"
      "cm_tables (CM_leave_role env ROLE_READER r m) = channel_change msg (cm_tables m)"
    using leave_role_tables [OF assms(2)] by blast
  moreover have "addressed msg" using assms(2) by (simp add: addressed_def sourced_def msg(3))
  ultimately show "indexes (W, drop_matching [r] R) (cm_tables (CM_leave_role env ROLE_READER r m))"
    using indexes_step [OF assms(1), of msg] by (simp add: roles_step_def roles_change_def drop_matching_def)
qed

lemma fold_leave_role_indexes:
  assumes "indexes (W, R) (cm_tables m)" and "\<forall>r \<in> set rs. sourced r"
  shows "indexes (drop_matching rs W, R) (cm_tables (fold (CM_leave_role env ROLE_WRITER) rs m))"
    "indexes (W, drop_matching rs R) (cm_tables (fold (CM_leave_role env ROLE_READER) rs m))"
  using assms
proof (induction rs arbitrary: W R m)
  case Nil
  { case 1 then show ?case by (simp add: drop_matching_def) }
  { case 2 then show ?case by (simp add: drop_matching_def) }
next
  case (Cons r rs)
  { case 1
    then show ?case using Cons.IH(1) [OF leave_role_indexes(1)] by (simp add: drop_matching_Cons) }
  { case 2
    then show ?case using Cons.IH(2) [OF leave_role_indexes(2)] by (simp add: drop_matching_Cons) }
qed

lemma RoleWriter_Match_self: "RoleWriter_Match a a"
  by (simp add: RoleWriter_Match_def RoleBase_Match_def)

lemma drop_module:
  assumes "\<forall>r \<in> set rs. sourced r"
  shows "drop_matching (filter (of_module host pid) rs) rs = filter (\<lambda>r. \<not> of_module host pid r) rs"
proof -
  have "of_module host pid x" if "sourced r" "of_module host pid r" "RoleWriter_Match (attributes x) (attributes r)" for x r
    using that by (auto simp: sourced_def of_module_def RoleWriter_Match_def RoleBase_Match_def split: if_splits)
  with assms show ?thesis
    unfolding drop_matching_def by (intro filter_cong refl) (auto simp: RoleWriter_Match_self)
qed

lemma search_module:
  assumes "\<forall>r \<in> set rs. role_class r = RoleWriter"
  shows "the (snd (MV_Search_attr_roles \<lparr>mv_roles = by_channel rs\<rparr>
      (RoleAttributes\<lparr>host_name_opt := Some host, process_id_opt := Some pid\<rparr>) (Some []))) = filter (of_module host pid) rs"
  by (simp add: MV_Search_attr_roles_def scan_vec_eq Match_module by_channel_def filter_map o_def
      of_module_def [abs_def])

section \<open>Neighbours of a node\<close>

lemma query_roles_eq:
  "query_roles (Some (key, g')) w (Some vec) g
     = Some (Some (vec @ map (attributes \<circ> snd) (equal_range key (mv_roles w))), g')"
  by (simp add: query_roles_def MV_Search_key_attrs_def range_vec_eq)

lemma of_channels_eq:
  assumes "\<forall>c \<in> set cs. RegisterChannel hash g c = Some (cid c, g)"
  shows "of_channels (GetWritersOfChannel hash m) cs (Some vec) g = Some (Some (vec
      @ concat (map (\<lambda>c. map (attributes \<circ> snd) (equal_range (cid c) (mv_roles (cm_channel_writers m)))) cs)), g)"
    "of_channels (GetReadersOfChannel hash m) cs (Some vec) g = Some (Some (vec
      @ concat (map (\<lambda>c. map (attributes \<circ> snd) (equal_range (cid c) (mv_roles (cm_channel_readers m)))) cs)), g)"
  using assms
  by (induction cs arbitrary: vec)
    (simp_all add: GetWritersOfChannel_def GetReadersOfChannel_def query_roles_eq)

lemma nodes_of_roles_ok:
  "um_ok (nodes_of_roles as) \<and> um_keys (nodes_of_roles as) = (\<lambda>a. node_name a) ` set as
     \<and> (\<forall>(k, v) \<in> set (nodes_of_roles as). node_name v = k)"
proof -
  have "um_ok (fold (\<lambda>a nodes. um_put (node_name (node_attr a)) (node_attr a) nodes) as n)
      \<and> um_keys (fold (\<lambda>a nodes. um_put (node_name (node_attr a)) (node_attr a) nodes) as n)
          = um_keys n \<union> (\<lambda>a. node_name a) ` set as
      \<and> (\<forall>(k, v) \<in> set (fold (\<lambda>a nodes. um_put (node_name (node_attr a)) (node_attr a) nodes) as n). node_name v = k)"
    if "um_ok n" "\<forall>(k, v) \<in> set n. node_name v = k" for n :: "(string, role_attributes) umap"
    using that
  proof (induction as arbitrary: n)
    case (Cons a as)
    have "\<forall>(k, v) \<in> set (um_put (node_name (node_attr a)) (node_attr a) n). node_name v = k"
      using Cons.prems by (auto simp: um_set_iff um_simps split: if_splits dest!: map_of_SomeD)
    with Cons.IH [of "um_put (node_name (node_attr a)) (node_attr a) n"] Cons.prems show ?case
      by (simp add: node_attr_def RoleAttributes_def)
  qed simp
  from this [of "[]"] show ?thesis by (simp add: nodes_of_roles_def)
qed

lemma nodes_of_roles_names:
  "distinct (map (\<lambda>a. node_name a) (map snd (nodes_of_roles as)))"
  "set (map (\<lambda>a. node_name a) (map snd (nodes_of_roles as))) = (\<lambda>a. node_name a) ` set as"
proof -
  have "map (\<lambda>a. node_name a) (map snd (nodes_of_roles as)) = map fst (nodes_of_roles as)"
    using nodes_of_roles_ok [of as] by (auto simp: o_def)
  then show "distinct (map (\<lambda>a. node_name a) (map snd (nodes_of_roles as)))"
    "set (map (\<lambda>a. node_name a) (map snd (nodes_of_roles as))) = (\<lambda>a. node_name a) ` set as"
    using nodes_of_roles_ok [of as] by (simp_all only: um_ok_def set_map)
qed

text \<open>The roles of \<open>B\<close> on the channels on which node \<open>nid\<close> has a role of \<open>A\<close>.\<close>

definition channels_of :: "u64 \<Rightarrow> role list \<Rightarrow> string list" where
  "channels_of nid A = remdups (map (\<lambda>a. channel_name a) (map (attributes \<circ> snd) (equal_range nid (by_node A))))"

definition gather :: "(string \<Rightarrow> u64) \<Rightarrow> u64 \<Rightarrow> role list \<Rightarrow> role list \<Rightarrow> role_attributes list" where
  "gather cid nid A B = concat (map (\<lambda>c. map (attributes \<circ> snd) (equal_range (cid c) (by_channel B))) (channels_of nid A))"

lemma equal_range_index:
  "map (attributes \<circ> snd) (equal_range k (by_node A)) = map attributes (filter (\<lambda>r. node_id (attributes r) = k) A)"
  "map (attributes \<circ> snd) (equal_range k (by_channel A)) = map attributes (filter (\<lambda>r. channel_id (attributes r) = k) A)"
  by (simp_all add: equal_range_def by_node_def by_channel_def filter_map o_def)

lemma set_channels_of:
  "set (channels_of nid A) = {channel_name (attributes a) |a. a \<in> set A \<and> node_id (attributes a) = nid}"
  by (auto simp: channels_of_def equal_range_index)

lemma gather_names:
  assumes "\<forall>a \<in> set A. cid (channel_name (attributes a)) = channel_id (attributes a)"
  shows "(\<lambda>a. node_name a) ` set (gather cid nid A B) = {node_name (attributes b) |b. b \<in> set B
    \<and> (\<exists>a \<in> set A. node_id (attributes a) = nid \<and> channel_id (attributes a) = channel_id (attributes b))}"
proof -
  have hit: "(\<exists>c \<in> set (channels_of nid A). channel_id (attributes b) = cid c)
      \<longleftrightarrow> (\<exists>a \<in> set A. node_id (attributes a) = nid \<and> channel_id (attributes a) = channel_id (attributes b))" for b
  proof
    assume "\<exists>c \<in> set (channels_of nid A). channel_id (attributes b) = cid c"
    then obtain a where "a \<in> set A" "node_id (attributes a) = nid"
        "channel_id (attributes b) = cid (channel_name (attributes a))"
      unfolding set_channels_of by blast
    with assms show "\<exists>a \<in> set A. node_id (attributes a) = nid \<and> channel_id (attributes a) = channel_id (attributes b)"
      by (intro bexI [of _ a]) simp_all
  next
    assume "\<exists>a \<in> set A. node_id (attributes a) = nid \<and> channel_id (attributes a) = channel_id (attributes b)"
    then obtain a where "a \<in> set A" "node_id (attributes a) = nid" "channel_id (attributes a) = channel_id (attributes b)"
      by blast
    with assms show "\<exists>c \<in> set (channels_of nid A). channel_id (attributes b) = cid c"
      by (intro bexI [of _ "channel_name (attributes a)"]) (auto simp: set_channels_of)
  qed
  have "(\<lambda>a. node_name a) ` set (gather cid nid A B)
      = {node_name (attributes b) |b. b \<in> set B \<and> (\<exists>c \<in> set (channels_of nid A). channel_id (attributes b) = cid c)}"
    by (auto simp: gather_def equal_range_index)
  then show ?thesis by (simp only: hit)
qed

lemma gather_empty: "equal_range nid (by_node A) = [] \<Longrightarrow> gather cid nid A B = []"
  by (simp add: gather_def channels_of_def)

lemma neighbours_eq:
  assumes "indexes (W, R) (cm_tables m)" and "RegisterNode hash g node = Some (nid, g1)"
    and "\<forall>r \<in> set W \<union> set R. RegisterChannel hash g1 (channel_name (attributes r)) = Some (cid (channel_name (attributes r)), g1)"
  shows "GetUpstreamOfNode hash m node (Some []) g = Some (Some (map snd (nodes_of_roles (gather cid nid R W))), g1)"
    "GetDownstreamOfNode hash m node (Some []) g = Some (Some (map snd (nodes_of_roles (gather cid nid W R))), g1)"
proof -
  have ix: "mv_roles (cm_channel_writers m) = by_channel W" "mv_roles (cm_channel_readers m) = by_channel R"
    "mv_roles (cm_node_writers m) = by_node W" "mv_roles (cm_node_readers m) = by_node R"
    using assms(1) by (auto simp: indexes_def cm_tables_def)
  have reg: "\<forall>c \<in> set (channels_of nid W). RegisterChannel hash g1 c = Some (cid c, g1)"
    "\<forall>c \<in> set (channels_of nid R). RegisterChannel hash g1 c = Some (cid c, g1)"
    using assms(3) by (auto simp: set_channels_of)
  have nil: "nodes_of_roles [] = []" by (simp add: nodes_of_roles_def)
  show "GetUpstreamOfNode hash m node (Some []) g = Some (Some (map snd (nodes_of_roles (gather cid nid R W))), g1)"
    using gather_empty [of nid R cid W] of_channels_eq(1) [OF reg(2), of m "[]"]
    by (cases "equal_range nid (by_node R) = []")
      (simp_all add: GetUpstreamOfNode_def GetReadersOfNode_def assms(2) query_roles_eq ix nil
        channels_of_def [symmetric] gather_def [symmetric] Let_def del: map_map)
  show "GetDownstreamOfNode hash m node (Some []) g = Some (Some (map snd (nodes_of_roles (gather cid nid W R))), g1)"
    using gather_empty [of nid W cid R] of_channels_eq(2) [OF reg(1), of m "[]"]
    by (cases "equal_range nid (by_node W) = []")
      (simp_all add: GetDownstreamOfNode_def GetWritersOfNode_def assms(2) query_roles_eq ix nil
        channels_of_def [symmetric] gather_def [symmetric] Let_def del: map_map)
qed

section \<open>Properties\<close>

text \<open>
  C5: the four indexes stay in step. After any sequence of change messages that carry a node id and a
  channel id, the containers by node and by channel are two indexes of one list of writers and one
  list of readers, the lists the joins and leaves build: no role is lost, duplicated or left behind
  in only one of them.
\<close>

theorem channel_indexes_refine:
  assumes "\<forall>msg \<in> set msgs. addressed msg" and "fold roles_step msgs ([], []) = (W, R)"
    and "m = fold CM_Dispose msgs (ChannelManager host pid)"
  shows "mv_roles (cm_node_writers m) = by_node W \<and> mv_roles (cm_channel_writers m) = by_channel W
    \<and> mv_roles (cm_node_readers m) = by_node R \<and> mv_roles (cm_channel_readers m) = by_channel R"
  using indexes_run [OF indexes_new assms(1), of host pid] by (simp add: assms(2,3) indexes_def cm_tables_def)

definition channel_msg :: "operate_type \<Rightarrow> role_type \<Rightarrow> string \<Rightarrow> u64 \<Rightarrow> string \<Rightarrow> u64 \<Rightarrow> u64 \<Rightarrow> change_msg" where
  "channel_msg opt rt node nid channel cid i =
     \<lparr>timestamp_opt = Some 1, change_type_opt = Some CHANGE_CHANNEL, operate_type_opt = Some opt,
      role_type_opt = Some rt,
      role_attr_opt = Some (RoleAttributes\<lparr>host_name_opt := Some ''h'', process_id_opt := Some 1,
        node_name_opt := Some node, node_id_opt := Some nid, channel_name_opt := Some channel,
        channel_id_opt := Some cid, id_opt := Some i\<rparr>)\<rparr>"

definition chat_msgs :: "change_msg list" where
  "chat_msgs = [channel_msg OPT_JOIN ROLE_WRITER ''A'' 1 ''c'' 5 10, channel_msg OPT_JOIN ROLE_READER ''B'' 2 ''c'' 5 11]"

theorem channel_indexes_refine_witness:
  "mv_roles (cm_node_writers (fold CM_Dispose chat_msgs (ChannelManager ''h'' 1)))
     = by_node (fst (fold roles_step chat_msgs ([], [])))"
proof -
  have "\<forall>msg \<in> set chat_msgs. addressed msg" by (simp add: chat_msgs_def channel_msg_def addressed_def)
  from channel_indexes_refine [OF this prod.collapse [symmetric] refl, of "''h''" 1] show ?thesis by blast
qed



text \<open>
  C7: replication. Let a manager perform any sequence of joins and leaves, each of which succeeds, and
  let a manager of another process that starts with the same tables receive the published messages in
  order. Then both end with the same writers, readers and flow graph. The only assumption on the
  middleware is that a serialized message parses back.
\<close>

theorem channel_discovery_replicates:
  assumes "local_changes env CM_Check CM_Dispose ops m = Some m'" and "publisher m"
    and "\<forall>msg data. serialize env msg = Some data \<longrightarrow> parse_msg env' data = Some msg"
    and "\<not> is_shutdown r" and "cm_tables r = cm_tables m"
    and "\<forall>(opt, attr, role) \<in> set ops. source_of m attr \<noteq> (mgr_process_id r, mgr_host_name r)"
  shows "\<exists>wire. published m' = published m @ wire
    \<and> cm_tables (fold (OnRemoteChange env' CM_Check CM_Dispose) wire r) = cm_tables m'"
  using channels.replication [OF assms(1,2) _ assms(4-6)] assms(3) by blast

definition wire_attr :: role_attributes where
  "wire_attr = RoleAttributes\<lparr>node_name_opt := Some ''A'', node_id_opt := Some 1, channel_name_opt := Some ''c'',
     channel_id_opt := Some 5, id_opt := Some 10\<rparr>"

definition wire_manager :: channel_manager where
  "wire_manager = (ChannelManager ''h'' 1)\<lparr>is_discovery_started := True, publisher := True\<rparr>"

definition wire_env :: rtps_env where
  "wire_env = (let msg = fst (Convert silent_env wire_attr ROLE_WRITER OPT_JOIN wire_manager)
     in silent_env\<lparr>serialize := [msg \<mapsto> ''m''], parse_msg := [''m'' \<mapsto> msg]\<rparr>)"

theorem channel_discovery_replicates_witness:
  "\<exists>m' wire. local_changes wire_env CM_Check CM_Dispose [(OPT_JOIN, wire_attr, ROLE_WRITER)] wire_manager = Some m'
     \<and> published m' = published wire_manager @ wire
     \<and> cm_tables (fold (OnRemoteChange wire_env CM_Check CM_Dispose) wire (ChannelManager ''g'' 2)) = cm_tables m'"
proof -
  let ?run = "local_changes wire_env CM_Check CM_Dispose [(OPT_JOIN, wire_attr, ROLE_WRITER)] wire_manager"
  have "\<not> Option.is_none ?run" by code_simp
  then obtain m' where run: "?run = Some m'" by (auto simp: Option.is_none_def)
  have tabs: "cm_tables wire_manager = cm_tables (ChannelManager ''h'' 1)"
    unfolding wire_manager_def by (rule cm_more) simp
  have "publisher wire_manager" by (simp add: wire_manager_def)
  moreover have "\<forall>msg data. serialize wire_env msg = Some data \<longrightarrow> parse_msg wire_env data = Some msg"
    by (auto simp: wire_env_def Let_def silent_env_def split: if_splits)
  moreover have "\<not> is_shutdown (ChannelManager ''g'' 2)"
    by (simp add: ChannelManager_def manager.defs Manager_def)
  moreover have "cm_tables (ChannelManager ''g'' 2) = cm_tables wire_manager"
    by (simp add: tabs cm_tables_new)
  moreover have "\<forall>(opt, attr, role) \<in> set [(OPT_JOIN, wire_attr, ROLE_WRITER)].
      source_of wire_manager attr \<noteq> (mgr_process_id (ChannelManager ''g'' 2), mgr_host_name (ChannelManager ''g'' 2))"
    by (simp add: source_of_def wire_attr_def RoleAttributes_def wire_manager_def ChannelManager_def manager.defs Manager_def)
  ultimately show ?thesis using channel_discovery_replicates [OF run] run by blast
qed

lemma CM_module_leave:
  assumes "indexes (W, R) (cm_tables m)" and "\<forall>r \<in> set W \<union> set R. sourced r" and "is_discovery_started m"
  shows "indexes (filter (\<lambda>r. \<not> of_module host pid r) W, filter (\<lambda>r. \<not> of_module host pid r) R)
    (cm_tables (CM_OnTopoModuleLeave env host pid m))"
proof -
  have ix: "mv_roles (cm_channel_writers m) = by_channel W" "mv_roles (cm_channel_readers m) = by_channel R"
    "\<forall>r \<in> set W. role_class r = RoleWriter" "\<forall>r \<in> set R. role_class r = RoleWriter"
    using assms(1) by (auto simp: indexes_def cm_tables_def)
  have cw: "cm_channel_writers m = \<lparr>mv_roles = by_channel W\<rparr>" "cm_channel_readers m = \<lparr>mv_roles = by_channel R\<rparr>"
    using ix(1,2) by simp_all
  have run: "CM_OnTopoModuleLeave env host pid m = fold (CM_leave_role env ROLE_READER) (filter (of_module host pid) R)
      (fold (CM_leave_role env ROLE_WRITER) (filter (of_module host pid) W) m)"
    using assms(3) by (simp add: CM_OnTopoModuleLeave_def Let_def cw search_module [OF ix(3)] search_module [OF ix(4)])
  have src: "\<forall>r \<in> set W. sourced r" "\<forall>r \<in> set R. sourced r" using assms(2) by auto
  have "indexes (drop_matching (filter (of_module host pid) W) W, drop_matching (filter (of_module host pid) R) R)
      (cm_tables (CM_OnTopoModuleLeave env host pid m))"
    unfolding run using src by (intro fold_leave_role_indexes assms(1)) auto
  then show ?thesis using drop_module [OF src(1)] drop_module [OF src(2)] by simp
qed

text \<open>
  When a process disappears, exactly its writers and readers go. In all four indexes the roles of
  that host and process are removed and every other role stays in its place.
\<close>

theorem channel_module_leave:
  assumes "indexes (W, R) (cm_tables m)" and "\<forall>r \<in> set W \<union> set R. sourced r" and "is_discovery_started m"
  shows "indexes (filter (\<lambda>r. \<not> of_module host pid r) W, filter (\<lambda>r. \<not> of_module host pid r) R)
    (cm_tables (CM_OnTopoModuleLeave env host pid m))"
  using assms by (rule CM_module_leave)

theorem channel_module_leave_witness:
  "indexes ([], []) (cm_tables (CM_OnTopoModuleLeave silent_env ''h'' 1
     ((fold CM_Dispose chat_msgs (ChannelManager ''z'' 9))\<lparr>is_discovery_started := True\<rparr>)))"
proof -
  let ?m = "(fold CM_Dispose chat_msgs (ChannelManager ''z'' 9))\<lparr>is_discovery_started := True\<rparr>"
  obtain W R where WR: "fold roles_step chat_msgs ([], []) = (W, R)" by fastforce
  have "\<forall>msg \<in> set chat_msgs. addressed msg" by (simp add: chat_msgs_def channel_msg_def addressed_def)
  from indexes_run [OF indexes_new this, of "''z''" 9]
  have "indexes (W, R) (cm_tables (fold CM_Dispose chat_msgs (ChannelManager ''z'' 9)))" by (simp add: WR)
  moreover have "cm_tables ?m = cm_tables (fold CM_Dispose chat_msgs (ChannelManager ''z'' 9))"
    by (rule cm_more) simp
  ultimately have ix: "indexes (W, R) (cm_tables ?m)" by simp
  have roles: "\<forall>r \<in> set W \<union> set R. sourced r \<and> of_module ''h'' 1 r"
    using WR by (auto simp: chat_msgs_def channel_msg_def roles_step_def roles_change_def role_new_def sourced_def
        of_module_def)
  then have "filter (\<lambda>r. \<not> of_module ''h'' 1 r) W = []" "filter (\<lambda>r. \<not> of_module ''h'' 1 r) R = []"
    by (simp_all add: filter_empty_conv)
  with channel_module_leave [OF ix, of "''h''" 1 silent_env] roles show ?thesis by simp
qed

text \<open>
  Neighbours. When the channels of all known roles are registered under the ids the roles carry,
  \<open>GetUpstreamOfNode\<close> returns each node that writes a channel the given node reads, once, and
  \<open>GetDownstreamOfNode\<close> each node that reads a channel it writes.
\<close>

theorem neighbours_of_node:
  assumes "indexes (W, R) (cm_tables m)" and "RegisterNode hash g node = Some (nid, g1)"
    and "\<forall>r \<in> set W \<union> set R. RegisterChannel hash g1 (channel_name (attributes r)) = Some (channel_id (attributes r), g1)"
  shows "\<exists>up down. GetUpstreamOfNode hash m node (Some []) g = Some (Some up, g1)
    \<and> GetDownstreamOfNode hash m node (Some []) g = Some (Some down, g1)
    \<and> distinct (map (\<lambda>a. node_name a) up) \<and> distinct (map (\<lambda>a. node_name a) down)
    \<and> set (map (\<lambda>a. node_name a) up) = {node_name (attributes w) |w. w \<in> set W
         \<and> (\<exists>r \<in> set R. node_id (attributes r) = nid \<and> channel_id (attributes r) = channel_id (attributes w))}
    \<and> set (map (\<lambda>a. node_name a) down) = {node_name (attributes r) |r. r \<in> set R
         \<and> (\<exists>w \<in> set W. node_id (attributes w) = nid \<and> channel_id (attributes w) = channel_id (attributes r))}"
proof -
  define cid where "cid = (\<lambda>c. fst (the (RegisterChannel hash g1 c)))"
  have cid: "\<forall>r \<in> set W. cid (channel_name (attributes r)) = channel_id (attributes r)"
    "\<forall>r \<in> set R. cid (channel_name (attributes r)) = channel_id (attributes r)"
    using assms(3) by (simp_all add: cid_def)
  have reg: "\<forall>r \<in> set W \<union> set R. RegisterChannel hash g1 (channel_name (attributes r)) = Some (cid (channel_name (attributes r)), g1)"
    using assms(3) cid by auto
  show ?thesis
    by (intro exI [of _ "map snd (nodes_of_roles (gather cid nid R W))"]
        exI [of _ "map snd (nodes_of_roles (gather cid nid W R))"] conjI)
      (simp_all only: neighbours_eq [OF assms(1,2) reg] nodes_of_roles_names gather_names [OF cid(1)] gather_names [OF cid(2)])
qed

theorem neighbours_of_node_witness:
  "\<exists>g1 up down. GetUpstreamOfNode (\<lambda>s. if s = ''c'' then 5 else 2) (fold CM_Dispose chat_msgs (ChannelManager ''h'' 1))
      ''B'' (Some []) (snd (the (RegisterChannel (\<lambda>s. if s = ''c'' then 5 else 2) GlobalData_static ''c'')))
        = Some (Some up, g1)
    \<and> set (map (\<lambda>a. node_name a) up) = {''A''}"
proof -
  let ?h = "\<lambda>s :: string. if s = ''c'' then 5 else (2 :: u64)" and ?m = "fold CM_Dispose chat_msgs (ChannelManager ''h'' 1)"
  define g0 where "g0 = snd (the (RegisterChannel ?h GlobalData_static ''c''))"
  obtain W R where WR: "fold roles_step chat_msgs ([], []) = (W, R)" by fastforce
  have "\<forall>msg \<in> set chat_msgs. addressed msg" by (simp add: chat_msgs_def channel_msg_def addressed_def)
  from indexes_run [OF indexes_new this, of "''h''" 1] have ix: "indexes (W, R) (cm_tables ?m)" by (simp add: WR)
  have ok: "ahm_ok (channel_id_map GlobalData_static)" "ahm_ok (node_id_map GlobalData_static)"
    and none: "AHM_Get (channel_id_map GlobalData_static) 5 = None" "AHM_Get (node_id_map GlobalData_static) 2 = None"
    by (simp_all add: GlobalData_static_def AtomicHashMap_ok AtomicHashMap_empty)
  have chan: "register_name ?h (channel_id_map GlobalData_static) ''c''
      = Some (5, AHM_Set (channel_id_map GlobalData_static) 5 ''c'')"
    using register_name_fresh [of "channel_id_map GlobalData_static" ?h "''c''"] ok none by simp
  have g0: "channel_id_map g0 = AHM_Set (channel_id_map GlobalData_static) 5 ''c''"
      "node_id_map g0 = node_id_map GlobalData_static"
    by (simp_all add: g0_def RegisterChannel_def chan)
  have "register_name ?h (node_id_map g0) ''B'' = Some (2, AHM_Set (node_id_map g0) 2 ''B'')"
    using register_name_fresh [of "node_id_map g0" ?h "''B''"] ok none by (simp add: g0)
  then obtain g1 where node: "RegisterNode ?h g0 ''B'' = Some (2, g1)" and g1: "channel_id_map g1 = channel_id_map g0"
    by (simp add: RegisterNode_def)
  have "RegisterChannel ?h g1 ''c'' = Some (5, g1)"
    using register_name_again [OF chan ok(1)] by (simp add: RegisterChannel_def g1 g0)
  then have reg: "\<forall>r \<in> set W \<union> set R. RegisterChannel ?h g1 (channel_name (attributes r)) = Some (channel_id (attributes r), g1)"
    using WR by (auto simp: chat_msgs_def channel_msg_def roles_step_def roles_change_def role_new_def)
  obtain up where "GetUpstreamOfNode ?h ?m ''B'' (Some []) g0 = Some (Some up, g1)"
    and "set (map (\<lambda>a. node_name a) up) = {node_name (attributes w) |w. w \<in> set W
         \<and> (\<exists>r \<in> set R. node_id (attributes r) = 2 \<and> channel_id (attributes r) = channel_id (attributes w))}"
    using neighbours_of_node [OF ix node reg] by blast
  moreover have "{node_name (attributes w) |w. w \<in> set W
      \<and> (\<exists>r \<in> set R. node_id (attributes r) = 2 \<and> channel_id (attributes r) = channel_id (attributes w))} = {''A''}"
    using WR by (auto simp: chat_msgs_def channel_msg_def roles_step_def roles_change_def role_new_def)
  ultimately show ?thesis by (metis g0_def)
qed

definition twin_msgs :: "change_msg list" where
  "twin_msgs = [channel_msg OPT_JOIN ROLE_WRITER ''A'' 1 ''c'' 5 10, channel_msg OPT_JOIN ROLE_WRITER ''A'' 1 ''c'' 5 12,
     channel_msg OPT_JOIN ROLE_READER ''B'' 2 ''c'' 5 11, channel_msg OPT_LEAVE ROLE_WRITER ''A'' 1 ''c'' 5 10]"

text \<open>
  Without the discipline of one writer per node and channel the graph goes wrong. Node \<open>A\<close> opens
  two writers on channel \<open>c\<close>, read by \<open>B\<close>, and closes one of them: the manager still has a writer
  of \<open>c\<close>, and \<open>A\<close> still feeds \<open>B\<close>, but \<open>GetFlowDirection\<close> reports them unreachable.
\<close>

theorem second_writer_lost_in_graph:
  "MV_Search_key (cm_channel_writers (fold CM_Dispose twin_msgs (ChannelManager ''h'' 1))) 5
   \<and> fst (GetFlowDirection (fold CM_Dispose twin_msgs (ChannelManager ''h'' 1)) ''A'' ''B'') = UNREACHABLE"
  by code_simp

end
