(* ===== verification/Service_Manager.thy ===== *)
theory Service_Manager
  imports Discovery_Manager Global_Data
begin

text \<open>
  \<open>service_discovery/specific_manager/service_manager.{h,cc}\<close>: the manager of servers (one per
  service id) and clients (any number per service id).
\<close>

record service_manager = manager +
  sm_servers :: single_value_warehouse
  sm_clients :: multi_value_warehouse

definition ServiceManager :: "string \<Rightarrow> int \<Rightarrow> service_manager" where
  "ServiceManager host pid = manager.extend
     ((Manager host pid)\<lparr>allowed_role := (allowed_role (Manager host pid) OR push_bit (role_number ROLE_SERVER) 1)
          OR push_bit (role_number ROLE_CLIENT) 1,
        mgr_change_type := CHANGE_SERVICE, mgr_channel_name := ''service_change_broadcast''\<rparr>)
     \<lparr>sm_servers = SV_new, sm_clients = MV_new\<rparr>"

definition HasService :: "(string \<Rightarrow> u64) \<Rightarrow> service_manager \<Rightarrow> string \<Rightarrow> bool" where
  "HasService hash m service = SV_Search_key (sm_servers m) (hash service)"

definition GetServers :: "service_manager \<Rightarrow> role_attributes list out \<Rightarrow> role_attributes list out" where
  "GetServers m servers = (case servers of None \<Rightarrow> None | Some vec \<Rightarrow> SV_GetAllRoles_attr (sm_servers m) (Some vec))"

definition GetClients :: "(string \<Rightarrow> u64) \<Rightarrow> service_manager \<Rightarrow> string \<Rightarrow> role_attributes list out \<Rightarrow> role_attributes list out" where
  "GetClients hash m service clients =
     (case clients of None \<Rightarrow> None | Some vec \<Rightarrow> snd (MV_Search_key_attrs (sm_clients m) (hash service) (Some vec)))"

definition SM_Check :: "role_attributes \<Rightarrow> bool" where
  "SM_Check attr = (if service_name_opt attr = None then False else if service_id_opt attr = None then False else True)"

definition SM_DisposeJoin :: "change_msg \<Rightarrow> service_manager \<Rightarrow> service_manager" where
  "SM_DisposeJoin msg m =
     (let r = role_new RoleServer (role_attr msg) 0
      in if role_type msg = ROLE_SERVER
         then m\<lparr>sm_servers := snd (SV_Add (sm_servers m) (service_id (attributes r)) r True)\<rparr>
         else m\<lparr>sm_clients := snd (MV_Add (sm_clients m) (service_id (attributes r)) r True)\<rparr>)"

definition SM_DisposeLeave :: "change_msg \<Rightarrow> service_manager \<Rightarrow> service_manager" where
  "SM_DisposeLeave msg m =
     (let r = role_new RoleServer (role_attr msg) 0
      in if role_type msg = ROLE_SERVER
         then m\<lparr>sm_servers := SV_Remove_key (sm_servers m) (service_id (attributes r))\<rparr>
         else m\<lparr>sm_clients := MV_Remove_role (sm_clients m) (service_id (attributes r)) r\<rparr>)"

definition SM_Dispose :: "change_msg \<Rightarrow> service_manager \<Rightarrow> service_manager" where
  "SM_Dispose msg m =
     (let m1 = (if operate_type msg = OPT_JOIN then SM_DisposeJoin msg m else SM_DisposeLeave msg m)
      in Notify msg m1)"

definition SM_OnTopoModuleLeave :: "rtps_env \<Rightarrow> string \<Rightarrow> int \<Rightarrow> service_manager \<Rightarrow> service_manager" where
  "SM_OnTopoModuleLeave env host pid m =
     (if \<not> is_discovery_started m then m
      else let attr = RoleAttributes\<lparr>host_name_opt := Some host, process_id_opt := Some pid\<rparr>;
               servers_to_remove = the (snd (SV_Search_attr_roles (sm_servers m) attr (Some [])));
               m1 = fold (\<lambda>server m. m\<lparr>sm_servers := SV_Remove_key (sm_servers m) (service_id (attributes server))\<rparr>)
                      servers_to_remove m;
               clients_to_remove = the (snd (MV_Search_attr_roles (sm_clients m1) attr (Some [])));
               m2 = fold (\<lambda>client m. m\<lparr>sm_clients := MV_Remove_role (sm_clients m) (service_id (attributes client)) client\<rparr>)
                      clients_to_remove m1;
               m3 = fold (\<lambda>server m. let (msg, m') = Convert env (attributes server) ROLE_SERVER OPT_LEAVE m in Notify msg m')
                      servers_to_remove m2
           in fold (\<lambda>client m. let (msg, m') = Convert env (attributes client) ROLE_CLIENT OPT_LEAVE m in Notify msg m')
                clients_to_remove m3)"

section \<open>The tables a message changes\<close>

definition service_change :: "change_msg \<Rightarrow> single_value_warehouse \<times> multi_value_warehouse
    \<Rightarrow> single_value_warehouse \<times> multi_value_warehouse" where
  "service_change msg t =
     (let r = role_new RoleServer (role_attr msg) 0; key = service_id (role_attr msg)
      in if role_type msg = ROLE_SERVER
         then (if operate_type msg = OPT_JOIN then snd (SV_Add (fst t) key r True) else SV_Remove_key (fst t) key, snd t)
         else (fst t, if operate_type msg = OPT_JOIN then snd (MV_Add (snd t) key r True) else MV_Remove_role (snd t) key r))"

abbreviation sm_tables :: "service_manager \<Rightarrow> single_value_warehouse \<times> multi_value_warehouse" where
  "sm_tables m \<equiv> (sm_servers m, sm_clients m)"

lemma sm_more: "manager.more m = manager.more m' \<Longrightarrow> sm_tables (m :: service_manager) = sm_tables m'"
  by (cases m; cases m') simp

lemma SM_Dispose_tables: "sm_tables (SM_Dispose msg m) = service_change msg (sm_tables m)"
proof -
  have "sm_tables (SM_Dispose msg m) = sm_tables (if operate_type msg = OPT_JOIN then SM_DisposeJoin msg m else SM_DisposeLeave msg m)"
    unfolding SM_Dispose_def Let_def by (rule sm_more) (rule Notify_frame(10))
  then show ?thesis
    by (simp add: SM_DisposeJoin_def SM_DisposeLeave_def service_change_def role_new_def Let_def)
qed

lemma SM_dispose_frame [mgr_frame]:
  "mgr_ok (SM_DisposeJoin msg m) = mgr_ok m" "mgr_ok (SM_DisposeLeave msg m) = mgr_ok m"
  "manager.truncate (SM_DisposeJoin msg m) = manager.truncate m"
  "manager.truncate (SM_DisposeLeave msg m) = manager.truncate m"
  by (simp_all add: SM_DisposeJoin_def SM_DisposeLeave_def mgr_ok_def manager.defs Let_def)

lemma SM_base_frame:
  "is_shutdown (SM_Dispose msg m) = is_shutdown m" "is_discovery_started (SM_Dispose msg m) = is_discovery_started m"
  "publisher (SM_Dispose msg m) = publisher m" "mgr_host_name (SM_Dispose msg m) = mgr_host_name m"
  "mgr_process_id (SM_Dispose msg m) = mgr_process_id m" "published (SM_Dispose msg m) = published m"
  "notified (SM_Dispose msg m) = notified m @ map (\<lambda>cb. (cb, msg)) (callbacks (mgr_signal m))"
  by (simp_all add: SM_Dispose_def SM_DisposeJoin_def SM_DisposeLeave_def Let_def mgr_frame)

interpretation services: topology_element SM_Check SM_Dispose "\<lambda>m. sm_tables m" service_change
proof (unfold_locales, goal_cases)
  case (1 m msg)
  then show ?case by (simp add: SM_Dispose_def Let_def mgr_frame)
next
  case (9 msg m)
  show ?case by (rule SM_Dispose_tables)
next
  case (10 m m')
  then show ?case by (rule sm_more)
qed (simp_all add: SM_base_frame SM_Check_def)

section \<open>Departed processes\<close>

definition services_ok :: "service_manager \<Rightarrow> bool" where
  "services_ok m \<longleftrightarrow> sv_ok (sm_servers m) \<and> (\<forall>e \<in> set (sv_roles (sm_servers m)). fst e = service_id (attributes (snd e)))
     \<and> (\<forall>e \<in> set (mv_roles (sm_clients m)). fst e = service_id (attributes (snd e))
          \<and> host_name_opt (attributes (snd e)) \<noteq> None \<and> process_id_opt (attributes (snd e)) \<noteq> None)"

definition of_process :: "string \<Rightarrow> int \<Rightarrow> u64 \<times> role \<Rightarrow> bool" where
  "of_process host pid e \<longleftrightarrow> host_name (attributes (snd e)) = host \<and> process_id (attributes (snd e)) = pid"

lemma fold_remove_servers:
  "fold (\<lambda>server m. m\<lparr>sm_servers := SV_Remove_key (sm_servers m) (service_id (attributes server))\<rparr>) rs m
     = m\<lparr>sm_servers := (sm_servers m)\<lparr>sv_roles :=
         filter (\<lambda>e. fst e \<notin> (\<lambda>r. service_id (attributes r)) ` set rs) (sv_roles (sm_servers m))\<rparr>\<rparr>"
  by (induction rs arbitrary: m) (auto simp: SV_Remove_key_def um_erase_filter conj_commute intro!: arg_cong)

lemma fold_remove_clients:
  "fold (\<lambda>client m. m\<lparr>sm_clients := MV_Remove_role (sm_clients m) (service_id (attributes client)) client\<rparr>) rs m
     = m\<lparr>sm_clients := (sm_clients m)\<lparr>mv_roles :=
         filter (\<lambda>e. \<forall>r \<in> set rs. \<not> (fst e = service_id (attributes r) \<and> Match (snd e) (attributes r)))
           (mv_roles (sm_clients m))\<rparr>\<rparr>"
  by (induction rs arbitrary: m) (auto simp: MV_Remove_role_def intro!: arg_cong filter_cong)

lemma remove_process_servers:
  assumes "um_ok items" and "\<forall>e \<in> set items. fst e = service_id (attributes (snd e))"
  shows "filter (\<lambda>e. fst e \<notin> (\<lambda>r. service_id (attributes r)) ` set (map snd (filter (of_process host pid) items))) items
    = filter (\<lambda>e. \<not> of_process host pid e) items"
proof (intro filter_cong refl)
  fix e assume e: "e \<in> set items"
  have same: "x = e" if "x \<in> set items" "fst x = fst e" for x
    using assms(1) that e by (metis um_set_iff option.inject prod.collapse)
  have "fst e \<in> (\<lambda>r. service_id (attributes r)) ` set (map snd (filter (of_process host pid) items))
      \<longleftrightarrow> (\<exists>x \<in> set items. of_process host pid x \<and> fst e = fst x)"
    using assms(2) by auto
  also have "\<dots> \<longleftrightarrow> of_process host pid e" using same e by metis
  finally show "fst e \<notin> (\<lambda>r. service_id (attributes r)) ` set (map snd (filter (of_process host pid) items))
      \<longleftrightarrow> \<not> of_process host pid e" by simp
qed

lemma Match_source:
  assumes "Match r a" and "host_name_opt a \<noteq> None" and "process_id_opt a \<noteq> None"
  shows "host_name (attributes r) = host_name a \<and> process_id (attributes r) = process_id a"
  using assms
  by (auto simp: Match_def RoleBase_Match_def RoleWriter_Match_def RoleServer_Match_def
      split: role_class.splits if_splits)

lemma remove_process_clients:
  assumes "\<forall>e \<in> set items. fst e = service_id (attributes (snd e))
      \<and> host_name_opt (attributes (snd e)) \<noteq> None \<and> process_id_opt (attributes (snd e)) \<noteq> None"
  shows "filter (\<lambda>e. \<forall>r \<in> set (map snd (filter (of_process host pid) items)).
      \<not> (fst e = service_id (attributes r) \<and> Match (snd e) (attributes r))) items
    = filter (\<lambda>e. \<not> of_process host pid e) items"
proof (intro filter_cong refl)
  fix e assume e: "e \<in> set items"
  show "(\<forall>r \<in> set (map snd (filter (of_process host pid) items)). \<not> (fst e = service_id (attributes r) \<and> Match (snd e) (attributes r)))
      \<longleftrightarrow> \<not> of_process host pid e"
  proof
    assume none: "\<forall>r \<in> set (map snd (filter (of_process host pid) items)).
      \<not> (fst e = service_id (attributes r) \<and> Match (snd e) (attributes r))"
    show "\<not> of_process host pid e"
    proof
      assume "of_process host pid e"
      with e have "snd e \<in> set (map snd (filter (of_process host pid) items))" unfolding set_map set_filter by blast
      from bspec [OF none this] bspec [OF assms e] show False by simp
    qed
  next
    assume "\<not> of_process host pid e"
    then show "\<forall>r \<in> set (map snd (filter (of_process host pid) items)).
      \<not> (fst e = service_id (attributes r) \<and> Match (snd e) (attributes r))"
      using assms Match_source [of "snd e"] by (auto simp: of_process_def)
  qed
qed

section \<open>Properties\<close>

lemma SM_module_leave:
  assumes "services_ok m" and "is_discovery_started m" and "m' = SM_OnTopoModuleLeave env host pid m"
  shows "sv_roles (sm_servers m') = filter (\<lambda>e. \<not> of_process host pid e) (sv_roles (sm_servers m))
    \<and> mv_roles (sm_clients m') = filter (\<lambda>e. \<not> of_process host pid e) (mv_roles (sm_clients m))
    \<and> map notice (notified m') = map notice (notified m)
        @ leave_notices ROLE_SERVER (map snd (filter (of_process host pid) (sv_roles (sm_servers m)))) m
        @ leave_notices ROLE_CLIENT (map snd (filter (of_process host pid) (mv_roles (sm_clients m)))) m"
proof -
  let ?attr = "RoleAttributes\<lparr>host_name_opt := Some host, process_id_opt := Some pid\<rparr>"
  let ?ss = "map snd (filter (of_process host pid) (sv_roles (sm_servers m)))"
  let ?cs = "map snd (filter (of_process host pid) (mv_roles (sm_clients m)))"
  have ok: "um_ok (sv_roles (sm_servers m))" "\<forall>e \<in> set (sv_roles (sm_servers m)). fst e = service_id (attributes (snd e))"
    "\<forall>e \<in> set (mv_roles (sm_clients m)). fst e = service_id (attributes (snd e))
      \<and> host_name_opt (attributes (snd e)) \<noteq> None \<and> process_id_opt (attributes (snd e)) \<noteq> None"
    using assms(1) by (simp_all add: services_ok_def sv_ok_def)
  have found: "the (snd (SV_Search_attr_roles w ?attr (Some []))) = map snd (filter (of_process host pid) (sv_roles w))"
    "the (snd (MV_Search_attr_roles v ?attr (Some []))) = map snd (filter (of_process host pid) (mv_roles v))" for w v
    by (simp_all add: SV_Search_attr_roles_def MV_Search_attr_roles_def scan_vec_eq Match_module o_def of_process_def [abs_def])
  define m1 where "m1 = fold (\<lambda>server m. m\<lparr>sm_servers := SV_Remove_key (sm_servers m) (service_id (attributes server))\<rparr>) ?ss m"
  define m2 where "m2 = fold (\<lambda>client m. m\<lparr>sm_clients := MV_Remove_role (sm_clients m) (service_id (attributes client)) client\<rparr>) ?cs m1"
  have clients1: "sm_clients m1 = sm_clients m" by (simp add: m1_def fold_remove_servers)
  have m': "m' = fold (send_leave env ROLE_CLIENT) ?cs (fold (send_leave env ROLE_SERVER) ?ss m2)"
    using assms(2) unfolding assms(3) SM_OnTopoModuleLeave_def m2_def m1_def [symmetric]
    by (simp add: Let_def found clients1 flip: m1_def)
  have m2: "sm_servers m2 = (sm_servers m)\<lparr>sv_roles := filter (\<lambda>e. \<not> of_process host pid e) (sv_roles (sm_servers m))\<rparr>"
      "sm_clients m2 = (sm_clients m)\<lparr>mv_roles := filter (\<lambda>e. \<not> of_process host pid e) (mv_roles (sm_clients m))\<rparr>"
    unfolding m2_def m1_def fold_remove_clients fold_remove_servers
    using remove_process_servers [OF ok(1,2)] remove_process_clients [OF ok(3)] by simp_all
  have base: "notified m2 = notified m" "mgr_host_name m2 = mgr_host_name m" "mgr_process_id m2 = mgr_process_id m"
      "mgr_signal m2 = mgr_signal m"
    by (simp_all add: m2_def m1_def fold_remove_clients fold_remove_servers)
  let ?m3 = "fold (send_leave env ROLE_SERVER) ?ss m2"
  have "sm_tables m' = sm_tables m2"
    unfolding m' by (rule sm_more) (simp only: fold_send_leave)
  moreover have "map notice (notified m') = map notice (notified m2) @ leave_notices ROLE_SERVER ?ss m2 @ leave_notices ROLE_CLIENT ?cs ?m3"
    unfolding m' by (simp only: fold_send_leave append_assoc)
  moreover have "leave_notices ROLE_SERVER ?ss m2 = leave_notices ROLE_SERVER ?ss m"
    by (rule leave_notices_cong) (simp_all only: base)
  moreover have "leave_notices ROLE_CLIENT ?cs ?m3 = leave_notices ROLE_CLIENT ?cs m"
    by (rule leave_notices_cong) (simp_all only: base fold_send_leave)
  ultimately show ?thesis using m2 base(1) by simp
qed

text \<open>
  When a process disappears its server and client entries, and no others, are removed, and every
  listener is told once per removed server and then once per removed client.
\<close>

theorem service_module_leave:
  assumes "services_ok m" and "is_discovery_started m" and "m' = SM_OnTopoModuleLeave env host pid m"
  shows "sv_roles (sm_servers m') = filter (\<lambda>e. \<not> of_process host pid e) (sv_roles (sm_servers m))
    \<and> mv_roles (sm_clients m') = filter (\<lambda>e. \<not> of_process host pid e) (mv_roles (sm_clients m))
    \<and> map notice (notified m') = map notice (notified m)
        @ leave_notices ROLE_SERVER (map snd (filter (of_process host pid) (sv_roles (sm_servers m)))) m
        @ leave_notices ROLE_CLIENT (map snd (filter (of_process host pid) (mv_roles (sm_clients m)))) m"
  using assms by (rule SM_module_leave)

definition service_msg :: "operate_type \<Rightarrow> role_type \<Rightarrow> string \<Rightarrow> int \<Rightarrow> change_msg" where
  "service_msg opt rt host pid =
     \<lparr>timestamp_opt = Some 1, change_type_opt = Some CHANGE_SERVICE, operate_type_opt = Some opt, role_type_opt = Some rt,
      role_attr_opt = Some (RoleAttributes\<lparr>host_name_opt := Some host, process_id_opt := Some pid,
        service_name_opt := Some ''add'', service_id_opt := Some 4\<rparr>)\<rparr>"

theorem service_module_leave_witness:
  "mv_roles (sm_clients (SM_OnTopoModuleLeave silent_env ''a'' 1
     ((SM_Dispose (service_msg OPT_JOIN ROLE_CLIENT ''a'' 1) (ServiceManager ''b'' 2))\<lparr>is_discovery_started := True\<rparr>))) = []"
proof -
  define m where "m = (SM_Dispose (service_msg OPT_JOIN ROLE_CLIENT ''a'' 1) (ServiceManager ''b'' 2))\<lparr>is_discovery_started := True\<rparr>"
  have "sm_tables m = sm_tables (SM_Dispose (service_msg OPT_JOIN ROLE_CLIENT ''a'' 1) (ServiceManager ''b'' 2))"
    by (simp add: m_def)
  also have "\<dots> = service_change (service_msg OPT_JOIN ROLE_CLIENT ''a'' 1) (SV_new, MV_new)"
    by (simp only: SM_Dispose_tables) (simp add: ServiceManager_def manager.defs)
  finally have tab: "sv_roles (sm_servers m) = []"
      "mv_roles (sm_clients m) = [(4, role_new RoleServer (role_attr (service_msg OPT_JOIN ROLE_CLIENT ''a'' 1)) 0)]"
    by (simp_all add: service_change_def service_msg_def SV_new_def MV_new_def MV_Add_def)
  then have "services_ok m"
    by (simp add: services_ok_def sv_ok_def service_msg_def role_new_def)
  moreover have "is_discovery_started m" by (simp add: m_def)
  ultimately have "mv_roles (sm_clients (SM_OnTopoModuleLeave silent_env ''a'' 1 m)) = []"
    using service_module_leave [of m _ silent_env "''a''" 1, OF _ _ refl] tab
    by (simp add: service_msg_def role_new_def of_process_def)
  then show ?thesis by (simp add: m_def)
qed

definition server_msg :: "string \<Rightarrow> u64 \<Rightarrow> change_msg" where
  "server_msg service i =
     \<lparr>timestamp_opt = Some 1, change_type_opt = Some CHANGE_SERVICE, operate_type_opt = Some OPT_JOIN,
      role_type_opt = Some ROLE_SERVER,
      role_attr_opt = Some (RoleAttributes\<lparr>service_name_opt := Some service, service_id_opt := Some i\<rparr>)\<rparr>"

lemma register_two_collide:
  "map_option fst (register_names (\<lambda>_. 7) (AtomicHashMap 256) [''add'', ''sub'']) = Some [7, 8]"
proof -
  let ?m0 = "AtomicHashMap 256 :: string atomic_hash_map"
  let ?m1 = "AHM_Set ?m0 7 ''add''"
  have ok: "ahm_ok ?m0" "ahm_ok ?m1" by (simp_all add: AtomicHashMap_ok AHM_Set_ok)
  have get: "AHM_Get ?m1 k = (if k = 7 then Some ''add'' else None)" for k
    by (simp add: AHM_Get_Set ok AtomicHashMap_empty)
  have "register_name (\<lambda>_. 7) ?m0 ''add'' = Some (7, ?m1)"
    using register_name_fresh [OF ok(1), of "\<lambda>_. 7" "''add''"] by (simp add: AtomicHashMap_empty)
  moreover have "register_probe ?m1 ''sub'' 7 = register_probe ?m1 ''sub'' (7 + 1)"
    by (rule register_probe_next [OF ok(2)]) (simp add: probe_stops_def get)
  moreover have "register_probe ?m1 ''sub'' 8 = Some 8"
    by (rule register_probe_stop [OF ok(2)]) (simp add: probe_stops_def get)
  ultimately show ?thesis by (simp add: register_name_def)
qed

text \<open>
  Services are announced under the id the registry gives them but looked up by the raw hash of
  their name. When two service names have the same hash, the second one is registered under the next
  id, and \<open>HasService\<close> denies it although its server has joined.
\<close>

theorem service_lookup_by_hash:
  "map_option fst (register_names (\<lambda>_. 7) (AtomicHashMap 256) [''add'', ''sub'']) = Some [7, 8]
   \<and> SV_Search_key (sm_servers (SM_Dispose (server_msg ''sub'' 8) (ServiceManager ''h'' 1))) 8
   \<and> \<not> HasService (\<lambda>_. 7) (SM_Dispose (server_msg ''sub'' 8) (ServiceManager ''h'' 1)) ''sub''"
proof -
  have "sm_servers (SM_Dispose (server_msg ''sub'' 8) (ServiceManager ''h'' 1))
      = fst (service_change (server_msg ''sub'' 8) (SV_new, MV_new))"
    using SM_Dispose_tables [of "server_msg ''sub'' 8" "ServiceManager ''h'' 1"]
    by (metis fst_conv service_manager.select_convs(1,2) ServiceManager_def manager.extend_def)
  then show ?thesis
    by (simp add: register_two_collide del: register_names.simps)
      (simp add: HasService_def service_change_def server_msg_def SV_Add_def SV_new_def SV_Search_key_def SV_Search_key_ptr_def)
qed

end
