(* ===== verification/Topology_Manager.thy ===== *)
theory Topology_Manager
  imports Node_Manager Channel_Manager Service_Manager
begin

text \<open>
  \<open>service_discovery/topology_manager.{h,cc}\<close>: the owner of the three managers. It joins the RTPS
  network as a participant named \<open>host+pid\<close>, remembers the names of the participants it hears of by
  their guid, and cleans up after one that disappears.

  A \<open>shared_ptr\<close> to a manager is an option, \<open>None\<close> the null pointer; an operation that would
  dereference a null pointer returns \<open>None\<close>.
\<close>

datatype part_status = DISCOVERED_RTPSPARTICIPANT | REMOVED_RTPSPARTICIPANT | DROPPED_RTPSPARTICIPANT | OTHER_STATUS

record part_info =
  pi_guid :: nat
  pi_status :: part_status
  pi_name :: string

record topology_manager =
  tm_init :: bool
  tm_nodes :: "node_manager option"
  tm_channels :: "channel_manager option"
  tm_services :: "service_manager option"
  tm_participant :: "string option"
  tm_listener :: bool
  tm_signal :: "nat signal"
  tm_names :: "(nat, string) umap"
  tm_notified :: "(nat \<times> change_msg) list"

definition ParseParticipantName :: "string \<Rightarrow> (string \<times> int) option" where
  "ParseParticipantName participant_name =
     (case find_char (CHR ''+'') participant_name of
        None \<Rightarrow> None
      | Some pos \<Rightarrow>
          (case stoi (drop (pos + 1) participant_name) of
             None \<Rightarrow> None
           | Some pid \<Rightarrow> Some (take pos participant_name, pid)))"

text \<open>\<open>now\<close> is the reading of the clock.\<close>

definition TM_Convert :: "u64 \<Rightarrow> part_info \<Rightarrow> topology_manager \<Rightarrow> change_msg option \<times> topology_manager" where
  "TM_Convert now info t =
     (let (participant_name, opt_type, t1) =
            (case pi_status info of
               DISCOVERED_RTPSPARTICIPANT \<Rightarrow>
                 (pi_name info, OPT_JOIN, t\<lparr>tm_names := um_put (pi_guid info) (pi_name info) (tm_names t)\<rparr>)
             | OTHER_STATUS \<Rightarrow> ([], OPT_JOIN, t)
             | _ \<Rightarrow>
                 (case um_find (tm_names t) (pi_guid info) of
                    Some nm \<Rightarrow> (nm, OPT_LEAVE, t\<lparr>tm_names := um_erase (pi_guid info) (tm_names t)\<rparr>)
                  | None \<Rightarrow> ([], OPT_LEAVE, t)))
      in case ParseParticipantName participant_name of
           None \<Rightarrow> (None, t1)
         | Some (host, pid) \<Rightarrow>
             (Some \<lparr>timestamp_opt = Some now, change_type_opt = Some CHANGE_PARTICIPANT, operate_type_opt = Some opt_type,
                    role_type_opt = Some ROLE_PARTICIPANT,
                    role_attr_opt = Some (RoleAttributes\<lparr>host_name_opt := Some host, process_id_opt := Some pid\<rparr>)\<rparr>,
              t1))"

definition TM_notify :: "change_msg \<Rightarrow> topology_manager \<Rightarrow> topology_manager" where
  "TM_notify msg t =
     (let (s, log) = Signal_call record_call msg (tm_signal t, tm_notified t)
      in t\<lparr>tm_signal := s, tm_notified := log\<rparr>)"

definition OnParticipantChange :: "rtps_env \<Rightarrow> u64 \<Rightarrow> part_info \<Rightarrow> topology_manager \<Rightarrow> topology_manager option" where
  "OnParticipantChange env now info t =
     (case TM_Convert now info t of
        (None, t1) \<Rightarrow> Some t1
      | (Some msg, t1) \<Rightarrow>
          if \<not> tm_init t1 then Some t1
          else if operate_type msg = OPT_LEAVE
          then (case (tm_nodes t1, tm_channels t1, tm_services t1) of
                  (Some nodes, Some channels, Some services) \<Rightarrow>
                    let host = host_name (role_attr msg); pid = process_id (role_attr msg)
                    in Some (TM_notify msg (t1\<lparr>tm_nodes := Some (NM_OnTopoModuleLeave env host pid nodes),
                         tm_channels := Some (CM_OnTopoModuleLeave env host pid channels),
                         tm_services := Some (SM_OnTopoModuleLeave env host pid services)\<rparr>))
                | _ \<Rightarrow> None)
          else Some (TM_notify msg t1))"

definition CreateParticipant :: "string \<Rightarrow> int \<Rightarrow> topology_manager \<Rightarrow> bool \<times> topology_manager" where
  "CreateParticipant host pid t =
     (let participant_name = host @ ''+'' @ int_to_string pid
      in (True, t\<lparr>tm_listener := True, tm_participant := Some participant_name\<rparr>))"

text \<open>\<open>part_ok\<close> tells whether the middleware gave the participant a handle.\<close>

definition TM_start :: "rtps_env \<Rightarrow> bool \<Rightarrow> 'a manager_scheme option \<Rightarrow> bool \<times> 'a manager_scheme option" where
  "TM_start env part_ok mo =
     (case mo of None \<Rightarrow> (False, None) | Some m \<Rightarrow> let (ok, m') = StartDiscovery env part_ok m in (ok, Some m'))"

definition TM_Init :: "rtps_env \<Rightarrow> bool \<Rightarrow> string \<Rightarrow> int \<Rightarrow> topology_manager \<Rightarrow> bool \<times> topology_manager" where
  "TM_Init env part_ok host pid t =
     (if tm_init t then (True, t)
      else let t1 = t\<lparr>tm_init := True, tm_nodes := Some (NodeManager host pid),
                      tm_channels := Some (ChannelManager host pid), tm_services := Some (ServiceManager host pid)\<rparr>;
               t2 = snd (CreateParticipant host pid t1);
               (ok_n, nodes) = TM_start env part_ok (tm_nodes t2);
               (ok_c, channels) = (if ok_n then TM_start env part_ok (tm_channels t2) else (False, tm_channels t2));
               (ok_s, services) = (if ok_c then TM_start env part_ok (tm_services t2) else (False, tm_services t2))
           in if \<not> (ok_n \<and> ok_c \<and> ok_s)
              then (False, t2\<lparr>tm_participant := None, tm_listener := False, tm_nodes := None, tm_channels := None,
                              tm_services := None, tm_init := False\<rparr>)
              else (True, t2\<lparr>tm_nodes := nodes, tm_channels := channels, tm_services := services\<rparr>))"

definition TopologyManager :: "rtps_env \<Rightarrow> bool \<Rightarrow> string \<Rightarrow> int \<Rightarrow> topology_manager" where
  "TopologyManager env part_ok host pid = snd (TM_Init env part_ok host pid
     \<lparr>tm_init = False, tm_nodes = None, tm_channels = None, tm_services = None, tm_participant = None,
      tm_listener = False, tm_signal = Signal_new, tm_names = [], tm_notified = []\<rparr>)"

definition TM_Shutdown :: "topology_manager \<Rightarrow> topology_manager option" where
  "TM_Shutdown t =
     (if \<not> tm_init t then Some t
      else case (tm_nodes t, tm_channels t, tm_services t, tm_participant t) of
             (Some nodes, Some channels, Some services, Some participant) \<Rightarrow>
               Some (t\<lparr>tm_init := False, tm_nodes := Some (Shutdown nodes), tm_channels := Some (Shutdown channels),
                       tm_services := Some (Shutdown services), tm_listener := False,
                       tm_signal := DisconnectAllSlots (tm_signal t)\<rparr>)
           | _ \<Rightarrow> None)"

definition TM_AddChangeListener :: "nat \<Rightarrow> topology_manager \<Rightarrow> connection \<times> topology_manager" where
  "TM_AddChangeListener func t =
     (let (conn, s) = Connect (Some func) (tm_signal t) in (conn, t\<lparr>tm_signal := s\<rparr>))"

definition TM_RemoveChangeListener :: "connection \<Rightarrow> topology_manager \<Rightarrow> topology_manager" where
  "TM_RemoveChangeListener conn t = t\<lparr>tm_signal := snd (Connection_Disconnect conn (tm_signal t))\<rparr>"

section \<open>Life cycle\<close>

definition ready :: "'a manager_scheme option \<Rightarrow> bool" where
  "ready mo \<longleftrightarrow> (\<exists>m. mo = Some m \<and> is_discovery_started m \<and> publisher m \<and> subscriber m \<and> listener m \<and> \<not> is_shutdown m)"

definition tm_ok :: "topology_manager \<Rightarrow> bool" where
  "tm_ok t \<longleftrightarrow> (tm_init t \<longrightarrow> tm_nodes t \<noteq> None \<and> tm_channels t \<noteq> None \<and> tm_services t \<noteq> None \<and> tm_participant t \<noteq> None)"

lemma TM_Convert_frame:
  assumes "TM_Convert now info t = (msg, t1)"
  shows "tm_init t1 = tm_init t" "tm_nodes t1 = tm_nodes t" "tm_channels t1 = tm_channels t"
    "tm_services t1 = tm_services t" "tm_participant t1 = tm_participant t"
proof -
  have "\<exists>n. t1 = t\<lparr>tm_names := n\<rparr>"
  proof (cases "pi_status info")
    case DISCOVERED_RTPSPARTICIPANT
    then show ?thesis using assms by (auto simp: TM_Convert_def Let_def split: option.splits prod.splits)
  next
    case OTHER_STATUS
    then have "t1 = t" using assms by (auto simp: TM_Convert_def Let_def split: option.splits prod.splits)
    then have "t1 = t\<lparr>tm_names := tm_names t\<rparr>" by simp
    then show ?thesis by blast
  next
    case REMOVED_RTPSPARTICIPANT
    then show ?thesis using assms
      by (cases "um_find (tm_names t) (pi_guid info)")
        (auto simp: TM_Convert_def Let_def split: option.splits prod.splits intro: exI [of _ "tm_names t"])
  next
    case DROPPED_RTPSPARTICIPANT
    then show ?thesis using assms
      by (cases "um_find (tm_names t) (pi_guid info)")
        (auto simp: TM_Convert_def Let_def split: option.splits prod.splits intro: exI [of _ "tm_names t"])
  qed
  then show "tm_init t1 = tm_init t" "tm_nodes t1 = tm_nodes t" "tm_channels t1 = tm_channels t"
    "tm_services t1 = tm_services t" "tm_participant t1 = tm_participant t" by auto
qed

lemma TM_notify_frame [simp]:
  "tm_init (TM_notify msg t) = tm_init t" "tm_nodes (TM_notify msg t) = tm_nodes t"
  "tm_channels (TM_notify msg t) = tm_channels t" "tm_services (TM_notify msg t) = tm_services t"
  "tm_participant (TM_notify msg t) = tm_participant t"
  by (simp_all add: TM_notify_def split: prod.split)

lemma OnParticipantChange_ok:
  assumes "tm_ok t"
  shows "\<exists>t'. OnParticipantChange env now info t = Some t' \<and> tm_ok t' \<and> tm_init t' = tm_init t"
proof -
  obtain msg t1 where conv: "TM_Convert now info t = (msg, t1)" by fastforce
  note frame = TM_Convert_frame [OF conv]
  show ?thesis
    using assms by (cases msg) (auto simp: OnParticipantChange_def conv tm_ok_def frame split: option.splits)
qed

lemma TM_notify_names [simp]: "tm_names (TM_notify msg t) = tm_names t"
  by (simp add: TM_notify_def split: prod.split)

lemma StartDiscovery_ready:
  assumes "\<not> is_discovery_started m" and "\<not> is_shutdown m"
  shows "ready (Some (snd (StartDiscovery env part_ok m))) = fst (StartDiscovery env part_ok m)"
    "TM_start env part_ok (Some m) = (fst (StartDiscovery env part_ok m), Some (snd (StartDiscovery env part_ok m)))"
  using assms
  by (auto simp: TM_start_def ready_def StartDiscovery_def StopDiscovery_def CreatePublisher_def CreateSubscriber_def
      Let_def case_prod_beta)

text \<open>The events of a topology manager: participant changes, shutdown, initialisation, listeners.\<close>

inductive tm_step :: "topology_manager \<Rightarrow> topology_manager \<Rightarrow> bool" where
  step_participant: "OnParticipantChange env now info t = Some t' \<Longrightarrow> tm_step t t'"
| step_shutdown: "TM_Shutdown t = Some t' \<Longrightarrow> tm_step t t'"
| step_init: "tm_step t (snd (TM_Init env part_ok host pid t))"
| step_listen: "tm_step t (snd (TM_AddChangeListener func t))"
| step_unlisten: "tm_step t (TM_RemoveChangeListener conn t)"

definition tm_start_state :: "topology_manager \<Rightarrow> bool" where
  "tm_start_state t \<longleftrightarrow> (\<exists>env part_ok host pid. t = TopologyManager env part_ok host pid)"

lemma TM_Init_ok: "tm_ok t \<Longrightarrow> tm_ok (snd (TM_Init env part_ok host pid t))"
  by (auto simp: tm_ok_def TM_Init_def CreateParticipant_def TM_start_def Let_def case_prod_beta split: if_splits)

lemma TM_Shutdown_ok: "tm_ok t \<Longrightarrow> \<exists>t'. TM_Shutdown t = Some t' \<and> tm_ok t' \<and> \<not> tm_init t'"
  by (auto simp: tm_ok_def TM_Shutdown_def)

interpretation topo_sys: invariant_system tm_start_state tm_step tm_ok
proof (unfold_locales, goal_cases)
  case (1 t)
  then obtain env part_ok host pid where t: "t = TopologyManager env part_ok host pid"
    by (auto simp: tm_start_state_def)
  show ?case unfolding t TopologyManager_def by (rule TM_Init_ok) (simp add: tm_ok_def)
next
  case (2 t t')
  from 2(2,1) show ?case
  proof (cases rule: tm_step.cases)
    case (step_participant env now info)
    then show ?thesis using OnParticipantChange_ok [OF 2(1), of env now info] by auto
  next
    case step_shutdown
    then show ?thesis using TM_Shutdown_ok [OF 2(1)] by auto
  next
    case (step_init env part_ok host pid)
    then show ?thesis using TM_Init_ok [OF 2(1)] by simp
  next
    case (step_listen func)
    then show ?thesis using 2(1) by (simp add: tm_ok_def TM_AddChangeListener_def case_prod_beta)
  next
    case (step_unlisten conn)
    then show ?thesis using 2(1) by (simp add: tm_ok_def TM_RemoveChangeListener_def)
  qed
qed

section \<open>Participants\<close>

lemma parse_own_name:
  assumes "CHR ''+'' \<notin> set host" and "- 2147483648 \<le> pid" and "pid \<le> 2147483647"
  shows "ParseParticipantName (host @ ''+'' @ int_to_string pid) = Some (host, pid)"
  using find_char_split [OF assms(1), of "int_to_string pid"] stoi_int_to_string [OF assms(2,3)]
  by (simp add: ParseParticipantName_def)

lemma participant_joins:
  assumes "pi_status info = DISCOVERED_RTPSPARTICIPANT"
  shows "\<exists>t'. OnParticipantChange env now info t = Some t' \<and> tm_init t' = tm_init t \<and> tm_nodes t' = tm_nodes t
    \<and> tm_channels t' = tm_channels t \<and> tm_services t' = tm_services t
    \<and> um_find (tm_names t') (pi_guid info) = Some (pi_name info)"
  using assms
  by (auto simp: OnParticipantChange_def TM_Convert_def Let_def um_simps split: option.split prod.split)

lemma participant_leaves:
  assumes "pi_status info \<in> {REMOVED_RTPSPARTICIPANT, DROPPED_RTPSPARTICIPANT}" and "tm_init t"
    and "um_find (tm_names t) (pi_guid info) = Some nm" and "ParseParticipantName nm = Some (host, pid)"
    and "tm_nodes t = Some nodes" and "tm_channels t = Some channels" and "tm_services t = Some services"
  shows "\<exists>t'. OnParticipantChange env now info t = Some t'
    \<and> tm_nodes t' = Some (NM_OnTopoModuleLeave env host pid nodes)
    \<and> tm_channels t' = Some (CM_OnTopoModuleLeave env host pid channels)
    \<and> tm_services t' = Some (SM_OnTopoModuleLeave env host pid services)
    \<and> um_find (tm_names t') (pi_guid info) = None"
  using assms by (auto simp: OnParticipantChange_def TM_Convert_def Let_def um_simps)

section \<open>Properties\<close>

text \<open>
  The name a process gives itself on the network is understood by its peers: parsing the
  participant name that \<open>CreateParticipant\<close> builds gives back the host name and the process id,
  provided the host name has no plus sign.
\<close>

theorem participant_name_roundtrip:
  assumes "CHR ''+'' \<notin> set host" and "- 2147483648 \<le> pid" and "pid \<le> 2147483647"
  shows "\<exists>nm. tm_participant (snd (CreateParticipant host pid t)) = Some nm \<and> ParseParticipantName nm = Some (host, pid)"
  using parse_own_name [OF assms] by (simp add: CreateParticipant_def)

theorem participant_name_roundtrip_witness:
  "\<exists>nm. tm_participant (snd (CreateParticipant ''car'' 4711 (TopologyManager silent_env True ''car'' 4711))) = Some nm
     \<and> ParseParticipantName nm = Some (''car'', 4711)"
  by (rule participant_name_roundtrip) simp_all

text \<open>
  C35: initialisation is all or nothing. It succeeds exactly when all three managers can start
  discovery, and then all of them are discovering with their publisher, subscriber and listener in
  place; otherwise the topology manager is left uninitialised, with no manager and no participant.
\<close>

theorem topology_init_all_or_nothing:
  assumes "\<not> tm_init t" and "TM_Init env part_ok host pid t = (ok, t')"
  shows "if ok then tm_init t' \<and> ready (tm_nodes t') \<and> ready (tm_channels t') \<and> ready (tm_services t')
        \<and> tm_participant t' = Some (host @ ''+'' @ int_to_string pid)
     else \<not> tm_init t' \<and> tm_nodes t' = None \<and> tm_channels t' = None \<and> tm_services t' = None
        \<and> tm_participant t' = None \<and> \<not> tm_listener t'"
proof -
  have fresh: "\<not> is_discovery_started (NodeManager host pid)" "\<not> is_shutdown (NodeManager host pid)"
    "\<not> is_discovery_started (ChannelManager host pid)" "\<not> is_shutdown (ChannelManager host pid)"
    "\<not> is_discovery_started (ServiceManager host pid)" "\<not> is_shutdown (ServiceManager host pid)"
    by (simp_all add: NodeManager_def ChannelManager_def ServiceManager_def manager.defs Manager_def)
  note start = StartDiscovery_ready [OF fresh(1,2), of env part_ok] StartDiscovery_ready [OF fresh(3,4), of env part_ok]
    StartDiscovery_ready [OF fresh(5,6), of env part_ok]
  let ?n = "fst (StartDiscovery env part_ok (NodeManager host pid))"
    and ?c = "fst (StartDiscovery env part_ok (ChannelManager host pid))"
    and ?s = "fst (StartDiscovery env part_ok (ServiceManager host pid))"
  have res: "ok = fst (TM_Init env part_ok host pid t)" "t' = snd (TM_Init env part_ok host pid t)"
    using assms(2) by simp_all
  show ?thesis unfolding res
    using assms(1) by (cases ?n; cases ?c; cases ?s)
      (simp_all add: TM_Init_def CreateParticipant_def Let_def case_prod_beta start)
qed

definition tm_unset :: topology_manager where
  "tm_unset = \<lparr>tm_init = False, tm_nodes = None, tm_channels = None, tm_services = None, tm_participant = None,
     tm_listener = False, tm_signal = Signal_new, tm_names = [], tm_notified = []\<rparr>"

theorem topology_init_all_or_nothing_witness:
  "\<exists>t'. TM_Init silent_env True ''h'' 1 tm_unset = (True, t') \<and> ready (tm_channels t')"
proof -
  have "\<not> tm_init tm_unset" by (simp add: tm_unset_def)
  moreover have "fst (TM_Init silent_env True ''h'' 1 tm_unset)" by code_simp
  then obtain t' where "TM_Init silent_env True ''h'' 1 tm_unset = (True, t')" by (metis prod.collapse)
  ultimately show ?thesis using topology_init_all_or_nothing [of tm_unset silent_env True "''h''" 1 True t'] by auto
qed




definition busy_topology :: topology_manager where
  "busy_topology = tm_unset\<lparr>tm_init := True,
     tm_nodes := Some ((NM_Dispose (node_msg OPT_JOIN ''h'' 1 20) (NodeManager ''z'' 9))\<lparr>is_discovery_started := True\<rparr>),
     tm_channels := Some ((fold CM_Dispose chat_msgs (ChannelManager ''z'' 9))\<lparr>is_discovery_started := True\<rparr>),
     tm_services := Some ((ServiceManager ''z'' 9)\<lparr>is_discovery_started := True\<rparr>)\<rparr>"


end
