(* ===== verification/Cache_Buffer.thy ===== *)
theory Cache_Buffer
  imports Cyber_Prelude
begin

text \<open>
  \<open>data/cache_buffer.h\<close> and \<open>data/channel_buffer.h\<close>: the ring in which a channel keeps its recent
  messages, and the reader's view of it. Positions are 64-bit counters that start at 1 and are
  reduced modulo the capacity, one more than the number of messages kept.

  The mutex makes each operation atomic. A fusion callback diverts \<open>Fill\<close>; which one is installed is
  the field \<open>cb_callback\<close> and what it does is the argument \<open>run\<close> of \<open>Fill\<close>.
\<close>

section \<open>The ring\<close>

record ('a, 'cb) cache_buffer =
  cb_head :: u64
  cb_tail :: u64
  cb_capacity :: u64
  cb_buffer :: "'a list"
  cb_callback :: "'cb option"

text \<open>\<open>T_default\<close> is the default-constructed value that \<open>resize\<close> fills the vector with.\<close>

definition CacheBuffer :: "'a \<Rightarrow> u64 \<Rightarrow> ('a, 'cb) cache_buffer" where
  "CacheBuffer T_default sz =
     \<lparr>cb_head = 0, cb_tail = 0, cb_capacity = sz + 1, cb_buffer = replicate (unat (sz + 1)) T_default,
      cb_callback = None\<rparr>"

definition CacheBuffer_copy :: "('a, 'cb) cache_buffer \<Rightarrow> ('a, 'cb) cache_buffer" where
  "CacheBuffer_copy rhs =
     \<lparr>cb_head = cb_head rhs, cb_tail = cb_tail rhs, cb_capacity = cb_capacity rhs, cb_buffer = cb_buffer rhs,
      cb_callback = cb_callback rhs\<rparr>"

definition GetIndex :: "('a, 'cb) cache_buffer \<Rightarrow> u64 \<Rightarrow> nat" where
  "GetIndex b pos = unat (pos mod cb_capacity b)"

definition CB_at :: "('a, 'cb) cache_buffer \<Rightarrow> u64 \<Rightarrow> 'a" where
  "CB_at b pos = cb_buffer b ! GetIndex b pos"

definition CB_Head :: "('a, 'cb) cache_buffer \<Rightarrow> u64" where
  "CB_Head b = cb_head b + 1"

definition CB_Tail :: "('a, 'cb) cache_buffer \<Rightarrow> u64" where
  "CB_Tail b = cb_tail b"

definition CB_Size :: "('a, 'cb) cache_buffer \<Rightarrow> u64" where
  "CB_Size b = cb_tail b - cb_head b"

definition CB_Front :: "('a, 'cb) cache_buffer \<Rightarrow> 'a" where
  "CB_Front b = cb_buffer b ! GetIndex b (cb_head b + 1)"

definition CB_Back :: "('a, 'cb) cache_buffer \<Rightarrow> 'a" where
  "CB_Back b = cb_buffer b ! GetIndex b (cb_tail b)"

definition CB_Empty :: "('a, 'cb) cache_buffer \<Rightarrow> bool" where
  "CB_Empty b = (cb_tail b = 0)"

definition CB_Full :: "('a, 'cb) cache_buffer \<Rightarrow> bool" where
  "CB_Full b = (cb_capacity b - 1 = cb_tail b - cb_head b)"

definition SetFusionCallback :: "'cb \<Rightarrow> ('a, 'cb) cache_buffer \<Rightarrow> ('a, 'cb) cache_buffer" where
  "SetFusionCallback callback b = b\<lparr>cb_callback := Some callback\<rparr>"

definition ring_put :: "'a \<Rightarrow> ('a, 'cb) cache_buffer \<Rightarrow> ('a, 'cb) cache_buffer" where
  "ring_put v b =
     (if CB_Full b
      then b\<lparr>cb_buffer := (cb_buffer b)[GetIndex b (cb_head b) := v], cb_head := cb_head b + 1, cb_tail := cb_tail b + 1\<rparr>
      else b\<lparr>cb_buffer := (cb_buffer b)[GetIndex b (cb_tail b + 1) := v], cb_tail := cb_tail b + 1\<rparr>)"

definition Fill :: "('cb \<Rightarrow> 'a \<Rightarrow> 'w \<Rightarrow> 'w) \<Rightarrow> 'a \<Rightarrow> ('a, 'cb) cache_buffer \<times> 'w \<Rightarrow> ('a, 'cb) cache_buffer \<times> 'w" where
  "Fill run v bw =
     (case cb_callback (fst bw) of
        Some callback \<Rightarrow> (fst bw, run callback v (snd bw))
      | None \<Rightarrow> (ring_put v (fst bw), snd bw))"

section \<open>The reader\<close>

record ('a, 'cb) channel_buffer =
  ch_channel_id :: u64
  ch_buffer :: "('a, 'cb) cache_buffer"

text \<open>\<open>Fetch\<close> returns the result, the updated index and, on success, the message.\<close>

definition Fetch :: "('a, 'cb) channel_buffer \<Rightarrow> u64 \<Rightarrow> bool \<times> u64 \<times> 'a option" where
  "Fetch c index =
     (let b = ch_buffer c
      in if CB_Empty b then (False, index, None)
         else if index = 0 then (True, CB_Tail b, Some (CB_at b (CB_Tail b)))
         else if index = CB_Tail b + 1 then (False, index, None)
         else if index < CB_Head b then (True, CB_Tail b, Some (CB_at b (CB_Tail b)))
         else (True, index, Some (CB_at b index)))"

definition Latest :: "('a, 'cb) channel_buffer \<Rightarrow> 'a option" where
  "Latest c = (if CB_Empty (ch_buffer c) then None else Some (CB_Back (ch_buffer c)))"

text \<open>The copying loop; a position counter that wraps around would make it run forever.\<close>

partial_function (option) fetch_loop :: "('a, 'cb) cache_buffer \<Rightarrow> u64 \<Rightarrow> 'a list \<Rightarrow> 'a list option" where
  "fetch_loop b index vec =
     (if index \<le> CB_Tail b then fetch_loop b (index + 1) (vec @ [CB_at b index]) else Some vec)"

definition FetchMulti :: "('a, 'cb) channel_buffer \<Rightarrow> u64 \<Rightarrow> 'a list \<Rightarrow> (bool \<times> 'a list) option" where
  "FetchMulti c fetch_size vec =
     (let b = ch_buffer c
      in if CB_Empty b then Some (False, vec)
         else let num = min (CB_Size b) fetch_size
              in map_option (Pair True) (fetch_loop b (CB_Tail b - num + 1) vec))"

section \<open>The ring holds a window of the history\<close>

text \<open>\<open>history\<close> lists every message put so far; position \<open>p\<close> is the \<open>p\<close>-th of them.\<close>

definition window :: "u64 \<Rightarrow> 'a list \<Rightarrow> ('a, 'cb) cache_buffer \<Rightarrow> bool" where
  "window sz history b \<longleftrightarrow> cb_capacity b = sz + 1 \<and> sz + 1 \<noteq> 0 \<and> length (cb_buffer b) = unat (sz + 1)
     \<and> length history < 18446744073709551616 \<and> unat (cb_tail b) = length history
     \<and> unat (cb_head b) = length history - unat sz
     \<and> (\<forall>p. length history - unat sz \<le> p \<and> p < length history \<longrightarrow>
          cb_buffer b ! (Suc p mod (unat sz + 1)) = history ! p)"

lemma unat_size_inc: "sz + 1 \<noteq> (0 :: u64) \<Longrightarrow> unat (sz + 1) = unat sz + 1"
  by (metis Suc_eq_plus1 unatSuc add.commute)

lemma window_new: "sz + 1 \<noteq> 0 \<Longrightarrow> window sz [] (CacheBuffer d sz)"
  by (simp add: window_def CacheBuffer_def)

lemma GetIndex_nat: "cb_capacity b = sz + 1 \<Longrightarrow> sz + 1 \<noteq> 0 \<Longrightarrow> GetIndex b pos = unat pos mod (unat sz + 1)"
  by (simp add: GetIndex_def unat_mod unat_size_inc)

lemma window_at:
  assumes "window sz history b" and "unat (cb_head b) < unat pos" and "unat pos \<le> unat (cb_tail b)"
  shows "CB_at b pos = history ! (unat pos - 1)"
proof -
  have "length history - unat sz \<le> unat pos - 1" "unat pos - 1 < length history" "Suc (unat pos - 1) = unat pos"
    using assms by (auto simp: window_def)
  then show ?thesis
    using assms(1) by (auto simp: window_def CB_at_def GetIndex_nat)
qed

lemma mod_window_distinct:
  assumes "Suc n - s \<le> p" and "p < (n :: nat)"
  shows "Suc p mod (s + 1) \<noteq> Suc n mod (s + 1)"
proof
  assume "Suc p mod (s + 1) = Suc n mod (s + 1)"
  then have "(s + 1) dvd (Suc n - Suc p)"
    using mod_eq_dvd_iff_nat [of "Suc p" "Suc n" "s + 1"] assms by simp
  moreover have "Suc n - Suc p < s + 1" "0 < Suc n - Suc p" using assms by auto
  ultimately show False using nat_dvd_not_less by blast
qed

lemma window_full:
  assumes "window sz history b"
  shows "CB_Full b \<longleftrightarrow> unat sz \<le> length history"
proof -
  have "unat (cb_tail b - cb_head b) = length history - (length history - unat sz)"
    using assms by (subst unat_u64_sub) (auto simp: window_def)
  moreover have "cb_capacity b - 1 = sz" using assms by (simp add: window_def)
  ultimately show ?thesis by (auto simp: CB_Full_def u64_eq_iff)
qed

lemma window_put:
  assumes "window sz history b" and "length history + 1 < 18446744073709551616"
  shows "window sz (history @ [v]) (ring_put v b)"
proof -
  let ?n = "length history" and ?s = "unat sz"
  have cap: "cb_capacity b = sz + 1" "sz + 1 \<noteq> 0" and len: "length (cb_buffer b) = ?s + 1"
    and tail: "unat (cb_tail b) = ?n" and head: "unat (cb_head b) = ?n - ?s"
    and old: "\<And>p. ?n - ?s \<le> p \<Longrightarrow> p < ?n \<Longrightarrow> cb_buffer b ! (Suc p mod (?s + 1)) = history ! p"
    using assms(1) by (auto simp: window_def unat_size_inc)
  have tail1: "unat (cb_tail b + 1) = ?n + 1" using assms(2) tail by (simp add: u64_simps)
  have head1: "unat (cb_head b + 1) = ?n - ?s + 1" using assms(2) head by (simp add: u64_simps)
  have slot: "cb_buffer (ring_put v b) = (cb_buffer b)[Suc ?n mod (?s + 1) := v]"
  proof (cases "CB_Full b")
    case True
    then have le: "?s \<le> ?n" using window_full [OF assms(1)] by simp
    then have "Suc ?n = (?n - ?s) + (?s + 1)" by simp
    then have "(?n - ?s) mod (?s + 1) = Suc ?n mod (?s + 1)" by (metis mod_add_self2)
    with True show ?thesis by (simp add: ring_put_def GetIndex_nat [OF cap] head)
  next
    case False
    then show ?thesis by (simp add: ring_put_def GetIndex_nat [OF cap] tail1)
  qed
  have "cb_buffer (ring_put v b) ! (Suc p mod (?s + 1)) = (history @ [v]) ! p"
    if "Suc ?n - ?s \<le> p" "p < Suc ?n" for p
  proof (cases "p = ?n")
    case True
    have "Suc ?n mod (?s + 1) < ?s + 1" by (rule mod_less_divisor) simp
    then show ?thesis using True by (simp add: slot len nth_append)
  next
    case False
    then have "p < ?n" using that by simp
    then show ?thesis
      using mod_window_distinct [OF that(1)] old [of p] that(1) by (simp add: slot nth_append)
  qed
  moreover have "unat (cb_tail (ring_put v b)) = Suc ?n" "unat (cb_head (ring_put v b)) = Suc ?n - ?s"
    using window_full [OF assms(1)] tail1 head1 head by (auto simp: ring_put_def)
  ultimately show ?thesis
    using assms(2) cap len by (simp add: window_def slot unat_size_inc) (simp add: ring_put_def)
qed

lemma window_fold:
  assumes "window sz history b" and "length (history @ vs) < 18446744073709551616"
  shows "window sz (history @ vs) (fold ring_put vs b)"
  using assms
proof (induction vs arbitrary: history b)
  case (Cons v vs)
  have "window sz (history @ [v]) (ring_put v b)" using Cons.prems by (intro window_put) auto
  from Cons.IH [OF this] Cons.prems(2) show ?case by simp
qed simp

lemma window_size:
  assumes "window sz history b"
  shows "unat (CB_Size b) = min (length history) (unat sz)" "CB_Empty b \<longleftrightarrow> history = []"
proof -
  show "unat (CB_Size b) = min (length history) (unat sz)"
    using assms unfolding CB_Size_def by (subst unat_u64_sub) (auto simp: window_def)
  show "CB_Empty b \<longleftrightarrow> history = []"
    using assms by (auto simp: CB_Empty_def u64_eq_iff window_def)
qed

lemma window_index_bound: "window sz history b \<Longrightarrow> GetIndex b pos < length (cb_buffer b)"
  by (auto simp: window_def GetIndex_nat unat_size_inc intro: mod_less_divisor)

lemma window_back:
  assumes "window sz history b" and "sz \<noteq> 0" and "history \<noteq> []"
  shows "CB_Back b = last history" "CB_at b (CB_Tail b) = last history"
proof -
  have "unat sz \<noteq> 0" using assms(2) by (simp add: unat_eq_0)
  then have "unat (cb_head b) < unat (cb_tail b)" using assms(1,3) by (auto simp: window_def)
  from window_at [OF assms(1) this] show "CB_at b (CB_Tail b) = last history"
    using assms(1,3) by (simp add: CB_Tail_def window_def last_conv_nth)
  then show "CB_Back b = last history" by (simp add: CB_Back_def CB_at_def CB_Tail_def)
qed

section \<open>Reading\<close>

text \<open>The position a fetch with index \<open>i\<close> delivers when \<open>n\<close> messages were put and \<open>s\<close> are kept.\<close>

definition fetch_position :: "nat \<Rightarrow> nat \<Rightarrow> nat \<Rightarrow> nat option" where
  "fetch_position s n i =
     (if n = 0 \<or> i = n + 1 then None else if i = 0 \<or> i \<le> n - s then Some n else Some i)"

lemma Fetch_spec:
  assumes "window sz history b" and "sz \<noteq> 0" and "length history + 1 < 18446744073709551616"
    and "unat index \<le> length history + 1" and "ch_buffer c = b"
  shows "Fetch c index = (case fetch_position (unat sz) (length history) (unat index) of
      None \<Rightarrow> (False, index, None)
    | Some p \<Rightarrow> (True, of_nat p, Some (history ! (p - 1))))"
proof (cases "history = []")
  case True
  then show ?thesis
    using window_size(2) [OF assms(1)] by (simp add: Fetch_def assms(5) fetch_position_def)
next
  case False
  let ?n = "length history" and ?s = "unat sz"
  have tail: "unat (cb_tail b) = ?n" "unat (cb_tail b + 1) = ?n + 1" and head: "unat (cb_head b + 1) = ?n - ?s + 1"
    using assms(1,3) by (auto simp: window_def u64_simps)
  have ne: "\<not> CB_Empty b" using window_size(2) [OF assms(1)] False by simp
  have newest: "CB_at b (CB_Tail b) = history ! (?n - 1)" using window_back(2) [OF assms(1,2) False] by (simp add: last_conv_nth False)
  have n: "(of_nat ?n :: u64) = CB_Tail b" using assms(3) by (simp add: u64_eq_iff CB_Tail_def tail u64_simps)
  consider (fresh) "unat index = 0" | (caught_up) "unat index = ?n + 1" | (late) "unat index \<noteq> 0" "unat index \<le> ?n - ?s"
    | (inside) "unat index \<noteq> 0" "?n - ?s < unat index" "unat index \<le> ?n"
    using assms(4) by linarith
  then show ?thesis
  proof cases
    case fresh
    then have "index = 0" by (simp add: u64_eq_iff)
    then show ?thesis using False by (simp add: Fetch_def assms(5) ne fetch_position_def newest n)
  next
    case caught_up
    then have "index = CB_Tail b + 1" by (simp add: u64_eq_iff CB_Tail_def tail)
    then show ?thesis using False caught_up by (simp add: Fetch_def assms(5) ne fetch_position_def u64_eq_iff)
  next
    case late
    then have "index \<noteq> 0" "index \<noteq> CB_Tail b + 1" "index < CB_Head b"
      by (auto simp: u64_eq_iff CB_Tail_def CB_Head_def word_less_nat_alt tail head)
    then show ?thesis using False late by (simp add: Fetch_def assms(5) ne fetch_position_def newest n)
  next
    case inside
    then have "index \<noteq> 0" "index \<noteq> CB_Tail b + 1" "\<not> index < CB_Head b"
      by (auto simp: u64_eq_iff CB_Tail_def CB_Head_def word_less_nat_alt tail head)
    moreover have "CB_at b index = history ! (unat index - 1)"
      using assms(1) inside by (intro window_at) (auto simp: window_def)
    ultimately show ?thesis using False inside by (simp add: Fetch_def assms(5) ne fetch_position_def)
  qed
qed

lemma fetch_loop_eq:
  assumes "unat (CB_Tail b) + 1 < 18446744073709551616" and "unat index + k = unat (CB_Tail b) + 1"
  shows "fetch_loop b index vec = Some (vec @ map (\<lambda>i. CB_at b (index + of_nat i)) [0..<k])"
  using assms(2)
proof (induction k arbitrary: index vec)
  case 0
  then show ?case by (subst fetch_loop.simps) (simp add: word_le_nat_alt)
next
  case (Suc k)
  then have le: "index \<le> CB_Tail b" by (simp add: word_le_nat_alt)
  have "unat (index + 1) = unat index + 1" using assms(1) Suc.prems by (simp add: u64_simps)
  then have "fetch_loop b (index + 1) (vec @ [CB_at b index])
      = Some ((vec @ [CB_at b index]) @ map (\<lambda>i. CB_at b (index + 1 + of_nat i)) [0..<k])"
    using Suc.prems by (intro Suc.IH) simp
  moreover have "map (\<lambda>i. CB_at b (index + of_nat i)) [0..<Suc k]
      = CB_at b index # map (\<lambda>i. CB_at b (index + 1 + of_nat i)) [0..<k]"
    by (simp add: upt_conv_Cons map_Suc_upt [symmetric] add.assoc del: upt_Suc)
  ultimately show ?case using le by (subst fetch_loop.simps) simp
qed

lemma window_slice:
  assumes "window sz history b" and "k \<le> length history" and "k \<le> unat sz" and "length history + 1 < 18446744073709551616"
  shows "map (\<lambda>i. CB_at b (CB_Tail b - of_nat k + 1 + of_nat i)) [0..<k] = drop (length history - k) history"
proof (rule nth_equalityI)
  show "length (map (\<lambda>i. CB_at b (CB_Tail b - of_nat k + 1 + of_nat i)) [0..<k]) = length (drop (length history - k) history)"
    using assms(2) by simp
  fix i assume "i < length (map (\<lambda>i. CB_at b (CB_Tail b - of_nat k + 1 + of_nat i)) [0..<k])"
  then have i: "i < k" by simp
  let ?n = "length history"
  have tail: "unat (CB_Tail b) = ?n" "unat (cb_head b) = ?n - unat sz" "unat (cb_tail b) = ?n"
    using assms(1) by (auto simp: window_def CB_Tail_def)
  have "unat (CB_Tail b - of_nat k) = ?n - k"
    using assms(2,4) tail by (simp add: u64_simps)
  then have "unat (CB_Tail b - of_nat k + 1 + of_nat i) = ?n - k + 1 + i"
    using assms(2,4) i by (simp add: u64_simps)
  then have "CB_at b (CB_Tail b - of_nat k + 1 + of_nat i) = history ! (?n - k + i)"
    using window_at [OF assms(1), of "CB_Tail b - of_nat k + 1 + of_nat i"] assms(2,3) i tail by simp
  then show "map (\<lambda>i. CB_at b (CB_Tail b - of_nat k + 1 + of_nat i)) [0..<k] ! i = drop (?n - k) history ! i"
    using i assms(2) by simp
qed

section \<open>Properties\<close>

text \<open>
  C16: the ring keeps the newest messages. After putting any list of fewer than \<open>2 ^ 64 - 1\<close> messages
  into a fresh ring of size \<open>sz\<close>, it holds exactly the last \<open>sz\<close> of them, in order, at the positions
  from \<open>Head\<close> to \<open>Tail\<close>; \<open>Size\<close> and \<open>Empty\<close> say so; and no position, valid or not, indexes
  outside the vector.
\<close>

theorem cache_buffer_keeps_newest:
  assumes "sz + 1 \<noteq> 0" and "length vs + 1 < 18446744073709551616" and "b = fold ring_put vs (CacheBuffer d sz)"
  shows "unat (CB_Size b) = min (length vs) (unat sz) \<and> (CB_Empty b \<longleftrightarrow> vs = [])
    \<and> map (\<lambda>i. CB_at b (CB_Head b + of_nat i)) [0..<unat (CB_Size b)] = drop (length vs - unat sz) vs
    \<and> (\<forall>pos. GetIndex b pos < length (cb_buffer b))"
proof -
  have w: "window sz vs b"
    using window_fold [OF window_new [OF assms(1)], of vs d] assms(2,3) by simp
  let ?k = "min (length vs) (unat sz)"
  have "CB_Tail b - of_nat ?k = cb_head b"
    using w assms(2) by (auto simp: u64_eq_iff CB_Tail_def window_def u64_simps)
  then have "map (\<lambda>i. CB_at b (CB_Head b + of_nat i)) [0..<?k] = drop (length vs - ?k) vs"
    using window_slice [OF w _ _ assms(2), of ?k] by (simp add: CB_Head_def)
  then show ?thesis
    using window_size [OF w] window_index_bound [OF w] by (auto simp: min_def)
qed

definition five_ring :: "(nat, unit) cache_buffer" where
  "five_ring = fold ring_put [1, 2, 3, 4, 5] (CacheBuffer 0 3)"

theorem cache_buffer_keeps_newest_witness:
  "map (\<lambda>i. CB_at five_ring (CB_Head five_ring + of_nat i)) [0..<unat (CB_Size five_ring)] = [3, 4, 5]"
proof -
  have "(3 :: u64) + 1 \<noteq> 0" "length [1, 2, 3, 4, 5 :: nat] + 1 < 18446744073709551616" by simp_all
  from cache_buffer_keeps_newest [OF this five_ring_def]
  have "map (\<lambda>i. CB_at five_ring (CB_Head five_ring + of_nat i)) [0..<unat (CB_Size five_ring)]
      = drop (length [1, 2, 3, 4, 5 :: nat] - unat (3 :: u64)) [1, 2, 3, 4, 5]" by blast
  then show ?thesis by simp
qed

text \<open>
  \<open>FetchMulti\<close> ends and appends the newest \<open>min(Size, fetch_size)\<close> messages in the order they
  were put, or reports an empty buffer.
\<close>

theorem fetch_multi_newest:
  assumes "window sz history (ch_buffer c)" and "length history + 1 < 18446744073709551616"
  shows "FetchMulti c fetch_size vec = (if history = [] then Some (False, vec)
    else Some (True, vec @ drop (length history - min (min (length history) (unat sz)) (unat fetch_size)) history))"
proof (cases "history = []")
  case True
  then show ?thesis using window_size(2) [OF assms(1)] by (simp add: FetchMulti_def)
next
  case False
  let ?b = "ch_buffer c" and ?n = "length history"
  define k where "k = min (min ?n (unat sz)) (unat fetch_size)"
  have k: "k \<le> ?n" "k \<le> unat sz" by (simp_all add: k_def)
  have tail: "unat (CB_Tail ?b) = ?n" using assms(1) by (simp add: window_def CB_Tail_def)
  have num: "min (CB_Size ?b) fetch_size = of_nat k"
    using window_size(1) [OF assms(1)] assms(2)
    by (auto simp: k_def min_def u64_eq_iff word_le_nat_alt u64_simps)
  have "unat (CB_Tail ?b - of_nat k) = ?n - k" using assms(2) tail k by (simp add: u64_simps)
  moreover then have "unat (CB_Tail ?b - of_nat k + 1) = ?n - k + 1" using assms(2) by (simp add: u64_simps)
  ultimately have "fetch_loop ?b (CB_Tail ?b - of_nat k + 1) vec
      = Some (vec @ map (\<lambda>i. CB_at ?b (CB_Tail ?b - of_nat k + 1 + of_nat i)) [0..<k])"
    using assms(2) tail k by (intro fetch_loop_eq) auto
  also have "\<dots> = Some (vec @ drop (?n - k) history)"
    using window_slice [OF assms(1) k assms(2)] by simp
  finally show ?thesis
    using False window_size(2) [OF assms(1)] by (simp add: FetchMulti_def num k_def)
qed

theorem fetch_multi_newest_witness:
  "FetchMulti \<lparr>ch_channel_id = 1, ch_buffer = fold ring_put [''a'', ''b'', ''c''] (CacheBuffer [] 2)\<rparr> 5 []
     = Some (True, [''b'', ''c''])"
proof -
  have "window 2 [''a'', ''b'', ''c''] (fold ring_put [''a'', ''b'', ''c''] (CacheBuffer [] 2))"
    using window_fold [OF window_new, of 2 "[''a'', ''b'', ''c'']" "[]"] by simp
  then show ?thesis
    using fetch_multi_newest [of 2 "[''a'', ''b'', ''c'']"
        "\<lparr>ch_channel_id = 1, ch_buffer = fold ring_put [''a'', ''b'', ''c''] (CacheBuffer [] 2)\<rparr>" 5 "[]"]
    by simp
qed

end
