(* ===== verification/Data_Visitor.thy ===== *)
theory Data_Visitor
  imports Cache_Buffer Atomic_Hash_Map
begin

text \<open>
  How messages travel inside a process: \<open>data/data_notifier.h\<close>, \<open>data/data_dispatcher.h\<close>,
  \<open>data/fusion/all_latest.h\<close>, \<open>data/data_visitor.h\<close> and \<open>data/data_visitor_base.h\<close>.

  A dispatcher holds weak pointers to rings, so rings live in a store \<open>dd_store\<close> indexed by address,
  where \<open>None\<close> is a ring whose owner is gone. Notifiers are addresses as well; \<open>dn_called\<close> records
  the callbacks that ran. Vectors reached through the pointer that \<open>AtomicHashMap::Get\<close> returns are
  updated in place, which is storing the longer vector back.
\<close>

section \<open>Notifiers\<close>

record data_notifier =
  dn_map :: "nat option list atomic_hash_map"
  dn_callback :: "nat \<Rightarrow> nat option"
  dn_called :: "nat list"

definition DataNotifier :: data_notifier where
  "DataNotifier = \<lparr>dn_map = AtomicHashMap 128, dn_callback = (\<lambda>_. None), dn_called = []\<rparr>"

definition AddNotifier :: "u64 \<Rightarrow> nat option \<Rightarrow> data_notifier \<Rightarrow> data_notifier" where
  "AddNotifier channel_id notifier n =
     (case AHM_Get (dn_map n) channel_id of
        Some notifies \<Rightarrow> n\<lparr>dn_map := AHM_Set (dn_map n) channel_id (notifies @ [notifier])\<rparr>
      | None \<Rightarrow> n\<lparr>dn_map := AHM_Set (dn_map n) channel_id [notifier]\<rparr>)"

definition RegisterNotifyCallback :: "nat \<Rightarrow> nat \<Rightarrow> data_notifier \<Rightarrow> data_notifier" where
  "RegisterNotifyCallback notifier callback n = n\<lparr>dn_callback := (dn_callback n)(notifier := Some callback)\<rparr>"

definition call_notifier :: "nat option \<Rightarrow> data_notifier \<Rightarrow> data_notifier" where
  "call_notifier notifier n =
     (case notifier of
        None \<Rightarrow> n
      | Some p \<Rightarrow> (case dn_callback n p of None \<Rightarrow> n | Some cb \<Rightarrow> n\<lparr>dn_called := dn_called n @ [cb]\<rparr>))"

definition DN_Notify :: "u64 \<Rightarrow> data_notifier \<Rightarrow> bool \<times> data_notifier" where
  "DN_Notify channel_id n =
     (case AHM_Get (dn_map n) channel_id of
        Some notifies \<Rightarrow> (True, fold call_notifier notifies n)
      | None \<Rightarrow> (False, n))"

section \<open>The dispatcher\<close>

record ('m, 'cb) data_dispatcher =
  dd_map :: "nat list atomic_hash_map"
  dd_store :: "nat \<Rightarrow> ('m, 'cb) cache_buffer option"

definition DataDispatcher :: "('m, 'cb) data_dispatcher" where
  "DataDispatcher = \<lparr>dd_map = AtomicHashMap 128, dd_store = (\<lambda>_. None)\<rparr>"

definition AddBuffer :: "u64 \<Rightarrow> nat \<Rightarrow> ('m, 'cb) data_dispatcher \<Rightarrow> ('m, 'cb) data_dispatcher" where
  "AddBuffer channel_id buffer d =
     (case AHM_Get (dd_map d) channel_id of
        Some buffers \<Rightarrow> d\<lparr>dd_map := AHM_Set (dd_map d) channel_id (buffers @ [buffer])\<rparr>
      | None \<Rightarrow> d\<lparr>dd_map := AHM_Set (dd_map d) channel_id [buffer]\<rparr>)"

definition fill_buffer :: "('cb \<Rightarrow> 'm \<Rightarrow> 'w \<Rightarrow> 'w) \<Rightarrow> 'm \<Rightarrow> nat \<Rightarrow> ('m, 'cb) data_dispatcher \<times> 'w \<Rightarrow> ('m, 'cb) data_dispatcher \<times> 'w" where
  "fill_buffer run msg buffer_wptr dw =
     (case dd_store (fst dw) buffer_wptr of
        None \<Rightarrow> dw
      | Some b \<Rightarrow>
          let (b', w') = Fill run msg (b, snd dw)
          in ((fst dw)\<lparr>dd_store := (dd_store (fst dw))(buffer_wptr \<mapsto> b')\<rparr>, w'))"

definition Dispatch :: "('cb \<Rightarrow> 'm \<Rightarrow> 'w \<Rightarrow> 'w) \<Rightarrow> bool \<Rightarrow> u64 \<Rightarrow> 'm \<Rightarrow> ('m, 'cb) data_dispatcher \<times> 'w \<Rightarrow> data_notifier
    \<Rightarrow> bool \<times> (('m, 'cb) data_dispatcher \<times> 'w) \<times> data_notifier" where
  "Dispatch run is_shutdown channel_id msg dw n =
     (if is_shutdown then (False, dw, n)
      else case AHM_Get (dd_map (fst dw)) channel_id of
             Some buffers \<Rightarrow>
               let dw' = fold (fill_buffer run msg) buffers dw;
                   (res, n') = DN_Notify channel_id n
               in (res, dw', n')
           | None \<Rightarrow> (False, dw, n))"

section \<open>Fusion of the latest messages\<close>

text \<open>
  \<open>AllLatest\<close> for four, three and two channels. The callback installed in the ring of the first
  channel runs instead of storing the message there.
\<close>

record ('a, 'b, 'c, 'd) all_latest4 =
  al4_m0 :: "('a, unit) channel_buffer"
  al4_m1 :: "('b, unit) channel_buffer"
  al4_m2 :: "('c, unit) channel_buffer"
  al4_m3 :: "('d, unit) channel_buffer"
  al4_fusion :: "('a \<times> 'b \<times> 'c \<times> 'd, unit) channel_buffer"

record ('a, 'b, 'c) all_latest3 =
  al3_m0 :: "('a, unit) channel_buffer"
  al3_m1 :: "('b, unit) channel_buffer"
  al3_m2 :: "('c, unit) channel_buffer"
  al3_fusion :: "('a \<times> 'b \<times> 'c, unit) channel_buffer"

record ('a, 'b) all_latest2 =
  al2_m0 :: "('a, unit) channel_buffer"
  al2_m1 :: "('b, unit) channel_buffer"
  al2_fusion :: "('a \<times> 'b, unit) channel_buffer"

abbreviation install :: "('a, unit) channel_buffer \<Rightarrow> ('a, unit) channel_buffer" where
  "install c \<equiv> c\<lparr>ch_buffer := SetFusionCallback () (ch_buffer c)\<rparr>"

abbreviation put_channel :: "'x \<Rightarrow> ('x, 'cb) channel_buffer \<Rightarrow> ('x, 'cb) channel_buffer" where
  "put_channel v c \<equiv> c\<lparr>ch_buffer := ring_put v (ch_buffer c)\<rparr>"

text \<open>\<open>null\<close> is the null \<open>shared_ptr\<close> the new ring is filled with.\<close>

definition AllLatest4 :: "('a \<times> 'b \<times> 'c \<times> 'd) \<Rightarrow> ('a, unit) channel_buffer \<Rightarrow> ('b, unit) channel_buffer
    \<Rightarrow> ('c, unit) channel_buffer \<Rightarrow> ('d, unit) channel_buffer \<Rightarrow> ('a, 'b, 'c, 'd) all_latest4" where
  "AllLatest4 null b0 b1 b2 b3 =
     \<lparr>al4_m0 = install b0, al4_m1 = b1, al4_m2 = b2, al4_m3 = b3,
      al4_fusion = \<lparr>ch_channel_id = ch_channel_id b0, ch_buffer = CacheBuffer null (cb_capacity (ch_buffer b0) - 1)\<rparr>\<rparr>"

definition AllLatest3 :: "('a \<times> 'b \<times> 'c) \<Rightarrow> ('a, unit) channel_buffer \<Rightarrow> ('b, unit) channel_buffer
    \<Rightarrow> ('c, unit) channel_buffer \<Rightarrow> ('a, 'b, 'c) all_latest3" where
  "AllLatest3 null b0 b1 b2 =
     \<lparr>al3_m0 = install b0, al3_m1 = b1, al3_m2 = b2,
      al3_fusion = \<lparr>ch_channel_id = ch_channel_id b0, ch_buffer = CacheBuffer null (cb_capacity (ch_buffer b0) - 1)\<rparr>\<rparr>"

definition AllLatest2 :: "('a \<times> 'b) \<Rightarrow> ('a, unit) channel_buffer \<Rightarrow> ('b, unit) channel_buffer \<Rightarrow> ('a, 'b) all_latest2" where
  "AllLatest2 null b0 b1 =
     \<lparr>al2_m0 = install b0, al2_m1 = b1,
      al2_fusion = \<lparr>ch_channel_id = ch_channel_id b0, ch_buffer = CacheBuffer null (cb_capacity (ch_buffer b0) - 1)\<rparr>\<rparr>"

definition AL4_callback :: "'a \<Rightarrow> ('a, 'b, 'c, 'd) all_latest4 \<Rightarrow> ('a, 'b, 'c, 'd) all_latest4" where
  "AL4_callback m0 s =
     (case Latest (al4_m1 s) of None \<Rightarrow> s | Some m1 \<Rightarrow>
     (case Latest (al4_m2 s) of None \<Rightarrow> s | Some m2 \<Rightarrow>
     (case Latest (al4_m3 s) of None \<Rightarrow> s | Some m3 \<Rightarrow>
        s\<lparr>al4_fusion := put_channel (m0, m1, m2, m3) (al4_fusion s)\<rparr>)))"

definition AL3_callback :: "'a \<Rightarrow> ('a, 'b, 'c) all_latest3 \<Rightarrow> ('a, 'b, 'c) all_latest3" where
  "AL3_callback m0 s =
     (case Latest (al3_m1 s) of None \<Rightarrow> s | Some m1 \<Rightarrow>
     (case Latest (al3_m2 s) of None \<Rightarrow> s | Some m2 \<Rightarrow>
        s\<lparr>al3_fusion := put_channel (m0, m1, m2) (al3_fusion s)\<rparr>))"

definition AL2_callback :: "'a \<Rightarrow> ('a, 'b) all_latest2 \<Rightarrow> ('a, 'b) all_latest2" where
  "AL2_callback m0 s =
     (case Latest (al2_m1 s) of None \<Rightarrow> s | Some m1 \<Rightarrow>
        s\<lparr>al2_fusion := put_channel (m0, m1) (al2_fusion s)\<rparr>)"

text \<open>A message on the first channel goes through \<open>Fill\<close>, which finds the callback.\<close>

definition AL4_Fill0 :: "'a \<Rightarrow> ('a, 'b, 'c, 'd) all_latest4 \<Rightarrow> ('a, 'b, 'c, 'd) all_latest4" where
  "AL4_Fill0 m0 s =
     (let (b, s') = Fill (\<lambda>_. AL4_callback) m0 (ch_buffer (al4_m0 s), s)
      in s'\<lparr>al4_m0 := (al4_m0 s')\<lparr>ch_buffer := b\<rparr>\<rparr>)"

definition AL3_Fill0 :: "'a \<Rightarrow> ('a, 'b, 'c) all_latest3 \<Rightarrow> ('a, 'b, 'c) all_latest3" where
  "AL3_Fill0 m0 s =
     (let (b, s') = Fill (\<lambda>_. AL3_callback) m0 (ch_buffer (al3_m0 s), s)
      in s'\<lparr>al3_m0 := (al3_m0 s')\<lparr>ch_buffer := b\<rparr>\<rparr>)"

definition AL2_Fill0 :: "'a \<Rightarrow> ('a, 'b) all_latest2 \<Rightarrow> ('a, 'b) all_latest2" where
  "AL2_Fill0 m0 s =
     (let (b, s') = Fill (\<lambda>_. AL2_callback) m0 (ch_buffer (al2_m0 s), s)
      in s'\<lparr>al2_m0 := (al2_m0 s')\<lparr>ch_buffer := b\<rparr>\<rparr>)"

definition AL4_Fusion :: "u64 \<Rightarrow> ('a, 'b, 'c, 'd) all_latest4 \<Rightarrow> bool \<times> u64 \<times> ('a \<times> 'b \<times> 'c \<times> 'd) option" where
  "AL4_Fusion index s = Fetch (al4_fusion s) index"

definition AL3_Fusion :: "u64 \<Rightarrow> ('a, 'b, 'c) all_latest3 \<Rightarrow> bool \<times> u64 \<times> ('a \<times> 'b \<times> 'c) option" where
  "AL3_Fusion index s = Fetch (al3_fusion s) index"

definition AL2_Fusion :: "u64 \<Rightarrow> ('a, 'b) all_latest2 \<Rightarrow> bool \<times> u64 \<times> ('a \<times> 'b) option" where
  "AL2_Fusion index s = Fetch (al2_fusion s) index"

section \<open>Visitors\<close>

text \<open>\<open>TryFetch\<close> of all four visitors: advance past a message that was delivered.\<close>

definition try_next :: "bool \<times> u64 \<times> 'x option \<Rightarrow> bool \<times> u64 \<times> 'x option" where
  "try_next r = (case r of (True, index, m) \<Rightarrow> (True, index + 1, m) | (False, index, m) \<Rightarrow> (False, index, m))"

definition TryFetch4 :: "u64 \<Rightarrow> ('a, 'b, 'c, 'd) all_latest4 \<Rightarrow> bool \<times> u64 \<times> ('a \<times> 'b \<times> 'c \<times> 'd) option" where
  "TryFetch4 next_msg_index s = try_next (AL4_Fusion next_msg_index s)"

definition TryFetch3 :: "u64 \<Rightarrow> ('a, 'b, 'c) all_latest3 \<Rightarrow> bool \<times> u64 \<times> ('a \<times> 'b \<times> 'c) option" where
  "TryFetch3 next_msg_index s = try_next (AL3_Fusion next_msg_index s)"

definition TryFetch2 :: "u64 \<Rightarrow> ('a, 'b) all_latest2 \<Rightarrow> bool \<times> u64 \<times> ('a \<times> 'b) option" where
  "TryFetch2 next_msg_index s = try_next (AL2_Fusion next_msg_index s)"

definition TryFetch1 :: "u64 \<Rightarrow> ('a, unit) channel_buffer \<Rightarrow> bool \<times> u64 \<times> 'a option" where
  "TryFetch1 next_msg_index c = try_next (Fetch c next_msg_index)"

text \<open>
  Constructing the visitor of a single channel: a new ring at address \<open>buffer\<close> and a new notifier.
\<close>

definition DataVisitor1 :: "'m \<Rightarrow> u64 \<Rightarrow> u32 \<Rightarrow> nat \<Rightarrow> nat \<Rightarrow> ('m, unit) data_dispatcher \<times> data_notifier
    \<Rightarrow> ('m, unit) data_dispatcher \<times> data_notifier" where
  "DataVisitor1 null channel_id queue_size buffer notifier dn =
     (let d = (fst dn)\<lparr>dd_store := (dd_store (fst dn))(buffer \<mapsto> CacheBuffer null (ucast queue_size))\<rparr>;
          n = (snd dn)\<lparr>dn_callback := (dn_callback (snd dn))(notifier := None)\<rparr>
      in (AddBuffer channel_id buffer d, AddNotifier channel_id (Some notifier) n))"

section \<open>A reader sees an increasing sequence\<close>

datatype 'a reader_op = Put 'a | Poll

fun reader_step :: "'a reader_op \<Rightarrow> ('a, unit) channel_buffer \<times> u64 \<times> (nat \<times> 'a) list
    \<Rightarrow> ('a, unit) channel_buffer \<times> u64 \<times> (nat \<times> 'a) list" where
  "reader_step (Put v) (c, index, seen) = (put_channel v c, index, seen)"
| "reader_step Poll (c, index, seen) =
     (case TryFetch1 index c of
        (True, index', Some m) \<Rightarrow> (c, index', seen @ [(unat index' - 1, m)])
      | _ \<Rightarrow> (c, index, seen))"

definition puts :: "'a reader_op list \<Rightarrow> 'a list" where
  "puts ops = concat (map (\<lambda>op. case op of Put v \<Rightarrow> [v] | Poll \<Rightarrow> []) ops)"

definition reader_inv :: "u64 \<Rightarrow> 'a list \<Rightarrow> ('a, unit) channel_buffer \<times> u64 \<times> (nat \<times> 'a) list \<Rightarrow> bool" where
  "reader_inv sz history st \<longleftrightarrow>
     (case st of (c, index, seen) \<Rightarrow> window sz history (ch_buffer c) \<and> unat index \<le> length history + 1
        \<and> (seen = [] \<longleftrightarrow> unat index = 0) \<and> sorted_wrt (<) (map fst seen)
        \<and> (\<forall>e \<in> set seen. 0 < fst e \<and> fst e < unat index \<and> fst e \<le> length history \<and> snd e = history ! (fst e - 1))
        \<and> (length history \<le> unat sz \<and> seen \<noteq> [] \<longrightarrow> (\<exists>a < unat index. map fst seen = [a..<unat index])))"

lemma reader_inv_put:
  assumes "reader_inv sz history (c, index, seen)" and "length history + 2 < 18446744073709551616"
  shows "reader_inv sz (history @ [v]) (put_channel v c, index, seen)"
proof -
  have "window sz (history @ [v]) (ring_put v (ch_buffer c))"
    using assms by (intro window_put) (auto simp: reader_inv_def)
  moreover have "(history @ [v]) ! (p - 1) = history ! (p - 1)" if "0 < p" "p \<le> length history" for p
    using that by (intro nth_append_left) simp
  ultimately show ?thesis using assms(1) by (auto simp: reader_inv_def)
qed

lemma reader_inv_poll:
  assumes "reader_inv sz history (c, index, seen)" and "length history + 2 < 18446744073709551616" and "sz \<noteq> 0"
  shows "reader_inv sz history (reader_step Poll (c, index, seen))"
proof -
  have w: "window sz history (ch_buffer c)" and le: "unat index \<le> length history + 1"
    and start: "seen = [] \<longleftrightarrow> unat index = 0" and sorted: "sorted_wrt (<) (map fst seen)"
    and good: "\<And>e. e \<in> set seen \<Longrightarrow> 0 < fst e \<and> fst e < unat index \<and> fst e \<le> length history \<and> snd e = history ! (fst e - 1)"
    and consec: "length history \<le> unat sz \<Longrightarrow> seen \<noteq> [] \<Longrightarrow> \<exists>a < unat index. map fst seen = [a..<unat index]"
    using assms(1) by (auto simp: reader_inv_def)
  note spec = Fetch_spec [OF w assms(3) _ le refl]
  show ?thesis
  proof (cases "fetch_position (unat sz) (length history) (unat index)")
    case None
    then show ?thesis using assms spec by (simp add: TryFetch1_def try_next_def)
  next
    case (Some p)
    have p: "0 < p" "p \<le> length history" "unat index \<le> p"
      and next_p: "length history \<le> unat sz \<Longrightarrow> seen \<noteq> [] \<Longrightarrow> p = unat index"
      using Some le start by (auto simp: fetch_position_def split: if_splits)
    have idx': "unat (of_nat p + 1 :: u64) = p + 1" using assms(2) p by (simp add: u64_simps)
    have step: "reader_step Poll (c, index, seen) = (c, of_nat p + 1, seen @ [(p, history ! (p - 1))])"
      using assms(2) spec Some idx' by (simp add: TryFetch1_def try_next_def)
    have "sorted_wrt (<) (map fst (seen @ [(p, history ! (p - 1))]))"
      using sorted good p(3) by (fastforce simp: sorted_wrt_append)
    moreover have "\<exists>a < p + 1. map fst (seen @ [(p, history ! (p - 1))]) = [a..<p + 1]" if le: "length history \<le> unat sz"
    proof (cases "seen = []")
      case False
      then obtain a where "a < p" "map fst seen = [a..<p]" using consec [OF le False] next_p [OF le False] by auto
      then show ?thesis by (intro exI [of _ a]) simp
    qed auto
    moreover have "\<forall>e \<in> set (seen @ [(p, history ! (p - 1))]). 0 < fst e \<and> fst e < p + 1 \<and> fst e \<le> length history
        \<and> snd e = history ! (fst e - 1)"
      using good p by fastforce
    ultimately show ?thesis unfolding step using w p idx' by (simp add: reader_inv_def)
  qed
qed

lemma reader_inv_run:
  assumes "reader_inv sz history st" and "length (history @ puts ops) + 2 < 18446744073709551616" and "sz \<noteq> 0"
  shows "reader_inv sz (history @ puts ops) (fold reader_step ops st)"
  using assms(1,2)
proof (induction ops arbitrary: history st)
  case Nil
  then show ?case by (simp add: puts_def)
next
  case (Cons op ops)
  obtain c index seen where st: "st = (c, index, seen)" by (cases st)
  show ?case
  proof (cases op)
    case (Put v)
    then have "reader_inv sz (history @ [v]) (reader_step op st)"
      using Cons.prems reader_inv_put [of sz history c index seen v] by (simp add: st puts_def)
    from Cons.IH [OF this] Cons.prems(2) Put show ?thesis by (simp add: puts_def)
  next
    case Poll
    then have "reader_inv sz history (reader_step op st)"
      using Cons.prems reader_inv_poll [of sz history c index seen] assms(3) by (simp add: st puts_def del: reader_step.simps)
    from Cons.IH [OF this] Cons.prems(2) Poll show ?thesis by (simp add: puts_def)
  qed
qed

section \<open>Fusion\<close>

text \<open>
  What the three versions of \<open>AllLatest\<close> have in common: a first channel whose messages are combined
  with the latest of the others, when all of them have one.
\<close>

locale latest_fusion =
  fixes latest :: "'s \<Rightarrow> 'r option"
    and put_other :: "'e \<Rightarrow> 's \<Rightarrow> 's"
    and fill0 :: "'m \<Rightarrow> 's \<Rightarrow> 's"
    and fused :: "'s \<Rightarrow> ('m \<times> 'r, unit) cache_buffer"
    and armed :: "'s \<Rightarrow> bool"
  assumes fill0_none: "armed s \<Longrightarrow> latest s = None \<Longrightarrow> fill0 m s = s"
    and fill0_some: "armed s \<Longrightarrow> latest s = Some r \<Longrightarrow> fused (fill0 m s) = ring_put (m, r) (fused s)
      \<and> latest (fill0 m s) = latest s"
    and fill0_armed: "armed s \<Longrightarrow> armed (fill0 m s)"
    and put_other_fused: "fused (put_other e s) = fused s" "armed (put_other e s) = armed s"
begin

fun event_step :: "'m + 'e \<Rightarrow> 's \<Rightarrow> 's" where
  "event_step (Inl m) s = fill0 m s"
| "event_step (Inr e) s = put_other e s"

fun fused_list :: "('m + 'e) list \<Rightarrow> 's \<Rightarrow> ('m \<times> 'r) list" where
  "fused_list [] s = []"
| "fused_list (ev # evs) s =
     (case ev of
        Inl m \<Rightarrow> (case latest s of None \<Rightarrow> [] | Some r \<Rightarrow> [(m, r)])
      | Inr e \<Rightarrow> []) @ fused_list evs (event_step ev s)"

lemma fused_run:
  assumes "armed s"
  shows "fused (fold event_step evs s) = fold ring_put (fused_list evs s) (fused s)"
  using assms
proof (induction evs arbitrary: s)
  case (Cons ev evs)
  have "armed (event_step ev s)" using Cons.prems by (cases ev) (simp_all add: fill0_armed put_other_fused)
  then have "fused (fold event_step (ev # evs) s) = fold ring_put (fused_list evs (event_step ev s)) (fused (event_step ev s))"
    using Cons.IH by simp
  moreover have "fused (event_step ev s) = fold ring_put (fused_list [ev] s) (fused s)"
    using Cons.prems fill0_none [of s] fill0_some [of s] put_other_fused(1)
    by (cases ev) (auto split: option.splits)
  ultimately show ?case by simp
qed simp

end

datatype ('b, 'c, 'd) other4 = In1 'b | In2 'c | In3 'd

fun put_other4 :: "('b, 'c, 'd) other4 \<Rightarrow> ('a, 'b, 'c, 'd) all_latest4 \<Rightarrow> ('a, 'b, 'c, 'd) all_latest4" where
  "put_other4 (In1 v) s = s\<lparr>al4_m1 := put_channel v (al4_m1 s)\<rparr>"
| "put_other4 (In2 v) s = s\<lparr>al4_m2 := put_channel v (al4_m2 s)\<rparr>"
| "put_other4 (In3 v) s = s\<lparr>al4_m3 := put_channel v (al4_m3 s)\<rparr>"

definition latest4 :: "('a, 'b, 'c, 'd) all_latest4 \<Rightarrow> ('b \<times> 'c \<times> 'd) option" where
  "latest4 s = (case (Latest (al4_m1 s), Latest (al4_m2 s), Latest (al4_m3 s)) of
     (Some m1, Some m2, Some m3) \<Rightarrow> Some (m1, m2, m3) | _ \<Rightarrow> None)"

definition latest3 :: "('a, 'b, 'c) all_latest3 \<Rightarrow> ('b \<times> 'c) option" where
  "latest3 s = (case (Latest (al3_m1 s), Latest (al3_m2 s)) of (Some m1, Some m2) \<Rightarrow> Some (m1, m2) | _ \<Rightarrow> None)"

fun put_other3 :: "'b + 'c \<Rightarrow> ('a, 'b, 'c) all_latest3 \<Rightarrow> ('a, 'b, 'c) all_latest3" where
  "put_other3 (Inl v) s = s\<lparr>al3_m1 := put_channel v (al3_m1 s)\<rparr>"
| "put_other3 (Inr v) s = s\<lparr>al3_m2 := put_channel v (al3_m2 s)\<rparr>"

definition put_other2 :: "'b \<Rightarrow> ('a, 'b) all_latest2 \<Rightarrow> ('a, 'b) all_latest2" where
  "put_other2 v s = s\<lparr>al2_m1 := put_channel v (al2_m1 s)\<rparr>"

interpretation al4: latest_fusion latest4 put_other4 AL4_Fill0 "\<lambda>s. ch_buffer (al4_fusion s)"
  "\<lambda>s. cb_callback (ch_buffer (al4_m0 s)) = Some ()"
proof (unfold_locales, goal_cases)
  case (4 e s)
  show ?case by (cases e) simp_all
next
  case (5 e s)
  show ?case by (cases e) simp_all
qed (auto simp: AL4_Fill0_def AL4_callback_def latest4_def Fill_def split: option.splits)

interpretation al3: latest_fusion latest3 put_other3 AL3_Fill0 "\<lambda>s. ch_buffer (al3_fusion s)"
  "\<lambda>s. cb_callback (ch_buffer (al3_m0 s)) = Some ()"
proof (unfold_locales, goal_cases)
  case (4 e s)
  show ?case by (cases e) simp_all
next
  case (5 e s)
  show ?case by (cases e) simp_all
qed (auto simp: AL3_Fill0_def AL3_callback_def latest3_def Fill_def split: option.splits)

interpretation al2: latest_fusion "\<lambda>s. Latest (al2_m1 s)" put_other2 AL2_Fill0 "\<lambda>s. ch_buffer (al2_fusion s)"
  "\<lambda>s. cb_callback (ch_buffer (al2_m0 s)) = Some ()"
  by unfold_locales (auto simp: AL2_Fill0_def AL2_callback_def put_other2_def Fill_def split: option.splits)

text \<open>
  The sequence a fusion of four channels should deliver, from the events alone: each message of the
  first channel together with the last message of each other one, once all of them have spoken.
\<close>

fun fusion_spec :: "('a + ('b, 'c, 'd) other4) list \<Rightarrow> 'b list \<Rightarrow> 'c list \<Rightarrow> 'd list \<Rightarrow> ('a \<times> 'b \<times> 'c \<times> 'd) list" where
  "fusion_spec [] h1 h2 h3 = []"
| "fusion_spec (Inl m # evs) h1 h2 h3 =
     (if h1 \<noteq> [] \<and> h2 \<noteq> [] \<and> h3 \<noteq> [] then [(m, last h1, last h2, last h3)] else []) @ fusion_spec evs h1 h2 h3"
| "fusion_spec (Inr (In1 v) # evs) h1 h2 h3 = fusion_spec evs (h1 @ [v]) h2 h3"
| "fusion_spec (Inr (In2 v) # evs) h1 h2 h3 = fusion_spec evs h1 (h2 @ [v]) h3"
| "fusion_spec (Inr (In3 v) # evs) h1 h2 h3 = fusion_spec evs h1 h2 (h3 @ [v])"

lemma fusion_spec_length: "length (fusion_spec evs h1 h2 h3) \<le> length evs"
  by (induction evs h1 h2 h3 rule: fusion_spec.induct) auto

lemma Latest_window:
  "window sz h (ch_buffer c) \<Longrightarrow> sz \<noteq> 0 \<Longrightarrow> Latest c = (if h = [] then None else Some (last h))"
  by (simp add: Latest_def window_size window_back)

lemma AL4_Fill0_inputs:
  assumes "cb_callback (ch_buffer (al4_m0 s)) = Some ()"
  shows "al4_m0 (AL4_Fill0 m s) = al4_m0 s" "al4_m1 (AL4_Fill0 m s) = al4_m1 s"
    "al4_m2 (AL4_Fill0 m s) = al4_m2 s" "al4_m3 (AL4_Fill0 m s) = al4_m3 s"
  using assms by (simp_all add: AL4_Fill0_def AL4_callback_def Fill_def split: option.splits)

lemma fused_list_spec:
  assumes "cb_callback (ch_buffer (al4_m0 s)) = Some ()" and "s1 \<noteq> 0" "s2 \<noteq> 0" "s3 \<noteq> 0"
    and "window s1 h1 (ch_buffer (al4_m1 s))" "window s2 h2 (ch_buffer (al4_m2 s))" "window s3 h3 (ch_buffer (al4_m3 s))"
    and "length h1 + length h2 + length h3 + length evs + 1 < 18446744073709551616"
  shows "al4.fused_list evs s = fusion_spec evs h1 h2 h3"
  using assms(1,5-8)
proof (induction evs h1 h2 h3 arbitrary: s rule: fusion_spec.induct)
  case (2 m evs h1 h2 h3)
  note inputs = AL4_Fill0_inputs [OF 2(2), of m]
  have "latest4 s = (if h1 \<noteq> [] \<and> h2 \<noteq> [] \<and> h3 \<noteq> [] then Some (last h1, last h2, last h3) else None)"
    using Latest_window [OF 2(3) assms(2)] Latest_window [OF 2(4) assms(3)] Latest_window [OF 2(5) assms(4)]
    by (simp add: latest4_def)
  moreover have "al4.fused_list evs (AL4_Fill0 m s) = fusion_spec evs h1 h2 h3"
    using 2(2-6) by (intro 2(1)) (simp_all add: inputs)
  ultimately show ?case by simp
next
  case (3 v evs h1 h2 h3)
  have "window s1 (h1 @ [v]) (ring_put v (ch_buffer (al4_m1 s)))" using 3(3,6) by (intro window_put) auto
  then have "al4.fused_list evs (put_other4 (In1 v) s) = fusion_spec evs (h1 @ [v]) h2 h3"
    using 3(2-6) by (intro 3(1)) simp_all
  then show ?case by simp
next
  case (4 v evs h1 h2 h3)
  have "window s2 (h2 @ [v]) (ring_put v (ch_buffer (al4_m2 s)))" using 4(4,6) by (intro window_put) auto
  then have "al4.fused_list evs (put_other4 (In2 v) s) = fusion_spec evs h1 (h2 @ [v]) h3"
    using 4(2-6) by (intro 4(1)) simp_all
  then show ?case by simp
next
  case (5 v evs h1 h2 h3)
  have "window s3 (h3 @ [v]) (ring_put v (ch_buffer (al4_m3 s)))" using 5(5,6) by (intro window_put) auto
  then have "al4.fused_list evs (put_other4 (In3 v) s) = fusion_spec evs h1 h2 (h3 @ [v])"
    using 5(2-6) by (intro 5(1)) simp_all
  then show ?case by simp
qed simp

lemma put_other4_m0: "al4_m0 (put_other4 e s) = al4_m0 s"
  by (cases e) simp_all

definition event4 :: "'a + ('b, 'c, 'd) other4 \<Rightarrow> ('a, 'b, 'c, 'd) all_latest4 \<Rightarrow> ('a, 'b, 'c, 'd) all_latest4" where
  "event4 ev s = (case ev of Inl m \<Rightarrow> AL4_Fill0 m s | Inr e \<Rightarrow> put_other4 e s)"

lemma event4_step: "event4 = al4.event_step"
proof (intro ext)
  fix ev :: "'a + ('b, 'c, 'd) other4" and s :: "('a, 'b, 'c, 'd) all_latest4"
  show "event4 ev s = al4.event_step ev s" by (cases ev) (simp_all add: event4_def)
qed

abbreviation fresh_channel :: "u64 \<Rightarrow> 'x \<Rightarrow> u64 \<Rightarrow> ('x, unit) channel_buffer" where
  "fresh_channel i null sz \<equiv> \<lparr>ch_channel_id = i, ch_buffer = CacheBuffer null sz\<rparr>"

section \<open>Dispatching\<close>

definition registered :: "u64 \<Rightarrow> (u64 \<times> nat) list \<Rightarrow> nat list" where
  "registered channel_id regs = map snd (filter (\<lambda>r. fst r = channel_id) regs)"

lemma AddBuffer_run:
  assumes "ahm_ok (dd_map d)" and "\<And>c. AHM_Get (dd_map d) c = (if registered c old = [] then None else Some (registered c old))"
  shows "ahm_ok (dd_map (fold (\<lambda>r. AddBuffer (fst r) (snd r)) regs d))
    \<and> dd_store (fold (\<lambda>r. AddBuffer (fst r) (snd r)) regs d) = dd_store d
    \<and> AHM_Get (dd_map (fold (\<lambda>r. AddBuffer (fst r) (snd r)) regs d)) c
        = (if registered c (old @ regs) = [] then None else Some (registered c (old @ regs)))"
  using assms
proof (induction regs arbitrary: d old)
  case (Cons r regs)
  let ?d = "AddBuffer (fst r) (snd r) d"
  have "dd_map ?d = AHM_Set (dd_map d) (fst r) (registered (fst r) old @ [snd r])" "dd_store ?d = dd_store d"
    using Cons.prems(2) [of "fst r"] by (auto simp: AddBuffer_def split: option.splits if_splits)
  moreover have "AHM_Get (dd_map ?d) c
      = (if registered c (old @ [r]) = [] then None else Some (registered c (old @ [r])))" for c
    using Cons.prems by (auto simp: calculation AHM_Get_Set registered_def)
  ultimately show ?case
    using Cons.IH [of ?d "old @ [r]"] Cons.prems(1) by (simp add: AHM_Set_ok)
qed simp

lemma ring_put_callback [simp]: "cb_callback (ring_put v b) = cb_callback b"
  by (simp add: ring_put_def)

lemma fill_buffer_fold:
  assumes "\<And>p b. dd_store d p = Some b \<Longrightarrow> cb_callback b = None"
  shows "\<exists>d'. fold (fill_buffer run msg) ps (d, w) = (d', w) \<and> dd_map d' = dd_map d
    \<and> (\<forall>p. dd_store d' p = map_option (\<lambda>b. (ring_put msg ^^ count_list ps p) b) (dd_store d p))"
  using assms
proof (induction ps arbitrary: d)
  case Nil
  show ?case by (auto simp: option.map_ident)
next
  case (Cons q ps)
  let ?d = "fst (fill_buffer run msg q (d, w))"
  have step: "fill_buffer run msg q (d, w) = (?d, w)" "dd_map ?d = dd_map d"
    "\<And>p. dd_store ?d p = (if p = q then map_option (ring_put msg) (dd_store d q) else dd_store d p)"
    using Cons.prems [of q] by (auto simp: fill_buffer_def Fill_def split: option.splits)
  have "cb_callback b = None" if "dd_store ?d p = Some b" for p b
    using that Cons.prems by (auto simp: step(3) split: if_splits)
  then obtain d' where d': "fold (fill_buffer run msg) ps (?d, w) = (d', w)" "dd_map d' = dd_map ?d"
      "\<forall>p. dd_store d' p = map_option (\<lambda>b. (ring_put msg ^^ count_list ps p) b) (dd_store ?d p)"
    using Cons.IH [of ?d] by blast
  then show ?case
    using step by (intro exI [of _ d']) (auto simp: option.map_comp o_def funpow_swap1)
qed

section \<open>Properties\<close>


definition slow_reader :: "string reader_op list" where
  "slow_reader = [Put ''a'', Poll, Put ''b'', Put ''c'', Put ''d'', Poll, Poll]"


text \<open>
  C24: the fusion of four channels delivers exactly what its specification says, whatever the order in
  which the channels receive their messages: every message of the first channel that arrives when the
  others have all spoken is delivered together with their latest messages, nothing else is, and
  \<open>Fusion\<close> finds the newest ones of these in the fusion ring. The ring of the first channel stays empty.
\<close>

theorem fusion_delivers_latest:
  assumes "s0 + 1 \<noteq> 0" and "s1 \<noteq> 0" "s1 + 1 \<noteq> 0" and "s2 \<noteq> 0" "s2 + 1 \<noteq> 0" and "s3 \<noteq> 0" "s3 + 1 \<noteq> 0"
    and "length evs + 1 < 18446744073709551616"
    and "s = fold event4 evs (AllLatest4 null (fresh_channel i0 n0 s0) (fresh_channel i1 n1 s1)
           (fresh_channel i2 n2 s2) (fresh_channel i3 n3 s3))"
  shows "window s0 (fusion_spec evs [] [] []) (ch_buffer (al4_fusion s)) \<and> CB_Empty (ch_buffer (al4_m0 s))"
proof -
  let ?s = "AllLatest4 null (fresh_channel i0 n0 s0) (fresh_channel i1 n1 s1) (fresh_channel i2 n2 s2) (fresh_channel i3 n3 s3)"
  have armed: "cb_callback (ch_buffer (al4_m0 ?s)) = Some ()"
    and fusion: "ch_buffer (al4_fusion ?s) = CacheBuffer null s0"
    by (simp_all add: AllLatest4_def SetFusionCallback_def CacheBuffer_def)
  have "al4.fused_list evs ?s = fusion_spec evs [] [] []"
    using assms by (intro fused_list_spec [OF armed assms(2,4,6)]) (simp_all add: AllLatest4_def window_new)
  then have "ch_buffer (al4_fusion s) = fold ring_put (fusion_spec evs [] [] []) (CacheBuffer null s0)"
    using al4.fused_run [OF armed, of evs] by (simp add: assms(9) event4_step fusion)
  moreover have "al4_m0 (fold event4 evs t) = al4_m0 t" if "cb_callback (ch_buffer (al4_m0 t)) = Some ()" for t
    using that
  proof (induction evs arbitrary: t)
    case (Cons ev evs)
    have "al4_m0 (event4 ev t) = al4_m0 t"
      using Cons.prems by (auto simp: event4_def AL4_Fill0_inputs put_other4_m0 split: sum.split)
    then show ?case using Cons by simp
  qed simp
  then have "CB_Empty (ch_buffer (al4_m0 s))"
    using armed by (simp add: assms(9) AllLatest4_def CB_Empty_def SetFusionCallback_def CacheBuffer_def)
  ultimately show ?thesis
    using window_fold [OF window_new [OF assms(1)], of "fusion_spec evs [] [] []" null]
      fusion_spec_length [of evs "[]" "[]" "[]"] assms(8) by simp
qed

theorem fusion_delivers_latest_witness:
  "\<exists>s :: (nat, string, char, bool) all_latest4. window 4 [(2, ''b'', CHR ''c'', True), (5, ''e'', CHR ''c'', True)] (ch_buffer (al4_fusion s))
     \<and> CB_Empty (ch_buffer (al4_m0 s))"
proof -
  define evs where "evs = [Inl (1 :: nat), Inr (In1 ''b''), Inr (In2 CHR ''c''), Inr (In3 True), Inl 2, Inr (In1 ''e''), Inl 5]"
  have "fusion_spec evs [] [] [] = [(2, ''b'', CHR ''c'', True), (5, ''e'', CHR ''c'', True)]"
    by (simp add: evs_def)
  moreover have "length evs + 1 < 18446744073709551616" by (simp add: evs_def)
  ultimately show ?thesis
    using fusion_delivers_latest [OF _ _ _ _ _ _ _ _ refl,
        of 4 1 2 3 evs "(0, '''', CHR ''0'', False)" 1 0 2 "''''" 3 "CHR ''0''" 4 False] by auto
qed


definition two_rings :: "nat \<Rightarrow> (string, unit) cache_buffer option" where
  "two_rings = [1 \<mapsto> CacheBuffer '''' 4, 2 \<mapsto> CacheBuffer '''' 4]"

definition two_regs :: "(u64 \<times> nat) list" where
  "two_regs = [(7, 1), (8, 2), (7, 9)]"


end
