(* ===== verification/Timing_Wheel.thy ===== *)
theory Timing_Wheel
  imports Cyber_Prelude
begin

text \<open>
  \<open>timer/timing_wheel.h\<close>, \<open>timer/timing_wheel.cc\<close>, \<open>timer/timer_bucket.h\<close> and
  \<open>timer/timer_task.h\<close>: the two-level wheel that fires timers.

  Buckets hold weak pointers, which are addresses into the store \<open>tw_tasks\<close>; an address that maps to
  \<open>None\<close> is a task whose owner dropped it. \<open>tw_pc\<close> is where the tick thread stands in the loop of
  \<open>TickFunc\<close>; each of its steps is atomic, as are the operations of the other threads. What
  \<open>cyber::Async\<close> was given and has not run yet is \<open>tw_async\<close>; \<open>tw_fired\<close> is the history of all
  submissions and \<open>tw_called\<close> that of the user callbacks that ran.
\<close>

section \<open>State\<close>

text \<open>The two closures that \<open>Timer::InitTimerTask\<close> installs; an empty user callback is \<open>None\<close>.\<close>

datatype timer_closure = Oneshot_closure "nat option" | Periodic_closure "nat option"

record timer_task =
  tt_timer_id :: u64
  tt_callback :: "timer_closure option"
  tt_interval_ms :: u64
  tt_remainder_interval_ms :: u64
  tt_next_fire_duration_ms :: u64
  tt_accumulated_error_ns :: u64
  tt_last_execute_time_ns :: u64

definition TimerTask :: "u64 \<Rightarrow> timer_task" where
  "TimerTask timer_id =
     \<lparr>tt_timer_id = timer_id, tt_callback = None, tt_interval_ms = 0, tt_remainder_interval_ms = 0,
      tt_next_fire_duration_ms = 0, tt_accumulated_error_ns = 0, tt_last_execute_time_ns = 0\<rparr>"

datatype tick_pc = No_Thread | At_Tick | At_Sleep

record timing_wheel =
  tw_running :: bool
  tw_tick_count :: u64
  tw_work_wheel :: "nat list list"
  tw_assistant_wheel :: "nat list list"
  tw_current_work_wheel_index :: u64
  tw_current_assistant_wheel_index :: u64
  tw_pc :: tick_pc
  tw_tasks :: "nat \<Rightarrow> timer_task option"
  tw_async :: "nat list"
  tw_fired :: "nat list"
  tw_called :: "nat list"

abbreviation WORK_WHEEL_SIZE :: u64 where "WORK_WHEEL_SIZE \<equiv> 512"
abbreviation ASSISTANT_WHEEL_SIZE :: u64 where "ASSISTANT_WHEEL_SIZE \<equiv> 64"
abbreviation TIMER_RESOLUTION_MS :: u64 where "TIMER_RESOLUTION_MS \<equiv> 2"

definition TIMER_MAX_INTERVAL_MS :: u64 where
  "TIMER_MAX_INTERVAL_MS = WORK_WHEEL_SIZE * ASSISTANT_WHEEL_SIZE * TIMER_RESOLUTION_MS"

definition TimingWheel :: timing_wheel where
  "TimingWheel =
     \<lparr>tw_running = False, tw_tick_count = 0, tw_work_wheel = replicate 512 [], tw_assistant_wheel = replicate 64 [],
      tw_current_work_wheel_index = 0, tw_current_assistant_wheel_index = 0, tw_pc = No_Thread,
      tw_tasks = (\<lambda>_. None), tw_async = [], tw_fired = [], tw_called = []\<rparr>"

section \<open>Operations\<close>

unbundle bit_operations_syntax

definition GetWorkWheelIndex :: "u64 \<Rightarrow> u64" where
  "GetWorkWheelIndex index = index AND (WORK_WHEEL_SIZE - 1)"

definition GetAssistantWheelIndex :: "u64 \<Rightarrow> u64" where
  "GetAssistantWheelIndex index = index AND (ASSISTANT_WHEEL_SIZE - 1)"

definition work_bucket_AddTask :: "u64 \<Rightarrow> nat \<Rightarrow> timing_wheel \<Rightarrow> timing_wheel" where
  "work_bucket_AddTask i task w =
     w\<lparr>tw_work_wheel := (tw_work_wheel w)[unat i := tw_work_wheel w ! unat i @ [task]]\<rparr>"

definition assistant_bucket_AddTask :: "u64 \<Rightarrow> nat \<Rightarrow> timing_wheel \<Rightarrow> timing_wheel" where
  "assistant_bucket_AddTask i task w =
     w\<lparr>tw_assistant_wheel := (tw_assistant_wheel w)[unat i := tw_assistant_wheel w ! unat i @ [task]]\<rparr>"

definition Wheel_Start :: "timing_wheel \<Rightarrow> timing_wheel" where
  "Wheel_Start w = (if \<not> tw_running w then w\<lparr>tw_running := True, tw_pc := At_Tick\<rparr> else w)"

definition tick_task :: "nat \<Rightarrow> timing_wheel \<Rightarrow> timing_wheel" where
  "tick_task task w =
     (case tw_tasks w task of
        Some _ \<Rightarrow> w\<lparr>tw_async := tw_async w @ [task], tw_fired := tw_fired w @ [task]\<rparr>
      | None \<Rightarrow> w)"

definition Tick :: "timing_wheel \<Rightarrow> timing_wheel" where
  "Tick w =
     (let i = unat (tw_current_work_wheel_index w);
          w' = fold tick_task (tw_work_wheel w ! i) w
      in w'\<lparr>tw_work_wheel := (tw_work_wheel w')[i := []]\<rparr>)"

text \<open>
  \<open>std::ceil\<close> of the duration divided by the resolution. The conversion to \<open>double\<close> is exact below
  \<open>2 ^ 53\<close> milliseconds.
\<close>

definition duration_ticks :: "u64 \<Rightarrow> u64" where
  "duration_ticks ms = (if ms mod TIMER_RESOLUTION_MS = 0 then ms div TIMER_RESOLUTION_MS else ms div TIMER_RESOLUTION_MS + 1)"

text \<open>The overload with an explicit index; \<open>None\<close> is the null pointer.\<close>

definition AddTask_at :: "nat \<Rightarrow> u64 \<Rightarrow> timing_wheel \<Rightarrow> timing_wheel option" where
  "AddTask_at task current_work_wheel_index w =
     (case tw_tasks w task of
        None \<Rightarrow> None
      | Some tk \<Rightarrow>
          let w1 = (if \<not> tw_running w then Wheel_Start w else w);
              work_wheel_index = current_work_wheel_index + duration_ticks (tt_next_fire_duration_ms tk)
          in Some
            (if work_wheel_index \<ge> WORK_WHEEL_SIZE
             then let real_work_wheel_index = GetWorkWheelIndex work_wheel_index;
                      w2 = w1\<lparr>tw_tasks := (tw_tasks w1)(task \<mapsto> tk\<lparr>tt_remainder_interval_ms := real_work_wheel_index\<rparr>)\<rparr>;
                      assistant_ticks = work_wheel_index div WORK_WHEEL_SIZE
                  in if assistant_ticks = 1 \<and> real_work_wheel_index < tw_current_work_wheel_index w2
                     then work_bucket_AddTask real_work_wheel_index task w2
                     else assistant_bucket_AddTask
                            (GetAssistantWheelIndex (tw_current_assistant_wheel_index w2 + assistant_ticks)) task w2
             else work_bucket_AddTask work_wheel_index task w1))"

definition AddTask :: "nat \<Rightarrow> timing_wheel \<Rightarrow> timing_wheel option" where
  "AddTask task w = AddTask_at task (tw_current_work_wheel_index w) w"

definition cascade_task :: "nat \<Rightarrow> timing_wheel \<Rightarrow> timing_wheel" where
  "cascade_task task w =
     (case tw_tasks w task of
        Some tk \<Rightarrow> work_bucket_AddTask (tt_remainder_interval_ms tk) task w
      | None \<Rightarrow> w)"

definition Cascade :: "u64 \<Rightarrow> timing_wheel \<Rightarrow> timing_wheel" where
  "Cascade assistant_wheel_index w =
     (let j = unat assistant_wheel_index;
          w' = fold cascade_task (tw_assistant_wheel w ! j) w
      in w'\<lparr>tw_assistant_wheel := (tw_assistant_wheel w')[j := []]\<rparr>)"

text \<open>The part of an iteration of \<open>TickFunc\<close> after the sleep.\<close>

definition Advance :: "timing_wheel \<Rightarrow> timing_wheel" where
  "Advance w =
     (let w1 = w\<lparr>tw_current_work_wheel_index := GetWorkWheelIndex (tw_current_work_wheel_index w + 1)\<rparr>
      in if tw_current_work_wheel_index w1 = 0
         then let w2 = w1\<lparr>tw_current_assistant_wheel_index := GetAssistantWheelIndex (tw_current_assistant_wheel_index w1 + 1)\<rparr>
              in Cascade (tw_current_assistant_wheel_index w2) w2
         else w1)"

text \<open>One step of the tick thread: the loop condition and \<open>Tick\<close>, or what follows the sleep.\<close>

definition TickFunc :: "timing_wheel \<Rightarrow> timing_wheel" where
  "TickFunc w =
     (case tw_pc w of
        No_Thread \<Rightarrow> w
      | At_Tick \<Rightarrow>
          if tw_running w then (Tick w)\<lparr>tw_tick_count := tw_tick_count w + 1, tw_pc := At_Sleep\<rparr>
          else w\<lparr>tw_pc := No_Thread\<rparr>
      | At_Sleep \<Rightarrow> (Advance w)\<lparr>tw_pc := At_Tick\<rparr>)"

text \<open>\<open>Shutdown\<close> joins the thread, which finishes the iteration it is in.\<close>

definition Shutdown :: "timing_wheel \<Rightarrow> timing_wheel" where
  "Shutdown w =
     (if tw_running w
      then let w1 = w\<lparr>tw_running := False\<rparr>
           in (if tw_pc w1 = At_Sleep then TickFunc (TickFunc w1) else TickFunc w1)
      else w)"

section \<open>Indices\<close>

lemma and_511: "unat (x AND 511 :: u64) = unat x mod 512"
proof -
  have "x AND 511 = take_bit 9 x" by (simp add: take_bit_eq_mask mask_eq_exp_minus_1)
  then show ?thesis by (simp add: take_bit_eq_mod unat_mod)
qed

lemma and_63: "unat (x AND 63 :: u64) = unat x mod 64"
proof -
  have "x AND 63 = take_bit 6 x" by (simp add: take_bit_eq_mask mask_eq_exp_minus_1)
  then show ?thesis by (simp add: take_bit_eq_mod unat_mod)
qed

lemma GetWorkWheelIndex_nat [u64_simps]: "unat (GetWorkWheelIndex x) = unat x mod 512"
  by (simp add: GetWorkWheelIndex_def and_511)

lemma GetAssistantWheelIndex_nat [u64_simps]: "unat (GetAssistantWheelIndex x) = unat x mod 64"
  by (simp add: GetAssistantWheelIndex_def and_63)

lemma duration_ticks_nat: "unat (duration_ticks ms) = (unat ms + 1) div 2"
proof -
  have d: "unat (ms div 2) = unat ms div 2" "unat (ms mod 2) = unat ms mod 2" by (simp_all add: unat_div unat_mod)
  have "unat ms div 2 + 1 < 18446744073709551616" using unat_u64_bound [of ms] by linarith
  then have "unat (ms div 2 + 1) = unat ms div 2 + 1" using d by (simp add: u64_simps)
  then show ?thesis using d by (auto simp: duration_ticks_def u64_eq_iff) presburger+
qed

section \<open>Well-formed wheels\<close>

definition wheel_ok :: "timing_wheel \<Rightarrow> bool" where
  "wheel_ok w \<longleftrightarrow> length (tw_work_wheel w) = 512 \<and> length (tw_assistant_wheel w) = 64
     \<and> unat (tw_current_work_wheel_index w) < 512 \<and> unat (tw_current_assistant_wheel_index w) < 64
     \<and> (\<forall>u tk. tw_tasks w u = Some tk \<longrightarrow> unat (tt_remainder_interval_ms tk) < 512)
     \<and> (tw_running w \<longrightarrow> tw_pc w \<noteq> No_Thread)"

lemma TimingWheel_ok: "wheel_ok TimingWheel"
  by (simp add: wheel_ok_def TimingWheel_def)

lemma fold_tick_task:
  "fold tick_task ts w = w\<lparr>tw_async := tw_async w @ filter (\<lambda>u. tw_tasks w u \<noteq> None) ts,
     tw_fired := tw_fired w @ filter (\<lambda>u. tw_tasks w u \<noteq> None) ts\<rparr>"
  by (induction ts arbitrary: w) (auto simp: tick_task_def split: option.splits)

lemma Tick_eq:
  "Tick w = w\<lparr>tw_async := tw_async w @ filter (\<lambda>u. tw_tasks w u \<noteq> None) (tw_work_wheel w ! unat (tw_current_work_wheel_index w)),
     tw_fired := tw_fired w @ filter (\<lambda>u. tw_tasks w u \<noteq> None) (tw_work_wheel w ! unat (tw_current_work_wheel_index w)),
     tw_work_wheel := (tw_work_wheel w)[unat (tw_current_work_wheel_index w) := []]\<rparr>"
  by (simp add: Tick_def fold_tick_task Let_def)

lemma count_list_filter: "P x \<Longrightarrow> count_list (filter P xs) x = count_list xs x"
  by (induction xs) auto

lemma mod_offset_zero: "r < m \<Longrightarrow> c < m \<Longrightarrow> (c + r) mod m = c \<Longrightarrow> r = (0 :: nat)"
  by (cases "c + r < m") (auto simp: mod_if split: if_splits)

lemma count_bucket_add:
  "i < length xs \<Longrightarrow> count_list (xs[k := xs ! k @ [u]] ! i) t = count_list (xs ! i) t + (if k = i \<and> u = t then 1 else 0)"
  by (cases "k = i") auto

lemma fold_cascade_task:
  "\<exists>ww. fold cascade_task ts w = w\<lparr>tw_work_wheel := ww\<rparr> \<and> length ww = length (tw_work_wheel w)
     \<and> (\<forall>t i. i < length ww \<longrightarrow> count_list (ww ! i) t = count_list (tw_work_wheel w ! i) t
          + (case tw_tasks w t of Some tk \<Rightarrow> if unat (tt_remainder_interval_ms tk) = i then count_list ts t else 0 | None \<Rightarrow> 0))"
proof (induction ts arbitrary: w)
  case Nil
  show ?case by (intro exI [of _ "tw_work_wheel w"]) (auto split: option.split)
next
  case (Cons u ts)
  let ?w = "cascade_task u w"
  have frame: "?w = w\<lparr>tw_work_wheel := tw_work_wheel ?w\<rparr>" "length (tw_work_wheel ?w) = length (tw_work_wheel w)"
    by (auto simp: cascade_task_def work_bucket_AddTask_def split: option.split)
  have cnt: "count_list (tw_work_wheel ?w ! i) t = count_list (tw_work_wheel w ! i) t
      + (case tw_tasks w t of Some tk \<Rightarrow> if unat (tt_remainder_interval_ms tk) = i then (if u = t then 1 else 0) else 0 | None \<Rightarrow> 0)"
    if "i < length (tw_work_wheel w)" for i t
    using that by (auto simp: cascade_task_def work_bucket_AddTask_def count_bucket_add split: option.splits)
  have tasks: "tw_tasks ?w = tw_tasks w" by (subst frame(1)) simp
  obtain ww where ww: "fold cascade_task ts ?w = ?w\<lparr>tw_work_wheel := ww\<rparr>" "length ww = length (tw_work_wheel ?w)"
    "\<And>t i. i < length ww \<Longrightarrow> count_list (ww ! i) t = count_list (tw_work_wheel ?w ! i) t
          + (case tw_tasks ?w t of Some tk \<Rightarrow> if unat (tt_remainder_interval_ms tk) = i then count_list ts t else 0 | None \<Rightarrow> 0)"
    using Cons.IH [of ?w] by blast
  have "fold cascade_task (u # ts) w = w\<lparr>tw_work_wheel := ww\<rparr>"
    using ww(1) by (simp add: frame(1) [symmetric]) (subst frame(1), simp)
  moreover have "count_list (ww ! i) t = count_list (tw_work_wheel w ! i) t
      + (case tw_tasks w t of Some tk \<Rightarrow> if unat (tt_remainder_interval_ms tk) = i then count_list (u # ts) t else 0 | None \<Rightarrow> 0)"
    if "i < length ww" for i t
    using ww(3) [OF that, of t] cnt [of i t] that ww(2) frame(2) by (auto simp: tasks split: option.split)
  ultimately show ?case using ww(2) frame(2) by auto
qed

lemma Cascade_eq:
  "\<exists>ww. Cascade j w = w\<lparr>tw_work_wheel := ww, tw_assistant_wheel := (tw_assistant_wheel w)[unat j := []]\<rparr>
     \<and> length ww = length (tw_work_wheel w)
     \<and> (\<forall>t i. i < length ww \<longrightarrow> count_list (ww ! i) t = count_list (tw_work_wheel w ! i) t
          + (case tw_tasks w t of
               Some tk \<Rightarrow> if unat (tt_remainder_interval_ms tk) = i then count_list (tw_assistant_wheel w ! unat j) t else 0
             | None \<Rightarrow> 0))"
  using fold_cascade_task [of "tw_assistant_wheel w ! unat j" w] by (fastforce simp: Cascade_def Let_def)

lemma wheel_ok_TickFunc:
  assumes "wheel_ok w"
  shows "wheel_ok (TickFunc w)"
proof (cases "tw_pc w")
  case At_Sleep
  obtain ww where "Cascade j w' = w'\<lparr>tw_work_wheel := ww j w', tw_assistant_wheel := (tw_assistant_wheel w')[unat j := []]\<rparr>"
    "length (ww j w') = length (tw_work_wheel w')" for j w'
    using Cascade_eq by metis
  then show ?thesis
    using assms At_Sleep by (auto simp: wheel_ok_def TickFunc_def Advance_def Let_def u64_simps)
qed (use assms in \<open>auto simp: wheel_ok_def TickFunc_def Tick_eq\<close>)

lemma wheel_ok_AddTask:
  assumes "wheel_ok w" and "AddTask_at u i w = Some w'"
  shows "wheel_ok w'"
  using assms
  by (auto simp: wheel_ok_def AddTask_at_def Let_def Wheel_Start_def work_bucket_AddTask_def assistant_bucket_AddTask_def
      u64_simps split: option.splits if_splits)

section \<open>Following one task\<close>

datatype place = Work nat | Assist nat

text \<open>The task occurs at the given place exactly once and nowhere else in the wheels.\<close>

definition located :: "timing_wheel \<Rightarrow> nat \<Rightarrow> place option \<Rightarrow> bool" where
  "located w t p \<longleftrightarrow>
     (\<forall>i < 512. count_list (tw_work_wheel w ! i) t = (if p = Some (Work i) then 1 else 0))
   \<and> (\<forall>j < 64. count_list (tw_assistant_wheel w ! j) t = (if p = Some (Assist j) then 1 else 0))"

abbreviation work_index :: "timing_wheel \<Rightarrow> nat" where
  "work_index w \<equiv> unat (tw_current_work_wheel_index w)"

abbreviation assistant_index :: "timing_wheel \<Rightarrow> nat" where
  "assistant_index w \<equiv> unat (tw_current_assistant_wheel_index w)"

text \<open>
  \<open>waits w t r\<close>: the work wheel has to advance \<open>r\<close> times before it reaches the slot of \<open>t\<close>, directly
  or by way of the assistant wheel, whose buckets are emptied one per turn.
\<close>

inductive waits :: "timing_wheel \<Rightarrow> nat \<Rightarrow> nat \<Rightarrow> bool" for w t where
  in_work: "located w t (Some (Work i)) \<Longrightarrow> i < 512 \<Longrightarrow> (tw_pc w = At_Sleep \<longrightarrow> 0 < r) \<Longrightarrow> r < 512
    \<Longrightarrow> i = (work_index w + r) mod 512 \<Longrightarrow> waits w t r"
| in_assistant: "located w t (Some (Assist j)) \<Longrightarrow> tw_tasks w t = Some tk \<Longrightarrow> 1 \<le> k \<Longrightarrow> k \<le> 64
    \<Longrightarrow> j = (assistant_index w + k) mod 64 \<Longrightarrow> r + work_index w = 512 * k + unat (tt_remainder_interval_ms tk) \<Longrightarrow> waits w t r"

text \<open>What the other threads may do meanwhile, and how often the tick thread has advanced the wheel.\<close>

inductive wheel_trace :: "nat \<Rightarrow> timing_wheel \<Rightarrow> nat \<Rightarrow> timing_wheel \<Rightarrow> bool" for t w where
  trace_refl: "wheel_trace t w 0 w"
| trace_thread: "wheel_trace t w n w' \<Longrightarrow> wheel_trace t w (n + (if tw_pc w' = At_Sleep then 1 else 0)) (TickFunc w')"
| trace_add: "wheel_trace t w n w' \<Longrightarrow> u \<noteq> t \<Longrightarrow> AddTask_at u i w' = Some w'' \<Longrightarrow> wheel_trace t w n w''"
| trace_task: "wheel_trace t w n w' \<Longrightarrow> u \<noteq> t \<Longrightarrow> (\<And>tk. x = Some tk \<Longrightarrow> unat (tt_remainder_interval_ms tk) < 512)
    \<Longrightarrow> wheel_trace t w n (w'\<lparr>tw_tasks := (tw_tasks w')(u := x)\<rparr>)"
| trace_async: "wheel_trace t w n w' \<Longrightarrow> wheel_trace t w n (w'\<lparr>tw_async := q, tw_called := c\<rparr>)"

lemma waits_frame:
  assumes "waits w t r" and "\<And>p. located w t p \<Longrightarrow> located w' t p" and "tw_pc w' = tw_pc w"
    and "tw_tasks w' t = tw_tasks w t" and "tw_current_work_wheel_index w' = tw_current_work_wheel_index w"
    and "tw_current_assistant_wheel_index w' = tw_current_assistant_wheel_index w"
  shows "waits w' t r"
  using assms(1)
proof cases
  case (in_work i)
  then show ?thesis using assms by (intro waits.in_work) auto
next
  case (in_assistant j tk k)
  then show ?thesis using assms by (intro waits.in_assistant [of _ _ j tk k]) auto
qed

lemma AddTask_other:
  assumes "AddTask_at u i w = Some w'" and "u \<noteq> t" and "wheel_ok w" and "tw_running w"
  shows "located w' t p \<longleftrightarrow> located w t p" "tw_tasks w' t = tw_tasks w t" "tw_pc w' = tw_pc w" "tw_running w'"
    "tw_current_work_wheel_index w' = tw_current_work_wheel_index w"
    "tw_current_assistant_wheel_index w' = tw_current_assistant_wheel_index w" "tw_fired w' = tw_fired w"
proof -
  have cnt: "count_list (xs[k := xs ! k @ [u]] ! i) t = count_list (xs ! i) t" if "i < length xs" for xs :: "nat list list" and k i
    using count_bucket_add [OF that] assms(2) by simp
  show "located w' t p \<longleftrightarrow> located w t p"
    using assms by (auto simp: located_def wheel_ok_def AddTask_at_def Let_def work_bucket_AddTask_def
        assistant_bucket_AddTask_def cnt split: option.splits if_splits)
qed (use assms in \<open>auto simp: AddTask_at_def Let_def work_bucket_AddTask_def assistant_bucket_AddTask_def
        split: option.splits if_splits\<close>)

text \<open>A tick fires the task when its wait is over and leaves it alone before.\<close>

lemma located_Tick:
  assumes "wheel_ok w" and "located w t p"
  shows "located (Tick w) t (if p = Some (Work (work_index w)) then None else p)"
proof -
  have "length (tw_work_wheel w) = 512" using assms(1) by (simp add: wheel_ok_def)
  then have "tw_work_wheel (Tick w) ! i = (if i = work_index w then [] else tw_work_wheel w ! i)" if "i < 512" for i
    using that by (simp add: Tick_eq nth_list_update)
  then show ?thesis using assms(2) by (simp add: located_def) (simp add: Tick_eq)
qed

lemma fired_Tick:
  assumes "wheel_ok w" and "located w t p" and "tw_tasks w t \<noteq> None"
  shows "count_list (tw_fired (Tick w)) t = count_list (tw_fired w) t + (if p = Some (Work (work_index w)) then 1 else 0)"
proof -
  have "count_list (tw_work_wheel w ! work_index w) t = (if p = Some (Work (work_index w)) then 1 else 0)"
    using assms(1,2) by (simp add: wheel_ok_def located_def)
  then show ?thesis using assms(3) by (simp add: Tick_eq count_list_filter)
qed

lemma Tick_waits:
  assumes "wheel_ok w" and "waits w t r" and "tw_pc w = At_Tick" and "tw_running w" and "tw_tasks w t \<noteq> None"
  shows "if r = 0 then located (TickFunc w) t None \<and> count_list (tw_fired (TickFunc w)) t = count_list (tw_fired w) t + 1
    else waits (TickFunc w) t r \<and> count_list (tw_fired (TickFunc w)) t = count_list (tw_fired w) t"
proof -
  have c: "work_index w < 512" using assms(1) by (simp add: wheel_ok_def)
  have step: "TickFunc w = (Tick w)\<lparr>tw_tick_count := tw_tick_count w + 1, tw_pc := At_Sleep\<rparr>"
    using assms(3,4) by (simp add: TickFunc_def)
  have loc: "located (TickFunc w) t q \<longleftrightarrow> located (Tick w) t q" for q by (simp add: step located_def)
  have frame: "tw_tasks (TickFunc w) = tw_tasks w" "work_index (TickFunc w) = work_index w"
    "assistant_index (TickFunc w) = assistant_index w" "tw_fired (TickFunc w) = tw_fired (Tick w)" "tw_pc (TickFunc w) = At_Sleep"
    by (simp_all add: step Tick_eq)
  from assms(2) show ?thesis
  proof cases
    case (in_work i)
    note tick = located_Tick [OF assms(1) in_work(1)] fired_Tick [OF assms(1) in_work(1) assms(5)]
    show ?thesis
    proof (cases "r = 0")
      case True
      then have "i = work_index w" using in_work(5) c by simp
      then show ?thesis using True tick by (simp add: frame loc)
    next
      case False
      then have "i \<noteq> work_index w" using in_work(4,5) c mod_offset_zero [of r 512 "work_index w"] by auto
      moreover then have "waits (TickFunc w) t r"
        using tick in_work(2,4,5) False by (intro waits.in_work [of _ _ i]) (simp_all add: frame loc)
      ultimately show ?thesis using False tick by (simp add: frame)
    qed
  next
    case (in_assistant j tk k)
    then have "r \<noteq> 0" using c by auto
    then show ?thesis
      using located_Tick [OF assms(1) in_assistant(1)] fired_Tick [OF assms(1) in_assistant(1) assms(5)] in_assistant(2-6)
        waits.in_assistant [of "TickFunc w" t j tk k r] by (simp add: frame loc)
  qed
qed

text \<open>Advancing the wheel brings the task one slot closer, through the assistant wheel if need be.\<close>

lemma located_Cascade:
  assumes "length (tw_work_wheel w) = 512" and "length (tw_assistant_wheel w) = 64" and "unat j < 64"
    and "located w t p" and "tw_tasks w t = Some tk" and "unat (tt_remainder_interval_ms tk) < 512"
  shows "located (Cascade j w) t (if p = Some (Assist (unat j)) then Some (Work (unat (tt_remainder_interval_ms tk))) else p)"
proof -
  obtain ww where eq: "Cascade j w = w\<lparr>tw_work_wheel := ww, tw_assistant_wheel := (tw_assistant_wheel w)[unat j := []]\<rparr>"
    and len: "length ww = 512"
    and cnt: "\<And>i. i < 512 \<Longrightarrow> count_list (ww ! i) t = count_list (tw_work_wheel w ! i) t
       + (if unat (tt_remainder_interval_ms tk) = i then count_list (tw_assistant_wheel w ! unat j) t else 0)"
    using Cascade_eq [of j w] assms(1,5) by force
  have "tw_assistant_wheel (Cascade j w) ! i = (if i = unat j then [] else tw_assistant_wheel w ! i)" if "i < 64" for i
    using that assms(2) by (simp add: eq nth_list_update)
  moreover have "count_list (tw_assistant_wheel w ! unat j) t = (if p = Some (Assist (unat j)) then 1 else 0)"
    using assms(3,4) by (simp add: located_def)
  moreover have "tw_work_wheel (Cascade j w) = ww" by (simp add: eq)
  ultimately show ?thesis using assms(4) by (auto simp: located_def cnt)
qed

lemma Advance_frame:
  assumes "tw_pc w = At_Sleep"
  shows "tw_tasks (TickFunc w) = tw_tasks w" "tw_fired (TickFunc w) = tw_fired w" "tw_pc (TickFunc w) = At_Tick"
    "tw_running (TickFunc w) = tw_running w"
proof -
  have "\<exists>ww aw. Cascade j v = v\<lparr>tw_work_wheel := ww, tw_assistant_wheel := aw\<rparr>" for j v
    using Cascade_eq [of j v] by blast
  then obtain ww aw where c: "\<And>j v. Cascade j v = v\<lparr>tw_work_wheel := ww j v, tw_assistant_wheel := aw j v\<rparr>"
    by metis
  show "tw_tasks (TickFunc w) = tw_tasks w" "tw_fired (TickFunc w) = tw_fired w" "tw_pc (TickFunc w) = At_Tick"
    "tw_running (TickFunc w) = tw_running w"
    using assms by (simp_all add: TickFunc_def Advance_def Let_def c)
qed

lemma Advance_inner:
  assumes "tw_pc w = At_Sleep" and "work_index w + 1 < 512"
  shows "work_index (TickFunc w) = work_index w + 1" "assistant_index (TickFunc w) = assistant_index w"
    "located (TickFunc w) t p \<longleftrightarrow> located w t p"
proof -
  have idx: "unat (GetWorkWheelIndex (tw_current_work_wheel_index w + 1)) = work_index w + 1"
    using assms(2) by (simp add: u64_simps)
  then have "GetWorkWheelIndex (tw_current_work_wheel_index w + 1) \<noteq> 0" by (auto simp: u64_eq_iff)
  then have "TickFunc w = w\<lparr>tw_current_work_wheel_index := GetWorkWheelIndex (tw_current_work_wheel_index w + 1), tw_pc := At_Tick\<rparr>"
    using assms(1) by (simp add: TickFunc_def Advance_def)
  then show "work_index (TickFunc w) = work_index w + 1" "assistant_index (TickFunc w) = assistant_index w"
    "located (TickFunc w) t p \<longleftrightarrow> located w t p"
    using idx by (simp_all add: located_def)
qed

lemma Advance_turn:
  assumes "tw_pc w = At_Sleep" and "work_index w = 511" and "wheel_ok w" and "located w t p" and "tw_tasks w t = Some tk"
  defines "a \<equiv> (assistant_index w + 1) mod 64"
  shows "work_index (TickFunc w) = 0" "assistant_index (TickFunc w) = a"
    "located (TickFunc w) t (if p = Some (Assist a) then Some (Work (unat (tt_remainder_interval_ms tk))) else p)"
proof -
  let ?a = "GetAssistantWheelIndex (tw_current_assistant_wheel_index w + 1)"
  let ?w = "w\<lparr>tw_current_work_wheel_index := 0, tw_current_assistant_wheel_index := ?a\<rparr>"
  have "unat (GetWorkWheelIndex (tw_current_work_wheel_index w + 1)) = 0" using assms(2) by (simp add: u64_simps)
  then have "GetWorkWheelIndex (tw_current_work_wheel_index w + 1) = 0" by (simp add: u64_eq_iff)
  then have step: "TickFunc w = (Cascade ?a ?w)\<lparr>tw_pc := At_Tick\<rparr>"
    using assms(1) by (simp add: TickFunc_def Advance_def)
  have a: "unat ?a = a" using assms(3) by (simp add: a_def u64_simps wheel_ok_def)
  have ok: "length (tw_work_wheel ?w) = 512" "length (tw_assistant_wheel ?w) = 64" "unat ?a < 64"
    "located ?w t p" "tw_tasks ?w t = Some tk" "unat (tt_remainder_interval_ms tk) < 512"
    using assms(3,4,5) by (auto simp: wheel_ok_def located_def a a_def)
  show "located (TickFunc w) t (if p = Some (Assist a) then Some (Work (unat (tt_remainder_interval_ms tk))) else p)"
    using located_Cascade [OF ok] by (simp add: a step located_def)
  obtain ww aw where "Cascade ?a ?w = ?w\<lparr>tw_work_wheel := ww, tw_assistant_wheel := aw\<rparr>" using Cascade_eq by blast
  then show "work_index (TickFunc w) = 0" "assistant_index (TickFunc w) = a" by (simp_all add: step a)
qed

lemma Advance_waits:
  assumes "wheel_ok w" and "waits w t r" and "tw_pc w = At_Sleep" and "tw_tasks w t = Some tk"
  shows "0 < r \<and> waits (TickFunc w) t (r - 1)"
proof -
  note frame = Advance_frame [OF assms(3)]
  have c: "work_index w < 512" and a: "assistant_index w < 64" and rem: "unat (tt_remainder_interval_ms tk) < 512"
    using assms(1,4) by (auto simp: wheel_ok_def)
  from assms(2) have "0 < r" using c assms(3) by cases auto
  moreover have "waits (TickFunc w) t (r - 1)"
  proof (cases "work_index w + 1 < 512")
    case True
    note inner = Advance_inner [OF assms(3) True]
    from assms(2) show ?thesis
    proof cases
      case (in_work i)
      then show ?thesis using \<open>0 < r\<close> by (intro waits.in_work [of _ _ i]) (simp_all add: inner frame)
    next
      case (in_assistant j tk' k)
      then show ?thesis using \<open>0 < r\<close> by (intro waits.in_assistant [of _ _ j tk' k]) (simp_all add: inner frame)
    qed
  next
    case False
    then have top: "work_index w = 511" using c by simp
    note turn = Advance_turn [OF assms(3) top assms(1) _ assms(4)]
    from assms(2) show ?thesis
    proof cases
      case (in_work i)
      have "i = r - 1" using in_work(4,5) top \<open>0 < r\<close> by (simp add: mod_if)
      then show ?thesis using turn [OF in_work(1)] in_work(2,4) by (intro waits.in_work [of _ _ i]) (simp_all add: frame)
    next
      case (in_assistant j tk' k)
      have [simp]: "tk' = tk" using in_assistant(2) assms(4) by simp
      show ?thesis
      proof (cases "k = 1")
        case True
        then show ?thesis
          using turn [OF in_assistant(1)] in_assistant(5,6) rem top
          by (intro waits.in_work [of _ _ "unat (tt_remainder_interval_ms tk)"]) (simp_all add: frame)
      next
        case False
        then obtain m where k: "k = m + 1" "0 < m" "m < 64" using in_assistant(3,4) by (cases k) auto
        have j: "j = ((assistant_index w + 1) mod 64 + m) mod 64"
          using in_assistant(5) by (simp add: k mod_add_left_eq)
        then have "j \<noteq> (assistant_index w + 1) mod 64"
          using mod_offset_zero [of m 64 "(assistant_index w + 1) mod 64"] k by auto
        then show ?thesis
          using turn [OF in_assistant(1)] in_assistant(2,6) j top k
          by (intro waits.in_assistant [of _ _ j tk m]) (simp_all add: frame)
      qed
    qed
  qed
  ultimately show ?thesis ..
qed

text \<open>A new task waits for exactly its duration, rounded up to ticks.\<close>

lemma located_add_work:
  "wheel_ok w \<Longrightarrow> located w t None \<Longrightarrow> located (work_bucket_AddTask i t w) t (Some (Work (unat i)))"
  by (auto simp: located_def wheel_ok_def work_bucket_AddTask_def count_bucket_add)

lemma located_add_assistant:
  "wheel_ok w \<Longrightarrow> located w t None \<Longrightarrow> located (assistant_bucket_AddTask j t w) t (Some (Assist (unat j)))"
  by (auto simp: located_def wheel_ok_def assistant_bucket_AddTask_def count_bucket_add)

lemma AddTask_waits:
  assumes "wheel_ok w" and "located w t None" and "tw_tasks w t = Some tk" and "AddTask t w = Some w'"
    and "d = unat (duration_ticks (tt_next_fire_duration_ms tk))" and "0 < d" and "d \<le> 32768"
  shows "waits w' t d" "tw_running w'" "tw_fired w' = tw_fired w" "\<exists>tk'. tw_tasks w' t = Some tk'"
proof -
  let ?c = "work_index w" and ?W = "tw_current_work_wheel_index w + duration_ticks (tt_next_fire_duration_ms tk)"
  define w1 where "w1 = (if \<not> tw_running w then Wheel_Start w else w)"
  define w2 where "w2 = w1\<lparr>tw_tasks := (tw_tasks w1)(t \<mapsto> tk\<lparr>tt_remainder_interval_ms := GetWorkWheelIndex ?W\<rparr>)\<rparr>"
  have c: "?c < 512" "assistant_index w < 64" using assms(1) by (simp_all add: wheel_ok_def)
  have W: "unat ?W = ?c + d" using c assms(5,7) by (simp add: u64_simps)
  have w1: "wheel_ok w1" "located w1 t None" "work_index w1 = ?c" "tw_current_work_wheel_index w1 = tw_current_work_wheel_index w"
    "assistant_index w1 = assistant_index w"
    "tw_running w1" "tw_fired w1 = tw_fired w" "tw_tasks w1 = tw_tasks w"
    using assms(1,2) by (auto simp: w1_def Wheel_Start_def wheel_ok_def located_def)
  have w2: "wheel_ok w2" "located w2 t None" "work_index w2 = ?c" "assistant_index w2 = assistant_index w"
    "tw_current_work_wheel_index w2 = tw_current_work_wheel_index w"
    "tw_running w2" "tw_fired w2 = tw_fired w" "tw_tasks w2 t = Some (tk\<lparr>tt_remainder_interval_ms := GetWorkWheelIndex ?W\<rparr>)"
    using w1 by (auto simp: w2_def wheel_ok_def located_def u64_simps)
  have div: "unat (?W div 512) = (?c + d) div 512" by (simp add: unat_div W)
  consider (near) "?c + d < 512" "w' = work_bucket_AddTask ?W t w1"
    | (wrap) "512 \<le> ?c + d" "(?c + d) div 512 = 1" "(?c + d) mod 512 < ?c" "w' = work_bucket_AddTask (GetWorkWheelIndex ?W) t w2"
    | (far) "512 \<le> ?c + d"
        "w' = assistant_bucket_AddTask (GetAssistantWheelIndex (tw_current_assistant_wheel_index w2 + ?W div 512)) t w2"
    using assms(3,4) unfolding AddTask_def AddTask_at_def
    by (simp add: Let_def w1_def [symmetric] w2_def [symmetric] u64_to_nat W div u64_simps w1(3) w2(3) split: if_splits)
  then have "waits w' t d \<and> tw_running w' \<and> tw_fired w' = tw_fired w \<and> (\<exists>tk'. tw_tasks w' t = Some tk')"
  proof cases
    case near
    have "located w' t (Some (Work (?c + d)))" using located_add_work [OF w1(1,2), of ?W] by (simp add: near W)
    then show ?thesis
      using near assms(3,6) w1 by (auto intro!: waits.in_work simp: work_bucket_AddTask_def)
  next
    case wrap
    have "located w' t (Some (Work ((?c + d) mod 512)))"
      using located_add_work [OF w2(1,2), of "GetWorkWheelIndex ?W"] by (simp add: wrap(4) W u64_simps)
    moreover have "d < 512" using wrap(2,3) div_mult_mod_eq [of "?c + d" 512] by linarith
    ultimately show ?thesis
      using assms(6) w2 by (auto intro!: waits.in_work simp: wrap(4) work_bucket_AddTask_def)
  next
    case far
    let ?k = "(?c + d) div 512"
    have k: "1 \<le> ?k" "?k \<le> 64" using far(1) c assms(7) by (auto simp: div_le_dividend less_eq_div_iff_mult_less_eq div_less_iff_less_mult)
    have "unat (tw_current_assistant_wheel_index w2 + ?W div 512) = assistant_index w + ?k"
      using c k div w2(4) by (simp add: u64_simps)
    then have loc: "located w' t (Some (Assist ((assistant_index w + ?k) mod 64)))"
      using located_add_assistant [OF w2(1,2), of "GetAssistantWheelIndex (tw_current_assistant_wheel_index w2 + ?W div 512)"]
      by (simp add: far(2) GetAssistantWheelIndex_nat)
    have frame: "tw_tasks w' = tw_tasks w2" "work_index w' = ?c" "assistant_index w' = assistant_index w" "tw_running w'"
      "tw_fired w' = tw_fired w"
      using w2 by (simp_all add: far(2) assistant_bucket_AddTask_def)
    have "waits w' t d"
      by (rule waits.in_assistant [OF loc _ k, of "tk\<lparr>tt_remainder_interval_ms := GetWorkWheelIndex ?W\<rparr>"])
        (simp_all add: frame w2(8) GetWorkWheelIndex_nat W)
    then show ?thesis using frame w2(8) by simp
  qed
  then show "waits w' t d" "tw_running w'" "tw_fired w' = tw_fired w" "\<exists>tk'. tw_tasks w' t = Some tk'" by auto
qed

lemma absent_TickFunc:
  assumes "wheel_ok w" and "located w t None" and "tw_tasks w t = Some tk" and "tw_running w"
  shows "located (TickFunc w) t None" "count_list (tw_fired (TickFunc w)) t = count_list (tw_fired w) t"
proof -
  have "located (TickFunc w) t None \<and> count_list (tw_fired (TickFunc w)) t = count_list (tw_fired w) t"
  proof (cases "tw_pc w")
    case At_Tick
    then have step: "TickFunc w = (Tick w)\<lparr>tw_tick_count := tw_tick_count w + 1, tw_pc := At_Sleep\<rparr>"
      using assms(4) by (simp add: TickFunc_def)
    show ?thesis
      using located_Tick [OF assms(1,2)] fired_Tick [OF assms(1,2)] assms(3) by (simp add: step located_def)
  next
    case At_Sleep
    have "work_index w < 512" using assms(1) by (simp add: wheel_ok_def)
    then consider "work_index w + 1 < 512" | "work_index w = 511" by linarith
    then have "located (TickFunc w) t None"
      using Advance_inner(3) [OF At_Sleep] Advance_turn(3) [OF At_Sleep _ assms(1-3)] assms(2) by cases auto
    then show ?thesis using Advance_frame [OF At_Sleep] by simp
  qed (use assms in \<open>simp add: TickFunc_def\<close>)
  then show "located (TickFunc w) t None" "count_list (tw_fired (TickFunc w)) t = count_list (tw_fired w) t" by auto
qed

lemma TickFunc_frame: "tw_tasks (TickFunc w) = tw_tasks w" "tw_running (TickFunc w) = tw_running w"
  using Advance_frame [of w] by (cases "tw_pc w"; simp add: TickFunc_def Tick_eq)+

text \<open>The state of a task \<open>n\<close> advances after it was added with a wait of \<open>d\<close>.\<close>

definition on_time :: "nat \<Rightarrow> nat \<Rightarrow> nat \<Rightarrow> nat \<Rightarrow> timing_wheel \<Rightarrow> bool" where
  "on_time t d n base w \<longleftrightarrow>
     (if d < n \<or> (n = d \<and> tw_pc w = At_Sleep)
      then located w t None \<and> count_list (tw_fired w) t = base + 1
      else n \<le> d \<and> waits w t (d - n) \<and> count_list (tw_fired w) t = base)"

lemma on_time_frame:
  assumes "on_time t d n base w" and "\<And>p. located w t p \<Longrightarrow> located w' t p" and "tw_pc w' = tw_pc w"
    and "tw_tasks w' t = tw_tasks w t" and "tw_current_work_wheel_index w' = tw_current_work_wheel_index w"
    and "tw_current_assistant_wheel_index w' = tw_current_assistant_wheel_index w" and "tw_fired w' = tw_fired w"
  shows "on_time t d n base w'"
  using assms waits_frame [of w t _ w'] by (auto simp: on_time_def)

lemma on_time_thread:
  assumes "on_time t d n base w" and "wheel_ok w" and "tw_running w" and "tw_tasks w t = Some tk"
  shows "on_time t d (n + (if tw_pc w = At_Sleep then 1 else 0)) base (TickFunc w)"
proof (cases "d < n \<or> (n = d \<and> tw_pc w = At_Sleep)")
  case True
  then have "located w t None" "count_list (tw_fired w) t = base + 1" using assms(1) by (auto simp: on_time_def)
  then show ?thesis using True absent_TickFunc [OF assms(2) _ assms(4,3)] by (auto simp: on_time_def)
next
  case False
  then have w: "n \<le> d" "waits w t (d - n)" "count_list (tw_fired w) t = base" using assms(1) by (auto simp: on_time_def)
  show ?thesis
  proof (cases "tw_pc w")
    case At_Tick
    then have "tw_pc (TickFunc w) = At_Sleep" using assms(3) by (simp add: TickFunc_def)
    then show ?thesis
      using Tick_waits [OF assms(2) w(2) At_Tick assms(3)] w(1,3) At_Tick assms(4)
      by (cases "n = d") (auto simp: on_time_def)
  next
    case At_Sleep
    then show ?thesis
      using Advance_waits [OF assms(2) w(2) At_Sleep assms(4)] Advance_frame [OF At_Sleep] w(1,3) False
      by (auto simp: on_time_def)
  qed (use assms(2,3) in \<open>simp add: wheel_ok_def\<close>)
qed

lemma trace_on_time:
  assumes "wheel_trace t w n w'" and "wheel_ok w" and "tw_running w" and "waits w t d" and "tw_tasks w t = Some tk"
  shows "wheel_ok w' \<and> tw_running w' \<and> tw_tasks w' t = Some tk \<and> on_time t d n (count_list (tw_fired w) t) w'"
  using assms(1)
proof induction
  case trace_refl
  have "\<not> (d = 0 \<and> tw_pc w = At_Sleep)"
    using assms(2,4) by (auto simp: wheel_ok_def elim!: waits.cases)
  then show ?case using assms(2-5) by (auto simp: on_time_def)
next
  case (trace_thread n w')
  then show ?case using wheel_ok_TickFunc on_time_thread TickFunc_frame by auto
next
  case (trace_add n w' u i w'')
  then have ok: "wheel_ok w'" "tw_running w'" "on_time t d n (count_list (tw_fired w) t) w'" by auto
  note other = AddTask_other [OF trace_add.hyps(3,2) ok(1,2)]
  from ok(3) have "on_time t d n (count_list (tw_fired w) t) w''"
    by (rule on_time_frame) (simp_all add: other)
  then show ?case using trace_add wheel_ok_AddTask other by auto
next
  case (trace_task n w' u x)
  let ?w = "w'\<lparr>tw_tasks := (tw_tasks w')(u := x)\<rparr>"
  have "on_time t d n (count_list (tw_fired w) t) w'" using trace_task.IH by blast
  then have "on_time t d n (count_list (tw_fired w) t) ?w"
    by (rule on_time_frame) (simp_all add: located_def trace_task.hyps(2) [symmetric])
  moreover have "wheel_ok ?w" using trace_task.IH trace_task.hyps(3) by (auto simp: wheel_ok_def)
  ultimately show ?case using trace_task.IH trace_task.hyps(2) by simp
next
  case (trace_async n w' c q)
  let ?w = "w'\<lparr>tw_async := q, tw_called := c\<rparr>"
  have "on_time t d n (count_list (tw_fired w) t) w'" using trace_async.IH by blast
  then have "on_time t d n (count_list (tw_fired w) t) ?w" by (rule on_time_frame) (simp_all add: located_def)
  then show ?case using trace_async.IH by (simp add: wheel_ok_def)
qed

end
