(* ===== verification/Cyber_Timer.thy ===== *)
theory Cyber_Timer
  imports Timing_Wheel
begin

text \<open>
  \<open>timer/timer.h\<close> and \<open>timer/timer.cc\<close>: oneshot and periodic timers on top of the timing wheel.

  A timer owns its task through \<open>task_\<close>; the wheel and the closures hold weak pointers, so dropping
  \<open>task_\<close> clears the address in the store. \<open>new TimerTask\<close> is given the address it returns. The two
  clock readings around the user callback are arguments. \<open>None\<close> as a result is undefined behaviour:
  a call through a dangling pointer or of an empty \<open>std::function\<close>.
\<close>

section \<open>State\<close>

record timer_option =
  to_period :: u32
  to_callback :: "nat option"
  to_oneshot :: bool

definition TimerOption :: "u32 \<Rightarrow> nat option \<Rightarrow> bool \<Rightarrow> timer_option" where
  "TimerOption period callback oneshot = \<lparr>to_period = period, to_callback = callback, to_oneshot = oneshot\<rparr>"

definition TimerOption_default :: timer_option where
  "TimerOption_default = \<lparr>to_period = 0, to_callback = None, to_oneshot = False\<rparr>"

record timer =
  tm_timer_id :: u64
  tm_timer_opt :: timer_option
  tm_task :: "nat option"
  tm_started :: bool

section \<open>Operations\<close>

definition GenerateTimerId :: "u64 \<Rightarrow> u64 \<times> u64" where
  "GenerateTimerId global_timer_id = (global_timer_id, global_timer_id + 1)"

definition Timer_opt :: "timer_option \<Rightarrow> u64 \<Rightarrow> timer \<times> u64" where
  "Timer_opt opt g =
     (let (timer_id, g') = GenerateTimerId g
      in (\<lparr>tm_timer_id = timer_id, tm_timer_opt = opt, tm_task = None, tm_started = False\<rparr>, g'))"

definition Timer_default :: "u64 \<Rightarrow> timer \<times> u64" where
  "Timer_default g =
     (let (timer_id, g') = GenerateTimerId g
      in (\<lparr>tm_timer_id = timer_id, tm_timer_opt = TimerOption_default, tm_task = None, tm_started = False\<rparr>, g'))"

definition Timer_args :: "u32 \<Rightarrow> nat option \<Rightarrow> bool \<Rightarrow> u64 \<Rightarrow> timer \<times> u64" where
  "Timer_args period callback oneshot g =
     (let (tm, g') = Timer_default g
      in (tm\<lparr>tm_timer_opt := \<lparr>to_period = period, to_callback = callback, to_oneshot = oneshot\<rparr>\<rparr>, g'))"

definition SetTimerOption :: "timer_option \<Rightarrow> timer \<Rightarrow> timer" where
  "SetTimerOption opt tm = tm\<lparr>tm_timer_opt := opt\<rparr>"

definition drop_task :: "nat option \<Rightarrow> timing_wheel \<Rightarrow> timing_wheel" where
  "drop_task p w = (case p of None \<Rightarrow> w | Some ref \<Rightarrow> w\<lparr>tw_tasks := (tw_tasks w)(ref := None)\<rparr>)"

definition InitTimerTask :: "nat \<Rightarrow> timer \<Rightarrow> timing_wheel \<Rightarrow> bool \<times> timer \<times> timing_wheel" where
  "InitTimerTask ref tm w =
     (let opt = tm_timer_opt tm
      in if to_period opt = 0 then (False, tm, w)
         else if ucast (to_period opt) \<ge> TIMER_MAX_INTERVAL_MS then (False, tm, w)
         else
           let interval = ucast (to_period opt);
               task = (TimerTask (tm_timer_id tm))
                 \<lparr>tt_interval_ms := interval, tt_next_fire_duration_ms := interval,
                  tt_callback := Some (if to_oneshot opt then Oneshot_closure (to_callback opt) else Periodic_closure (to_callback opt))\<rparr>;
               w1 = drop_task (tm_task tm) w
           in (True, tm\<lparr>tm_task := Some ref\<rparr>, w1\<lparr>tw_tasks := (tw_tasks w1)(ref \<mapsto> task)\<rparr>))"

definition Timer_Start :: "bool \<Rightarrow> nat \<Rightarrow> timer \<Rightarrow> timing_wheel \<Rightarrow> (timer \<times> timing_wheel) option" where
  "Timer_Start is_reality_mode ref tm w =
     (if \<not> is_reality_mode then Some (tm, w)
      else if tm_started tm then Some (tm, w)
      else
        let (ok, tm', w') = InitTimerTask ref (tm\<lparr>tm_started := True\<rparr>) w
        in if ok then map_option (Pair tm') (AddTask ref w') else Some (tm', w'))"

definition Timer_Stop :: "timer \<Rightarrow> timing_wheel \<Rightarrow> timer \<times> timing_wheel" where
  "Timer_Stop tm w =
     (let tm' = tm\<lparr>tm_started := False\<rparr>
      in if tm_started tm \<and> tm_task tm \<noteq> None
         then (tm'\<lparr>tm_task := None\<rparr>, drop_task (tm_task tm) w)
         else (tm', w))"

definition Timer_destroy :: "timer \<Rightarrow> timing_wheel \<Rightarrow> timing_wheel" where
  "Timer_destroy tm w =
     (let (tm', w') = (if tm_task tm \<noteq> None then Timer_Stop tm w else (tm, w)) in drop_task (tm_task tm') w')"

section \<open>The closures\<close>

text \<open>
  \<open>std::llround\<close> of a number of nanoseconds divided by \<open>1e6\<close>: to the nearest millisecond, halves away
  from zero. The division in \<open>double\<close> gives this below \<open>2 ^ 53\<close> nanoseconds.
\<close>

definition llround_ms :: "int \<Rightarrow> int" where
  "llround_ms ns = (if 0 \<le> ns then (ns + 500000) div 1000000 else - ((500000 - ns) div 1000000))"

text \<open>The bookkeeping of the periodic closure, between the callback and re-adding the task.\<close>

definition periodic_update :: "u64 \<Rightarrow> u64 \<Rightarrow> timer_task \<Rightarrow> timer_task" where
  "periodic_update start_ns end_ns task =
     (let execute_time_ns = end_ns - start_ns;
          execute_time_ms = word_of_int (llround_ms (uint execute_time_ns)) :: u64;
          accumulated_error_ns =
            (if tt_last_execute_time_ns task = 0 then tt_accumulated_error_ns task
             else tt_accumulated_error_ns task + (start_ns - tt_last_execute_time_ns task - tt_interval_ms task * 1000000));
          accumulated_error_ms = llround_ms (sint accumulated_error_ns);
          next_fire_duration_ms =
            (if execute_time_ms \<ge> tt_interval_ms task then TIMER_RESOLUTION_MS
             else if sint (tt_interval_ms task - execute_time_ms - TIMER_RESOLUTION_MS) \<ge> accumulated_error_ms
             then tt_interval_ms task - execute_time_ms - word_of_int accumulated_error_ms
             else TIMER_RESOLUTION_MS)
      in task\<lparr>tt_accumulated_error_ns := accumulated_error_ns, tt_last_execute_time_ns := start_ns,
              tt_next_fire_duration_ms := next_fire_duration_ms\<rparr>)"

fun call_closure :: "nat \<Rightarrow> u64 \<Rightarrow> u64 \<Rightarrow> timer_closure \<Rightarrow> timing_wheel \<Rightarrow> timing_wheel option" where
  "call_closure ref start_ns end_ns (Oneshot_closure callback) w =
     (case tw_tasks w ref of
        None \<Rightarrow> Some w
      | Some _ \<Rightarrow> map_option (\<lambda>cb. w\<lparr>tw_called := tw_called w @ [cb]\<rparr>) callback)"
| "call_closure ref start_ns end_ns (Periodic_closure callback) w =
     (case tw_tasks w ref of
        None \<Rightarrow> Some w
      | Some task \<Rightarrow>
          (case callback of
             None \<Rightarrow> None
           | Some cb \<Rightarrow>
               AddTask ref (w\<lparr>tw_called := tw_called w @ [cb],
                              tw_tasks := (tw_tasks w)(ref \<mapsto> periodic_update start_ns end_ns task)\<rparr>)))"

text \<open>
  What \<open>Tick\<close> submits: the closure reads \<open>running_\<close> and then calls through the pointer to the
  \<open>callback\<close> member of the task.
\<close>

definition run_async :: "u64 \<Rightarrow> u64 \<Rightarrow> timing_wheel \<Rightarrow> timing_wheel option" where
  "run_async start_ns end_ns w =
     (case tw_async w of
        [] \<Rightarrow> Some w
      | ref # rest \<Rightarrow>
          let w' = w\<lparr>tw_async := rest\<rparr>
          in if \<not> tw_running w' then Some w'
             else case tw_tasks w' ref of
                    None \<Rightarrow> None
                  | Some task \<Rightarrow> Option.bind (tt_callback task) (\<lambda>closure. call_closure ref start_ns end_ns closure w'))"

section \<open>Starting a timer\<close>

lemma max_interval: "unat TIMER_MAX_INTERVAL_MS = 65536"
  by (simp add: TIMER_MAX_INTERVAL_MS_def)

lemma unat_period: "unat (ucast (p :: u32) :: u64) = unat p"
  using unsigned_less [of p, where ?'a = nat] by (simp add: unsigned_ucast_eq take_bit_eq_mod)

lemma Timer_Start_waits:
  assumes "wheel_ok w" and "located w ref None" and "\<not> tm_started tm" and "tm_task tm = None"
    and "to_period (tm_timer_opt tm) = p" and "0 < unat p" and "unat p < 65536"
  obtains tm' w' tk where "Timer_Start True ref tm w = Some (tm', w')" "tm_started tm'" "tm_task tm' = Some ref"
    "wheel_ok w'" "tw_running w'" "tw_tasks w' ref = Some tk" "waits w' ref ((unat p + 1) div 2)" "tw_fired w' = tw_fired w"
proof -
  define tk where "tk = (TimerTask (tm_timer_id tm))\<lparr>tt_interval_ms := ucast p, tt_next_fire_duration_ms := ucast p,
    tt_callback := Some (if to_oneshot (tm_timer_opt tm) then Oneshot_closure (to_callback (tm_timer_opt tm))
      else Periodic_closure (to_callback (tm_timer_opt tm)))\<rparr>"
  define w1 where "w1 = w\<lparr>tw_tasks := (tw_tasks w)(ref \<mapsto> tk)\<rparr>"
  define tm1 where "tm1 = tm\<lparr>tm_started := True, tm_task := Some ref\<rparr>"
  have "p \<noteq> 0" "\<not> TIMER_MAX_INTERVAL_MS \<le> ucast p"
    using assms(6,7) by (auto simp: word_le_nat_alt max_interval unat_period)
  then have init: "InitTimerTask ref (tm\<lparr>tm_started := True\<rparr>) w = (True, tm1, w1)"
    using assms(4,5) by (simp add: InitTimerTask_def Let_def drop_task_def tk_def w1_def tm1_def)
  have w1: "wheel_ok w1" "located w1 ref None" "tw_tasks w1 ref = Some tk"
    using assms(1,2) by (auto simp: w1_def tk_def TimerTask_def wheel_ok_def located_def)
  obtain w' where add: "AddTask ref w1 = Some w'"
    using w1(3) by (auto simp: AddTask_def AddTask_at_def Let_def)
  have d: "(unat p + 1) div 2 = unat (duration_ticks (tt_next_fire_duration_ms tk))"
    by (simp add: duration_ticks_nat tk_def unat_period)
  have "0 < (unat p + 1) div 2" "(unat p + 1) div 2 \<le> 32768" using assms(6,7) by linarith+
  note wait = AddTask_waits [OF w1 add d this]
  moreover have "wheel_ok w'" using wheel_ok_AddTask [OF w1(1) add [unfolded AddTask_def]] .
  moreover have "Timer_Start True ref tm w = Some (tm1, w')" using assms(3) init add by (simp add: Timer_Start_def)
  ultimately show ?thesis using that [of tm1 w'] by (auto simp: tm1_def w1_def)
qed

lemma TickFunc_pc: "tw_running w \<Longrightarrow> tw_pc w \<noteq> No_Thread \<Longrightarrow>
    tw_pc (TickFunc w) = (if tw_pc w = At_Tick then At_Sleep else At_Tick)"
  by (cases "tw_pc w") (simp_all add: TickFunc_def)

text \<open>The tick thread alone, in \<open>2 k + 1\<close> of its steps, advances the wheel \<open>k\<close> times and ticks once more.\<close>

lemma thread_trace:
  assumes "tw_running w" and "tw_pc w \<noteq> No_Thread"
  shows "wheel_trace t w (if tw_pc w = At_Tick then k else k + 1) ((TickFunc ^^ (2 * k + 1)) w)
    \<and> tw_running ((TickFunc ^^ (2 * k + 1)) w)
    \<and> tw_pc ((TickFunc ^^ (2 * k + 1)) w) = (if tw_pc w = At_Tick then At_Sleep else At_Tick)"
proof (induction k)
  case 0
  show ?case
    using trace_thread [OF trace_refl, of t w] assms TickFunc_pc [OF assms]
    by (cases "tw_pc w") (auto simp: TickFunc_frame)
next
  case (Suc k)
  let ?v = "(TickFunc ^^ (2 * k + 1)) w"
  have v: "tw_running ?v" "tw_pc ?v \<noteq> No_Thread" using Suc.IH by auto
  have v': "tw_running (TickFunc ?v)" "tw_pc (TickFunc ?v) \<noteq> No_Thread" using v TickFunc_pc [OF v] by (auto simp: TickFunc_frame)
  have "(TickFunc ^^ (2 * Suc k + 1)) w = TickFunc (TickFunc ?v)" by simp
  moreover have "wheel_trace t w (if tw_pc w = At_Tick then Suc k else Suc k + 1) (TickFunc (TickFunc ?v))"
    using trace_thread [OF trace_thread [OF conjunct1 [OF Suc.IH]]] Suc.IH TickFunc_pc [OF v]
    by (auto split: if_splits simp del: funpow.simps)
  ultimately show ?case using TickFunc_pc [OF v] TickFunc_pc [OF v'] v' Suc.IH by (simp add: TickFunc_frame del: funpow.simps)
qed

lemma located_new: "located TimingWheel t None"
  by (simp add: located_def TimingWheel_def)

lemma dead_TickFunc:
  assumes "tw_tasks w t = None"
  shows "count_list (tw_fired (TickFunc w)) t = count_list (tw_fired w) t"
proof (cases "tw_pc w")
  case At_Tick
  have "count_list (filter (\<lambda>u. tw_tasks w u \<noteq> None) xs) t = 0" for xs using assms by (auto simp: count_list_0_iff)
  then show ?thesis using At_Tick by (simp add: TickFunc_def Tick_eq)
qed (simp_all add: Advance_frame, simp add: TickFunc_def)

lemma dead_trace:
  assumes "wheel_trace t w n w'" and "tw_tasks w t = None"
  shows "tw_tasks w' t = None \<and> count_list (tw_fired w') t = count_list (tw_fired w) t"
  using assms
proof induction
  case (trace_add n w' u i w'')
  then show ?case
    by (auto simp: AddTask_at_def Let_def Wheel_Start_def work_bucket_AddTask_def assistant_bucket_AddTask_def
        split: option.splits if_splits)
qed (auto simp: TickFunc_frame dead_TickFunc)

section \<open>The periodic closure\<close>

lemma llround_ms_bounds: "- 9223372036855 \<le> llround_ms (sint (x :: u64))" "llround_ms (sint (x :: u64)) \<le> 9223372036855"
proof -
  have "- (2 ^ 63) \<le> sint x" "sint x < 2 ^ 63" using sint_greater_eq [of x] sint_less [of x] by simp_all
  then show "- 9223372036855 \<le> llround_ms (sint x)" "llround_ms (sint x) \<le> 9223372036855"
    by (auto simp: llround_ms_def)
qed

lemma sint_word_of_int: "- (2 ^ 63) \<le> k \<Longrightarrow> k < 2 ^ 63 \<Longrightarrow> sint (word_of_int k :: u64) = k"
  by (simp add: signed_of_int signed_take_bit_int_eq_self)

lemma unat_word_of_int: "0 \<le> k \<Longrightarrow> k < 2 ^ 64 \<Longrightarrow> unat (word_of_int k :: u64) = nat k"
  by (simp add: unsigned_of_int take_bit_int_eq_self)

lemma periodic_update_next:
  fixes s e :: u64
  assumes "unat (tt_interval_ms tk) < 65536"
  defines "tk' \<equiv> periodic_update s e tk"
  shows "2 \<le> unat (tt_next_fire_duration_ms tk')" "unat (tt_next_fire_duration_ms tk') \<le> 9223372102390"
    "0 \<le> sint (tt_accumulated_error_ns tk') \<Longrightarrow> unat (tt_next_fire_duration_ms tk') \<le> max 2 (unat (tt_interval_ms tk))"
    "tt_remainder_interval_ms tk' = tt_remainder_interval_ms tk"
proof -
  let ?x = "word_of_int (llround_ms (uint (e - s))) :: u64" and ?i = "tt_interval_ms tk"
    and ?acc = "tt_accumulated_error_ns tk'"
  let ?err = "llround_ms (sint ?acc)" and ?nx = "tt_next_fire_duration_ms tk'"
  have nx: "?nx = (if ?x \<ge> ?i then 2 else if sint (?i - ?x - 2) \<ge> ?err then ?i - ?x - word_of_int ?err else 2)"
    by (simp add: tk'_def periodic_update_def Let_def)
  have err: "- 9223372036855 \<le> ?err" "?err \<le> 9223372036855" by (rule llround_ms_bounds)+
  have "2 \<le> unat ?nx \<and> unat ?nx \<le> 9223372102390 \<and> (0 \<le> sint ?acc \<longrightarrow> unat ?nx \<le> max 2 (unat ?i))"
  proof (cases "?x < ?i \<and> sint (?i - ?x - 2) \<ge> ?err")
    case True
    define g where "g = uint ?i - uint ?x"
    have g: "0 < g" "g \<le> uint ?i" using True by (auto simp: g_def word_less_def)
    have i: "uint ?i < 65536" unfolding uint_nat using assms(1) by linarith
    have gw: "?i - ?x = word_of_int g"
      by (simp add: g_def word_of_int_minus)
    have "sint (?i - ?x - 2) = g - 2"
      using g i sint_word_of_int [of "g - 2"] by (simp add: gw word_of_int_minus)
    then have ge: "?err \<le> g - 2" using True by simp
    have "?nx = ?i - ?x - word_of_int ?err" using True by (auto simp: nx)
    then have "?nx = word_of_int (g - ?err)" by (simp only: gw of_int_diff)
    moreover have "unat (word_of_int (g - ?err) :: u64) = nat (g - ?err)"
      by (rule unat_word_of_int) (use ge err g i in auto)
    ultimately have n: "unat ?nx = nat (g - ?err)" by (rule subst [OF sym])
    have "nat (g - ?err) \<le> unat ?i" if "0 \<le> sint ?acc"
    proof -
      have "0 \<le> ?err" using that by (simp add: llround_ms_def)
      then show ?thesis unfolding unat_eq_nat_uint using g by (intro nat_mono) simp
    qed
    moreover have "2 \<le> nat (g - ?err)" "nat (g - ?err) \<le> 9223372102390" using ge err g i by auto
    ultimately show ?thesis using n by auto
  next
    case False
    then have "?nx = 2" by (auto simp: nx not_le)
    then show ?thesis by simp
  qed
  then show "2 \<le> unat ?nx" "unat ?nx \<le> 9223372102390"
    "0 \<le> sint ?acc \<Longrightarrow> unat ?nx \<le> max 2 (unat ?i)" by auto
  show "tt_remainder_interval_ms tk' = tt_remainder_interval_ms tk" by (simp add: tk'_def periodic_update_def Let_def)
qed

abbreviation executions :: "(u64 \<times> u64) list \<Rightarrow> timer_task \<Rightarrow> timer_task" where
  "executions runs tk \<equiv> fold (\<lambda>r. periodic_update (fst r) (snd r)) runs tk"

lemma periodic_update_error:
  "tt_accumulated_error_ns (periodic_update s e tk) = (if tt_last_execute_time_ns tk = 0 then tt_accumulated_error_ns tk
     else tt_accumulated_error_ns tk + (s - tt_last_execute_time_ns tk - tt_interval_ms tk * 1000000))"
  "tt_last_execute_time_ns (periodic_update s e tk) = s" "tt_interval_ms (periodic_update s e tk) = tt_interval_ms tk"
  by (simp_all add: periodic_update_def Let_def)

lemma executions_error:
  assumes "tt_last_execute_time_ns tk \<noteq> 0" and "\<forall>r \<in> set runs. fst r \<noteq> 0"
  shows "tt_accumulated_error_ns (executions runs tk) = tt_accumulated_error_ns tk
    + (last (tt_last_execute_time_ns tk # map fst runs) - tt_last_execute_time_ns tk - of_nat (length runs) * tt_interval_ms tk * 1000000)"
  using assms
proof (induction runs arbitrary: tk)
  case (Cons r runs)
  let ?tk = "periodic_update (fst r) (snd r) tk"
  have "tt_accumulated_error_ns (executions runs ?tk) = tt_accumulated_error_ns ?tk
      + (last (fst r # map fst runs) - fst r - of_nat (length runs) * tt_interval_ms tk * 1000000)"
    using Cons.IH [of ?tk] Cons.prems by (simp add: periodic_update_error)
  then show ?case using Cons.prems by (simp add: periodic_update_error algebra_simps)
qed simp

section \<open>Properties\<close>


definition five_ms_timer :: timer where
  "five_ms_timer = fst (Timer_args 5 (Some 7) True 0)"



definition running_timer :: timer where
  "running_timer = five_ms_timer\<lparr>tm_task := Some 1, tm_started := True\<rparr>"


text \<open>
  Stopping a timer between the tick that submits its callback and the worker that runs it leaves the
  worker with a pointer into the freed task: the submitted closure captures the address of the
  \<open>callback\<close> member and does not keep the task alive.
\<close>

theorem stop_leaves_dangling_callback:
  assumes "tw_async w = ref # rest" and "tw_running w" and "tm_started tm" and "tm_task tm = Some ref"
  shows "run_async start_ns end_ns (snd (Timer_Stop tm w)) = None"
  using assms by (simp add: Timer_Stop_def drop_task_def run_async_def Let_def)

definition two_ms_timer :: timer where
  "two_ms_timer = fst (Timer_args 2 (Some 7) True 0)"

theorem stop_leaves_dangling_callback_witness:
  "(case Timer_Start True 5 two_ms_timer TimingWheel of
      None \<Rightarrow> False
    | Some (tm, w) \<Rightarrow>
        let v = TickFunc (TickFunc (TickFunc w)) in tw_async v = [5] \<and> run_async 10 20 (snd (Timer_Stop tm v)) = None)"
proof -
  have "case Timer_Start True 5 two_ms_timer TimingWheel of
      None \<Rightarrow> False
    | Some (tm, w) \<Rightarrow>
        let v = TickFunc (TickFunc (TickFunc w)) in tm_started tm \<and> tm_task tm = Some 5 \<and> tw_async v = [5] \<and> tw_running v"
    by code_simp
  then show ?thesis using stop_leaves_dangling_callback [of _ 5 "[]"] by (auto simp: Let_def split: option.splits)
qed

text \<open>
  The error a periodic timer accumulates is its true drift. After any number of executions, the
  accumulated error is the time from the first start to the last minus the planned multiple of the
  interval, in 64-bit arithmetic, whatever the callbacks took.
\<close>

theorem timer_drift_exact:
  assumes "runs \<noteq> []" and "\<forall>r \<in> set runs. fst r \<noteq> 0" and "tt_last_execute_time_ns tk = 0"
  shows "tt_accumulated_error_ns (executions runs tk) = tt_accumulated_error_ns tk
    + (fst (last runs) - fst (hd runs) - of_nat (length runs - 1) * tt_interval_ms tk * 1000000)"
proof -
  obtain r rs where runs: "runs = r # rs" using assms(1) by (cases runs) auto
  let ?tk = "periodic_update (fst r) (snd r) tk"
  have "tt_accumulated_error_ns (executions rs ?tk) = tt_accumulated_error_ns ?tk
      + (last (fst r # map fst rs) - fst r - of_nat (length rs) * tt_interval_ms tk * 1000000)"
    using executions_error [of ?tk rs] assms(2) by (simp add: runs periodic_update_error)
  moreover have "last (fst r # map fst rs) = fst (last runs)" by (simp add: runs last_map)
  ultimately show ?thesis using assms(3) by (simp add: runs periodic_update_error)
qed

theorem timer_drift_exact_witness:
  "tt_accumulated_error_ns (executions [(1000, 2000), (10003000, 10004000), (20001000, 20002000)]
     ((TimerTask 1)\<lparr>tt_interval_ms := 10\<rparr>)) = 0"
  using timer_drift_exact [of "[(1000, 2000), (10003000, 10004000), (20001000, 20002000)]" "(TimerTask 1)\<lparr>tt_interval_ms := 10\<rparr>"]
  by (simp add: TimerTask_def)

text \<open>
  C26: a periodic timer is re-armed. Running the submitted closure of a live periodic task runs the user
  callback once and puts the task back on the wheel for at least one tick; the new duration is below
  \<open>2 ^ 53\<close> milliseconds, so rounding it through \<open>double\<close> is exact, and when the timer is not ahead
  of its schedule the wait is at most one period.
\<close>

theorem periodic_timer_rearms:
  assumes "wheel_ok w" and "tw_async w = ref # rest" and "tw_running w" and "located w ref None"
    and "tw_tasks w ref = Some tk" and "tt_callback tk = Some (Periodic_closure (Some cb))"
    and "unat (tt_interval_ms tk) < 65536" and "tk' = periodic_update start_ns end_ns tk"
    and "0 \<le> sint (tt_accumulated_error_ns tk')"
  shows "\<exists>w'. run_async start_ns end_ns w = Some w' \<and> tw_called w' = tw_called w @ [cb]
    \<and> unat (tt_next_fire_duration_ms tk') < 2 ^ 53
    \<and> (\<exists>d. waits w' ref d \<and> 1 \<le> d \<and> d \<le> max 1 ((unat (tt_interval_ms tk) + 1) div 2))"
proof -
  note upd = periodic_update_next [OF assms(7), of start_ns end_ns, folded assms(8)]
  let ?v = "w\<lparr>tw_async := rest, tw_called := tw_called w @ [cb], tw_tasks := (tw_tasks w)(ref \<mapsto> tk')\<rparr>"
  have v: "wheel_ok ?v" "located ?v ref None" "tw_tasks ?v ref = Some tk'"
    using assms(1,4,5) upd(4) by (auto simp: wheel_ok_def located_def)
  obtain w' where add: "AddTask ref ?v = Some w'" using v(3) by (auto simp: AddTask_def AddTask_at_def Let_def)
  have nx: "unat (tt_next_fire_duration_ms tk') \<le> max 2 (unat (tt_interval_ms tk))" "2 \<le> unat (tt_next_fire_duration_ms tk')"
    using upd assms(9) by auto
  let ?d = "unat (duration_ticks (tt_next_fire_duration_ms tk'))"
  have d: "1 \<le> ?d" "?d \<le> max 1 ((unat (tt_interval_ms tk) + 1) div 2)" "?d \<le> 32768"
    using nx assms(7) by (auto simp: duration_ticks_nat)
  have "waits w' ref ?d" using AddTask_waits(1) [OF v add refl] d by simp
  moreover have "run_async start_ns end_ns w = Some w'"
    using assms(2,3,5,6,8) add by (simp add: run_async_def Let_def)
  moreover have "tw_called w' = tw_called w @ [cb]"
    using add assms(3) by (auto simp: AddTask_def AddTask_at_def Let_def work_bucket_AddTask_def assistant_bucket_AddTask_def
        split: if_splits)
  ultimately show ?thesis using d upd(2) by auto
qed

definition due_wheel :: timing_wheel where
  "due_wheel = TimingWheel\<lparr>tw_running := True, tw_pc := At_Tick, tw_async := [5],
     tw_tasks := [5 \<mapsto> (TimerTask 1)\<lparr>tt_interval_ms := 10, tt_callback := Some (Periodic_closure (Some 7))\<rparr>]\<rparr>"

lemma due_wheel_ok: "wheel_ok due_wheel" "located due_wheel t None"
  by (simp_all add: due_wheel_def wheel_ok_def located_def TimingWheel_def TimerTask_def)

theorem periodic_timer_rearms_witness:
  "\<exists>w' d. run_async 1000 2000 due_wheel = Some w' \<and> tw_called w' = [7] \<and> waits w' 5 d \<and> 1 \<le> d \<and> d \<le> 5"
  using periodic_timer_rearms [OF due_wheel_ok(1) _ _ due_wheel_ok(2) _ _ _ refl, of 5 "[]" _ 7 1000 2000]
  by (auto simp: due_wheel_def TimingWheel_def TimerTask_def periodic_update_error)

text \<open>
  \<open>AddTask\<close> reads the current index of the work wheel before it places the task. If the wheel turns
  over in between, a task due within one turn is placed one whole turn too late: with \<open>d\<close> ticks to wait
  it is not submitted in the next \<open>510 + d\<close> advances.
\<close>

theorem stale_index_fires_late:
  assumes "wheel_ok w" and "work_index w = 0" and "tw_running w" and "located w ref None" and "tw_tasks w ref = Some tk"
    and "d = unat (duration_ticks (tt_next_fire_duration_ms tk))" and "0 < d" and "d \<le> 512"
    and "AddTask_at ref 511 w = Some w'" and "wheel_trace ref w' n w''" and "n < 511 + d"
  shows "count_list (tw_fired w'') ref = count_list (tw_fired w) ref"
proof -
  have W: "unat (511 + duration_ticks (tt_next_fire_duration_ms tk)) = 511 + d" using assms(6,8) by (simp add: u64_simps)
  then have real: "unat (GetWorkWheelIndex (511 + duration_ticks (tt_next_fire_duration_ms tk))) = d - 1"
    and one: "(511 + duration_ticks (tt_next_fire_duration_ms tk)) div 512 = 1"
    using assms(7,8) by (auto simp: u64_simps u64_eq_iff unat_div mod_if)
  let ?v = "w\<lparr>tw_tasks := (tw_tasks w)(ref \<mapsto> tk\<lparr>tt_remainder_interval_ms := GetWorkWheelIndex (511 + duration_ticks (tt_next_fire_duration_ms tk))\<rparr>)\<rparr>"
  let ?j = "GetAssistantWheelIndex (tw_current_assistant_wheel_index w + 1)"
  have v: "wheel_ok ?v" "located ?v ref None"
    using assms(1,4,8) real by (auto simp: wheel_ok_def located_def)
  have w': "w' = assistant_bucket_AddTask ?j ref ?v"
    using assms(2,3,5,7,9) W one by (simp add: AddTask_at_def Let_def u64_to_nat real)
  have "unat ?j = (assistant_index w + 1) mod 64" using assms(1) by (simp add: u64_simps wheel_ok_def)
  then have "located w' ref (Some (Assist ((assistant_index w + 1) mod 64)))"
    using located_add_assistant [OF v, of ?j] by (simp add: w')
  moreover have w'_frame: "tw_tasks w' = tw_tasks ?v" "work_index w' = 0" "assistant_index w' = assistant_index w" "tw_running w'"
    "tw_fired w' = tw_fired w"
    using assms(2,3) by (simp_all add: w' assistant_bucket_AddTask_def)
  ultimately have "waits w' ref (511 + d)"
    using assms(7) by (intro waits.in_assistant [of _ _ _ _ 1]) (auto simp: real)
  then show ?thesis
    using trace_on_time [OF assms(10) wheel_ok_AddTask [OF assms(1,9)] w'_frame(4)] w'_frame(1,5) assms(11)
    by (auto simp: on_time_def)
qed

definition late_wheel :: timing_wheel where
  "late_wheel = TimingWheel\<lparr>tw_running := True, tw_pc := At_Tick,
     tw_tasks := [5 \<mapsto> (TimerTask 1)\<lparr>tt_interval_ms := 2, tt_next_fire_duration_ms := 2\<rparr>]\<rparr>"

theorem stale_index_fires_late_witness:
  "\<exists>w'. AddTask_at 5 511 late_wheel = Some w' \<and> count_list (tw_fired ((TickFunc ^^ 1023) w')) 5 = 0"
proof -
  have w: "wheel_ok late_wheel" "work_index late_wheel = 0" "tw_running late_wheel" "located late_wheel 5 None"
    "tw_tasks late_wheel 5 = Some ((TimerTask 1)\<lparr>tt_interval_ms := 2, tt_next_fire_duration_ms := 2\<rparr>)"
    by (simp_all add: late_wheel_def wheel_ok_def located_def TimingWheel_def TimerTask_def)
  obtain w' where add: "AddTask_at 5 511 late_wheel = Some w'" using w(5) by (auto simp: AddTask_at_def Let_def)
  have "tw_running w'" "tw_pc w' = At_Tick"
    using add by (auto simp: AddTask_at_def Let_def late_wheel_def work_bucket_AddTask_def assistant_bucket_AddTask_def split: if_splits)
  then have "wheel_trace 5 w' 511 ((TickFunc ^^ 1023) w')" using thread_trace [of w' 5 511] by simp
  from stale_index_fires_late [OF w _ _ _ add this, of 1] show ?thesis
    using add by (simp add: duration_ticks_def late_wheel_def TimingWheel_def)
qed

end
