(* ===== verification/Bounded_Queue.thy ===== *)
theory Bounded_Queue
  imports Cyber_Prelude
begin

text \<open>
  \<open>base/bounded_queue.h\<close> and \<open>base/wait_strategy.h\<close>: the lock-free queue with many producers and
  consumers behind the task pool.

  Every atomic access of \<open>Enqueue\<close>, \<open>Dequeue\<close> and the waiting variants is one step of a thread; a
  state gives the queue and, for every thread, where it stands and the locals it holds. Any number of
  threads run, in any interleaving. \<open>compare_exchange_weak\<close> may fail spuriously. Counters are 64-bit
  words. A slot of the pool is written and read as one value.

  Two ghost fields record the order of events: \<open>sys_entered\<close> the values in the order in which their
  producers took a ticket, \<open>sys_left\<close> the values in the order in which consumers got them.
\<close>

section \<open>The queue\<close>

record 'a bounded_queue =
  bq_head :: u64
  bq_tail :: u64
  bq_commit :: u64
  bq_pool_size :: u64
  bq_pool :: "'a list"
  bq_break_all_wait :: bool

text \<open>\<open>T_default\<close> is what the pool slots are constructed with; \<open>calloc_ok\<close> is whether memory was available.\<close>

definition BQ_Init :: "bool \<Rightarrow> 'a \<Rightarrow> u64 \<Rightarrow> 'a bounded_queue option" where
  "BQ_Init calloc_ok T_default sz =
     (if \<not> calloc_ok then None
      else Some \<lparr>bq_head = 0, bq_tail = 1, bq_commit = 1, bq_pool_size = sz + 2,
                 bq_pool = replicate (unat (sz + 2)) T_default, bq_break_all_wait = False\<rparr>)"

definition BQ_GetIndex :: "'a bounded_queue \<Rightarrow> u64 \<Rightarrow> u64" where
  "BQ_GetIndex q num = num - (num div bq_pool_size q) * bq_pool_size q"

definition BQ_Size :: "'a bounded_queue \<Rightarrow> u64" where
  "BQ_Size q = bq_tail q - bq_head q - 1"

definition BQ_Empty :: "'a bounded_queue \<Rightarrow> bool" where
  "BQ_Empty q = (BQ_Size q = 0)"

section \<open>Threads\<close>

text \<open>
  Where a thread stands. The flag says that the operation was called by its waiting variant, which
  tries again instead of returning \<open>False\<close>.
\<close>

datatype 'a bq_pc =
    Idle
  | E_Load bool 'a | E_Check bool 'a u64 | E_Cas bool 'a u64 | E_Write bool 'a u64 | E_Commit bool 'a u64 | E_Notify
  | D_Load bool | D_Check bool u64 | D_Read bool u64 | D_Cas bool u64 'a
  | WE_Loop 'a | WE_Empty 'a | WE_Sleep 'a
  | WD_Loop | WD_Empty | WD_Sleep
  | Enq_Returned bool | Deq_Returned "'a option"

fun Enqueue_step :: "bool \<Rightarrow> 'a bq_pc \<Rightarrow> 'a bounded_queue \<Rightarrow> 'a bq_pc \<times> 'a bounded_queue" where
  "Enqueue_step spurious (E_Load w element) q = (E_Check w element (bq_tail q), q)"
| "Enqueue_step spurious (E_Check w element old_tail) q =
     (let new_tail = old_tail + 1
      in if BQ_GetIndex q new_tail = BQ_GetIndex q (bq_head q)
         then (if w then WE_Empty element else Enq_Returned False, q)
         else (E_Cas w element old_tail, q))"
| "Enqueue_step spurious (E_Cas w element old_tail) q =
     (if bq_tail q = old_tail \<and> \<not> spurious
      then (E_Write w element old_tail, q\<lparr>bq_tail := old_tail + 1\<rparr>)
      else (E_Check w element (bq_tail q), q))"
| "Enqueue_step spurious (E_Write w element old_tail) q =
     (E_Commit w element old_tail, q\<lparr>bq_pool := (bq_pool q)[unat (BQ_GetIndex q old_tail) := element]\<rparr>)"
| "Enqueue_step spurious (E_Commit w element old_tail) q =
     (if bq_commit q = old_tail \<and> \<not> spurious
      then (E_Notify, q\<lparr>bq_commit := old_tail + 1\<rparr>)
      else (E_Commit w element old_tail, q))"
| "Enqueue_step spurious pc q = (pc, q)"

fun Dequeue_step :: "bool \<Rightarrow> 'a bq_pc \<Rightarrow> 'a bounded_queue \<Rightarrow> 'a bq_pc \<times> 'a bounded_queue" where
  "Dequeue_step spurious (D_Load w) q = (D_Check w (bq_head q), q)"
| "Dequeue_step spurious (D_Check w old_head) q =
     (if old_head + 1 = bq_commit q
      then (if w then WD_Empty else Deq_Returned None, q)
      else (D_Read w old_head, q))"
| "Dequeue_step spurious (D_Read w old_head) q =
     (D_Cas w old_head (bq_pool q ! unat (BQ_GetIndex q (old_head + 1))), q)"
| "Dequeue_step spurious (D_Cas w old_head element) q =
     (if bq_head q = old_head \<and> \<not> spurious
      then (Deq_Returned (Some element), q\<lparr>bq_head := old_head + 1\<rparr>)
      else (D_Check w (bq_head q), q))"
| "Dequeue_step spurious pc q = (pc, q)"

section \<open>Waiting\<close>

text \<open>
  \<open>Block\<close> sleeps on the condition variable until notified, \<open>TimeoutBlock\<close> at most for its timeout; the
  sleeping, yielding and spinning strategies return at once as far as the queue is concerned.
\<close>

datatype wait_strategy = BlockWaitStrategy | TimeoutBlockWaitStrategy | SleepWaitStrategy | YieldWaitStrategy | BusySpinWaitStrategy

definition blocking :: "wait_strategy \<Rightarrow> bool" where
  "blocking st \<longleftrightarrow> st = BlockWaitStrategy \<or> st = TimeoutBlockWaitStrategy"

text \<open>The loops of \<open>WaitEnqueue\<close> and \<open>WaitDequeue\<close> around one attempt.\<close>

fun Wait_step :: "wait_strategy \<Rightarrow> 'a bq_pc \<Rightarrow> 'a bounded_queue \<Rightarrow> 'a bq_pc" where
  "Wait_step st (WE_Loop element) q = (if bq_break_all_wait q then Enq_Returned False else E_Load True element)"
| "Wait_step st (WE_Empty element) q = (if blocking st then WE_Sleep element else WE_Loop element)"
| "Wait_step st WD_Loop q = (if bq_break_all_wait q then Deq_Returned None else D_Load True)"
| "Wait_step st WD_Empty q = (if blocking st then WD_Sleep else WD_Loop)"
| "Wait_step st pc q = pc"

definition wake :: "'a bq_pc \<Rightarrow> 'a bq_pc" where
  "wake pc = (case pc of WE_Sleep element \<Rightarrow> WE_Loop element | WD_Sleep \<Rightarrow> WD_Loop | _ \<Rightarrow> pc)"

definition timed_out :: "'a bq_pc \<Rightarrow> 'a bq_pc" where
  "timed_out pc = (case pc of WE_Sleep element \<Rightarrow> Enq_Returned False | WD_Sleep \<Rightarrow> Deq_Returned None | _ \<Rightarrow> pc)"

definition asleep :: "'a bq_pc \<Rightarrow> bool" where
  "asleep pc \<longleftrightarrow> (case pc of WE_Sleep _ \<Rightarrow> True | WD_Sleep \<Rightarrow> True | _ \<Rightarrow> False)"

section \<open>The system\<close>

record 'a bq_system =
  sys_q :: "'a bounded_queue"
  sys_pc :: "nat \<Rightarrow> 'a bq_pc"
  sys_strategy :: wait_strategy
  sys_entered :: "'a list"
  sys_left :: "'a list"

definition started :: "'a bq_pc \<Rightarrow> bool" where
  "started pc \<longleftrightarrow> (case pc of E_Load _ _ \<Rightarrow> True | D_Load _ \<Rightarrow> True | WE_Loop _ \<Rightarrow> True | WD_Loop \<Rightarrow> True | _ \<Rightarrow> False)"

definition entering :: "'a bq_pc \<Rightarrow> 'a bq_pc \<Rightarrow> 'a list" where
  "entering pc pc' = (case (pc, pc') of (E_Cas _ x _, E_Write _ _ _) \<Rightarrow> [x] | _ \<Rightarrow> [])"

definition leaving :: "'a bq_pc \<Rightarrow> 'a bq_pc \<Rightarrow> 'a list" where
  "leaving pc pc' = (case (pc, pc') of (D_Cas _ _ x, Deq_Returned _) \<Rightarrow> [x] | _ \<Rightarrow> [])"

inductive bq_step :: "'a bq_system \<Rightarrow> 'a bq_system \<Rightarrow> bool" where
  call: "sys_pc s i = Idle \<or> sys_pc s i = Enq_Returned r \<or> sys_pc s i = Deq_Returned r' \<Longrightarrow> started pc
    \<Longrightarrow> bq_step s (s\<lparr>sys_pc := (sys_pc s)(i := pc)\<rparr>)"
| enqueue: "Enqueue_step spurious (sys_pc s i) (sys_q s) = (pc, q)
    \<Longrightarrow> bq_step s (s\<lparr>sys_q := q, sys_pc := (sys_pc s)(i := pc), sys_entered := sys_entered s @ entering (sys_pc s i) pc\<rparr>)"
| dequeue: "Dequeue_step spurious (sys_pc s i) (sys_q s) = (pc, q)
    \<Longrightarrow> bq_step s (s\<lparr>sys_q := q, sys_pc := (sys_pc s)(i := pc), sys_left := sys_left s @ leaving (sys_pc s i) pc\<rparr>)"
| waiting: "bq_step s (s\<lparr>sys_pc := (sys_pc s)(i := Wait_step (sys_strategy s) (sys_pc s i) (sys_q s))\<rparr>)"
| notify_one: "sys_pc s i = E_Notify \<Longrightarrow> asleep (sys_pc s j)
    \<Longrightarrow> bq_step s (s\<lparr>sys_pc := (sys_pc s)(j := wake (sys_pc s j), i := Enq_Returned True)\<rparr>)"
| notify_nobody: "sys_pc s i = E_Notify \<Longrightarrow> \<forall>j. \<not> asleep (sys_pc s j)
    \<Longrightarrow> bq_step s (s\<lparr>sys_pc := (sys_pc s)(i := Enq_Returned True)\<rparr>)"
| timeout: "sys_strategy s = TimeoutBlockWaitStrategy
    \<Longrightarrow> bq_step s (s\<lparr>sys_pc := (sys_pc s)(i := timed_out (sys_pc s i))\<rparr>)"
| break_flag: "bq_step s (s\<lparr>sys_q := (sys_q s)\<lparr>bq_break_all_wait := True\<rparr>\<rparr>)"
| break_notify: "bq_break_all_wait (sys_q s) \<Longrightarrow> bq_step s (s\<lparr>sys_pc := \<lambda>j. wake (sys_pc s j)\<rparr>)"

definition bq_init :: "'a \<Rightarrow> u64 \<Rightarrow> 'a bq_system \<Rightarrow> bool" where
  "bq_init T_default sz s \<longleftrightarrow> BQ_Init True T_default sz = Some (sys_q s) \<and> sys_pc s = (\<lambda>_. Idle)
     \<and> sys_entered s = [] \<and> sys_left s = []"

section \<open>The invariant\<close>

fun ticket :: "'a bq_pc \<Rightarrow> nat option" where
  "ticket (E_Write w x old_tail) = Some (unat old_tail)"
| "ticket (E_Commit w x old_tail) = Some (unat old_tail)"
| "ticket pc = None"

text \<open>
  What a thread knows about the queue, with the counters read as numbers: what it learnt from a check
  stays true as long as the counter it will compare has not moved.
\<close>

fun pc_ok :: "nat \<Rightarrow> nat \<Rightarrow> nat \<Rightarrow> nat \<Rightarrow> 'a list \<Rightarrow> 'a list \<Rightarrow> 'a bq_pc \<Rightarrow> bool" where
  "pc_ok h t c P pool entered (E_Check w x old) = (unat old \<le> t)"
| "pc_ok h t c P pool entered (E_Cas w x old) = (unat old \<le> t \<and> (unat old = t \<longrightarrow> t + 1 < h + P))"
| "pc_ok h t c P pool entered (E_Write w x old) = (c \<le> unat old \<and> unat old < t \<and> entered ! (unat old - 1) = x)"
| "pc_ok h t c P pool entered (E_Commit w x old) =
     (c \<le> unat old \<and> unat old < t \<and> entered ! (unat old - 1) = x \<and> pool ! (unat old mod P) = x)"
| "pc_ok h t c P pool entered (D_Check w old) = (unat old \<le> h)"
| "pc_ok h t c P pool entered (D_Read w old) = (unat old \<le> h \<and> unat old + 1 < c)"
| "pc_ok h t c P pool entered (D_Cas w old x) = (unat old \<le> h \<and> unat old + 1 < c \<and> (unat old = h \<longrightarrow> x = entered ! h))"
| "pc_ok h t c P pool entered pc = True"

definition queue_ok :: "nat \<Rightarrow> nat \<Rightarrow> nat \<Rightarrow> nat \<Rightarrow> 'a list \<Rightarrow> 'a list \<Rightarrow> 'a list \<Rightarrow> bool" where
  "queue_ok h t c P pool entered left \<longleftrightarrow> 2 \<le> P \<and> length pool = P \<and> h < c \<and> c \<le> t \<and> t < h + P
     \<and> length entered + 1 = t \<and> left = take h entered
     \<and> (\<forall>k. h < k \<and> k < c \<longrightarrow> pool ! (k mod P) = entered ! (k - 1))"

definition threads_ok :: "nat \<Rightarrow> nat \<Rightarrow> nat \<Rightarrow> nat \<Rightarrow> 'a list \<Rightarrow> 'a list \<Rightarrow> (nat \<Rightarrow> 'a bq_pc) \<Rightarrow> bool" where
  "threads_ok h t c P pool entered pcs \<longleftrightarrow> (\<forall>i. pc_ok h t c P pool entered (pcs i))
     \<and> (\<forall>i j k. ticket (pcs i) = Some k \<and> ticket (pcs j) = Some k \<longrightarrow> i = j)"

abbreviation nat_head :: "'a bq_system \<Rightarrow> nat" where "nat_head s \<equiv> unat (bq_head (sys_q s))"
abbreviation nat_tail :: "'a bq_system \<Rightarrow> nat" where "nat_tail s \<equiv> unat (bq_tail (sys_q s))"
abbreviation nat_commit :: "'a bq_system \<Rightarrow> nat" where "nat_commit s \<equiv> unat (bq_commit (sys_q s))"

definition bq_ok :: "nat \<Rightarrow> 'a bq_system \<Rightarrow> bool" where
  "bq_ok P s \<longleftrightarrow> unat (bq_pool_size (sys_q s)) = P
     \<and> queue_ok (nat_head s) (nat_tail s) (nat_commit s) P (bq_pool (sys_q s)) (sys_entered s) (sys_left s)
     \<and> threads_ok (nat_head s) (nat_tail s) (nat_commit s) P (bq_pool (sys_q s)) (sys_entered s) (sys_pc s)"

text \<open>Every ticket that is not committed yet belongs to a thread that will commit it.\<close>

definition covered :: "nat \<Rightarrow> nat \<Rightarrow> (nat \<Rightarrow> 'a bq_pc) \<Rightarrow> bool" where
  "covered c t pcs \<longleftrightarrow> (\<forall>k. c \<le> k \<and> k < t \<longrightarrow> (\<exists>i. ticket (pcs i) = Some k))"

text \<open>The counters do not wrap as long as fewer than \<open>2 ^ 64 - 2\<close> values have entered.\<close>

definition bq_inv :: "nat \<Rightarrow> 'a bq_system \<Rightarrow> bool" where
  "bq_inv P s \<longleftrightarrow> (length (sys_entered s) + 2 < 18446744073709551616 \<longrightarrow>
     bq_ok P s \<and> covered (nat_commit s) (nat_tail s) (sys_pc s))"

lemma BQ_GetIndex_nat: "unat (BQ_GetIndex q num) = unat num mod unat (bq_pool_size q)"
proof -
  have "BQ_GetIndex q num = num mod bq_pool_size q"
    by (simp add: BQ_GetIndex_def minus_div_mult_eq_mod)
  then show ?thesis by (simp add: unat_mod)
qed

text \<open>Tickets that are in use at the same time have different slots.\<close>

lemma slots_distinct:
  assumes "(h :: nat) < j" and "h < k" and "j < t" and "k < t" and "t < h + P" and "j mod P = k mod P"
  shows "j = k"
proof (rule ccontr)
  assume "j \<noteq> k"
  moreover have "\<not> (a < b \<and> a mod P = b mod P)" if "h < a" "b < t" for a b
  proof
    assume "a < b \<and> a mod P = b mod P"
    then have "P dvd b - a" using mod_eq_dvd_iff_nat [of a b P] by simp
    moreover have "0 < b - a" "b - a < P" using \<open>a < b \<and> a mod P = b mod P\<close> that assms(5) by auto
    ultimately show False using nat_dvd_not_less by blast
  qed
  ultimately show False using assms by (metis linorder_neqE_nat)
qed

lemma pc_ok_stable:
  assumes "pc_ok h t c P pool entered pc" and "h \<le> h'" and "t \<le> t'" and "c \<le> c'" and "length entered + 1 = t"
    and "h < c" and "c \<le> t" and "entered' = entered @ ys" and "\<And>k. ticket pc = Some k \<Longrightarrow> c' \<le> k \<and> pool' ! (k mod P) = pool ! (k mod P)"
  shows "pc_ok h' t' c' P pool' entered' pc"
  using assms by (cases pc) (auto simp: nth_append)

lemma threads_ok_upd:
  assumes "threads_ok h t c P pool entered pcs" and "h \<le> h'" and "t \<le> t'" and "c \<le> c'" and "length entered + 1 = t"
    and "h < c" and "c \<le> t" and "entered' = entered @ ys"
    and "\<And>j k. j \<noteq> i \<Longrightarrow> ticket (pcs j) = Some k \<Longrightarrow> c' \<le> k \<and> pool' ! (k mod P) = pool ! (k mod P)"
    and "pc_ok h' t' c' P pool' entered' pc"
    and "\<And>k. ticket pc = Some k \<Longrightarrow> ticket (pcs i) = Some k \<or> (\<forall>j. ticket (pcs j) \<noteq> Some k)"
  shows "threads_ok h' t' c' P pool' entered' (pcs(i := pc))"
proof -
  have "pc_ok h' t' c' P pool' entered' ((pcs(i := pc)) j)" for j
  proof (cases "j = i")
    case False
    then show ?thesis
      using pc_ok_stable [of h t c P pool entered "pcs j"] assms(1-9) by (simp add: threads_ok_def)
  qed (simp add: assms(10))
  moreover have "a = b" if "ticket ((pcs(i := pc)) a) = Some k" "ticket ((pcs(i := pc)) b) = Some k" for a b k
    using that assms(1,11) by (auto simp: threads_ok_def split: if_splits)
  ultimately show ?thesis unfolding threads_ok_def by blast
qed

lemma ticket_range:
  assumes "bq_ok P s" and "ticket (sys_pc s j) = Some k"
  shows "nat_commit s \<le> k" "k < nat_tail s"
proof -
  have "pc_ok (nat_head s) (nat_tail s) (nat_commit s) P (bq_pool (sys_q s)) (sys_entered s) (sys_pc s j)"
    using assms(1) by (simp add: bq_ok_def threads_ok_def)
  then show "nat_commit s \<le> k" "k < nat_tail s" using assms(2) by (cases "sys_pc s j"; simp)+
qed

lemma ticket_unique:
  "bq_ok P s \<Longrightarrow> ticket (sys_pc s i) = Some k \<Longrightarrow> ticket (sys_pc s j) = Some k \<Longrightarrow> i = j"
  by (simp add: bq_ok_def threads_ok_def)

lemmas bq_okD = bq_ok_def [THEN iffD1, THEN conjunct2, THEN conjunct1]

lemma pc_okD: "bq_ok P s \<Longrightarrow> pc_ok (nat_head s) (nat_tail s) (nat_commit s) P (bq_pool (sys_q s)) (sys_entered s) (sys_pc s i)"
  by (simp add: bq_ok_def threads_ok_def)

lemma bq_ok_pc:
  assumes "bq_ok P s" and "ticket pc = None"
    and "pc_ok (nat_head s) (nat_tail s) (nat_commit s) P (bq_pool (sys_q s)) (sys_entered s) pc"
  shows "bq_ok P (s\<lparr>sys_pc := (sys_pc s)(i := pc)\<rparr>)"
proof -
  have "threads_ok (nat_head s) (nat_tail s) (nat_commit s) P (bq_pool (sys_q s)) (sys_entered s) ((sys_pc s)(i := pc))"
  proof (rule threads_ok_upd [where ys = "[]"])
    show "threads_ok (nat_head s) (nat_tail s) (nat_commit s) P (bq_pool (sys_q s)) (sys_entered s) (sys_pc s)"
      using assms(1) by (simp add: bq_ok_def)
  qed (use bq_okD [OF assms(1)] ticket_range(1) [OF assms(1)] assms(2,3) in \<open>auto simp: queue_ok_def\<close>)
  then show ?thesis using assms(1) by (simp add: bq_ok_def)
qed

text \<open>Taking a ticket.\<close>

lemma bq_ok_take_ticket:
  assumes ok: "bq_ok P s" and pc: "sys_pc s i = E_Cas w x (bq_tail (sys_q s))"
    and bound: "length (sys_entered s) + 3 < 18446744073709551616"
  shows "bq_ok P (s\<lparr>sys_q := (sys_q s)\<lparr>bq_tail := bq_tail (sys_q s) + 1\<rparr>,
    sys_pc := (sys_pc s)(i := E_Write w x (bq_tail (sys_q s))), sys_entered := sys_entered s @ [x]\<rparr>)"
proof -
  have q: "nat_head s < nat_commit s" "nat_commit s \<le> nat_tail s" "length (sys_entered s) + 1 = nat_tail s"
    using bq_okD [OF ok] by (auto simp: queue_ok_def)
  have room: "nat_tail s + 1 < nat_head s + P" using pc_okD [OF ok, of i] by (simp add: pc)
  have tail: "unat (bq_tail (sys_q s) + 1) = nat_tail s + 1" using bound q by (simp add: u64_simps)
  have "nat_tail s - 1 = length (sys_entered s)" using q(3) by simp
  then have last: "(sys_entered s @ [x]) ! (nat_tail s - 1) = x" by simp
  have "threads_ok (nat_head s) (nat_tail s + 1) (nat_commit s) P (bq_pool (sys_q s)) (sys_entered s @ [x])
      ((sys_pc s)(i := E_Write w x (bq_tail (sys_q s))))"
  proof (rule threads_ok_upd [where ys = "[x]"])
    show "threads_ok (nat_head s) (nat_tail s) (nat_commit s) P (bq_pool (sys_q s)) (sys_entered s) (sys_pc s)"
      using ok by (simp add: bq_ok_def)
    show "ticket (sys_pc s i) = Some k \<or> (\<forall>j. ticket (sys_pc s j) \<noteq> Some k)" if "ticket (E_Write w x (bq_tail (sys_q s))) = Some k" for k
      using that ticket_range(2) [OF ok] by fastforce
  qed (use q last ticket_range(1) [OF ok] in auto)
  moreover have "queue_ok (nat_head s) (nat_tail s + 1) (nat_commit s) P (bq_pool (sys_q s)) (sys_entered s @ [x]) (sys_left s)"
    using bq_okD [OF ok] room by (auto simp: queue_ok_def nth_append)
  ultimately show ?thesis using ok by (simp add: bq_ok_def tail)
qed

text \<open>Writing the slot of the ticket.\<close>

lemma bq_ok_write:
  assumes ok: "bq_ok P s" and pc: "sys_pc s i = E_Write w x old"
  shows "bq_ok P (s\<lparr>sys_q := (sys_q s)\<lparr>bq_pool := (bq_pool (sys_q s))[unat old mod P := x]\<rparr>,
    sys_pc := (sys_pc s)(i := E_Commit w x old)\<rparr>)"
proof -
  let ?pool = "(bq_pool (sys_q s))[unat old mod P := x]"
  have q: "nat_head s < nat_commit s" "nat_commit s \<le> nat_tail s" "nat_tail s < nat_head s + P" "length (bq_pool (sys_q s)) = P" "2 \<le> P"
      "length (sys_entered s) + 1 = nat_tail s"
    using bq_okD [OF ok] by (auto simp: queue_ok_def)
  have mine: "nat_commit s \<le> unat old" "unat old < nat_tail s" "sys_entered s ! (unat old - 1) = x"
    using pc_okD [OF ok, of i] by (simp_all add: pc)
  have others: "?pool ! (k mod P) = bq_pool (sys_q s) ! (k mod P)" if "nat_head s < k" "k < nat_tail s" "k \<noteq> unat old" for k
    using slots_distinct [of "nat_head s" k "unat old" "nat_tail s" P] that mine q by (metis nth_list_update_neq order.strict_trans2)
  have "threads_ok (nat_head s) (nat_tail s) (nat_commit s) P ?pool (sys_entered s) ((sys_pc s)(i := E_Commit w x old))"
  proof (rule threads_ok_upd [where ys = "[]"])
    show "threads_ok (nat_head s) (nat_tail s) (nat_commit s) P (bq_pool (sys_q s)) (sys_entered s) (sys_pc s)"
      using ok by (simp add: bq_ok_def)
    show "nat_commit s \<le> k \<and> ?pool ! (k mod P) = bq_pool (sys_q s) ! (k mod P)" if "j \<noteq> i" "ticket (sys_pc s j) = Some k" for j k
      using that ticket_range [OF ok that(2)] ticket_unique [OF ok that(2), of i] others [of k] q by (auto simp: pc)
  qed (use q mine in \<open>auto simp: pc\<close>)
  moreover have "queue_ok (nat_head s) (nat_tail s) (nat_commit s) P ?pool (sys_entered s) (sys_left s)"
    using bq_okD [OF ok] others mine by (auto simp: queue_ok_def)
  ultimately show ?thesis using ok by (simp add: bq_ok_def)
qed

text \<open>Committing, which tickets do in order.\<close>

lemma bq_ok_commit:
  assumes ok: "bq_ok P s" and pc: "sys_pc s i = E_Commit w x (bq_commit (sys_q s))"
    and bound: "length (sys_entered s) + 2 < 18446744073709551616"
  shows "bq_ok P (s\<lparr>sys_q := (sys_q s)\<lparr>bq_commit := bq_commit (sys_q s) + 1\<rparr>, sys_pc := (sys_pc s)(i := E_Notify)\<rparr>)"
proof -
  have q: "nat_head s < nat_commit s" "nat_commit s \<le> nat_tail s" "length (sys_entered s) + 1 = nat_tail s"
    using bq_okD [OF ok] by (auto simp: queue_ok_def)
  have mine: "nat_commit s < nat_tail s" "sys_entered s ! (nat_commit s - 1) = x" "bq_pool (sys_q s) ! (nat_commit s mod P) = x"
    using pc_okD [OF ok, of i] by (simp_all add: pc)
  have commit: "unat (bq_commit (sys_q s) + 1) = nat_commit s + 1" using bound q by (simp add: u64_simps)
  have "threads_ok (nat_head s) (nat_tail s) (nat_commit s + 1) P (bq_pool (sys_q s)) (sys_entered s) ((sys_pc s)(i := E_Notify))"
  proof (rule threads_ok_upd [where ys = "[]"])
    show "threads_ok (nat_head s) (nat_tail s) (nat_commit s) P (bq_pool (sys_q s)) (sys_entered s) (sys_pc s)"
      using ok by (simp add: bq_ok_def)
    show "nat_commit s + 1 \<le> k \<and> bq_pool (sys_q s) ! (k mod P) = bq_pool (sys_q s) ! (k mod P)"
      if "j \<noteq> i" "ticket (sys_pc s j) = Some k" for j k
      using that ticket_range(1) [OF ok that(2)] ticket_unique [OF ok that(2), of i] by (cases "k = nat_commit s") (auto simp: pc)
  qed (use q in auto)
  moreover have "queue_ok (nat_head s) (nat_tail s) (nat_commit s + 1) P (bq_pool (sys_q s)) (sys_entered s) (sys_left s)"
    using bq_okD [OF ok] mine by (auto simp: queue_ok_def less_Suc_eq)
  ultimately show ?thesis using ok by (simp add: bq_ok_def commit)
qed

text \<open>Taking the value behind the head.\<close>

lemma bq_ok_take_value:
  assumes ok: "bq_ok P s" and pc: "sys_pc s i = D_Cas w (bq_head (sys_q s)) x"
    and bound: "length (sys_entered s) + 2 < 18446744073709551616"
  shows "bq_ok P (s\<lparr>sys_q := (sys_q s)\<lparr>bq_head := bq_head (sys_q s) + 1\<rparr>,
    sys_pc := (sys_pc s)(i := Deq_Returned (Some x)), sys_left := sys_left s @ [x]\<rparr>)"
proof -
  have q: "nat_head s < nat_commit s" "nat_commit s \<le> nat_tail s" "length (sys_entered s) + 1 = nat_tail s"
    "sys_left s = take (nat_head s) (sys_entered s)"
    using bq_okD [OF ok] by (auto simp: queue_ok_def)
  have mine: "nat_head s + 1 < nat_commit s" "x = sys_entered s ! nat_head s"
    using pc_okD [OF ok, of i] by (simp_all add: pc)
  have head: "unat (bq_head (sys_q s) + 1) = nat_head s + 1" using bound q by (simp add: u64_simps)
  have "threads_ok (nat_head s + 1) (nat_tail s) (nat_commit s) P (bq_pool (sys_q s)) (sys_entered s)
      ((sys_pc s)(i := Deq_Returned (Some x)))"
  proof (rule threads_ok_upd [where ys = "[]"])
    show "threads_ok (nat_head s) (nat_tail s) (nat_commit s) P (bq_pool (sys_q s)) (sys_entered s) (sys_pc s)"
      using ok by (simp add: bq_ok_def)
  qed (use q ticket_range(1) [OF ok] in auto)
  moreover have "sys_left s @ [x] = take (nat_head s + 1) (sys_entered s)"
    using q mine by (simp add: take_Suc_conv_app_nth)
  then have "queue_ok (nat_head s + 1) (nat_tail s) (nat_commit s) P (bq_pool (sys_q s)) (sys_entered s) (sys_left s @ [x])"
    using bq_okD [OF ok] mine by (auto simp: queue_ok_def)
  ultimately show ?thesis using ok by (simp add: bq_ok_def head)
qed

lemma moves_nothing: "entering pc pc = []" "leaving pc pc = []"
  by (cases pc; simp add: entering_def leaving_def)+

lemma bq_ok_enqueue:
  assumes ok: "bq_ok P s" and step: "Enqueue_step spurious (sys_pc s i) (sys_q s) = (pc, q)"
    and bound: "length (sys_entered s @ entering (sys_pc s i) pc) + 2 < 18446744073709551616"
  shows "bq_ok P (s\<lparr>sys_q := q, sys_pc := (sys_pc s)(i := pc), sys_entered := sys_entered s @ entering (sys_pc s i) pc\<rparr>)"
    (is "bq_ok P ?t")
proof -
  have q: "nat_head s < nat_commit s" "nat_commit s \<le> nat_tail s" "nat_tail s < nat_head s + P"
      "length (sys_entered s) + 1 = nat_tail s" and P: "unat (bq_pool_size (sys_q s)) = P"
    using ok by (auto simp: bq_ok_def queue_ok_def)
  have quiet: "bq_ok P ?t" if "q = sys_q s" "entering (sys_pc s i) pc = []" "ticket pc = None"
    "pc_ok (nat_head s) (nat_tail s) (nat_commit s) P (bq_pool (sys_q s)) (sys_entered s) pc"
    using bq_ok_pc [OF ok that(3,4), of i] that(1,2) by simp
  have same: "bq_ok P ?t" if "pc = sys_pc s i" "q = sys_q s" "entering (sys_pc s i) pc = []"
    using ok that by (simp add: fun_upd_idem)
  note mine = pc_okD [OF ok, of i]
  show ?thesis
  proof (cases "sys_pc s i")
    case (E_Load w x)
    then show ?thesis using step by (intro quiet) (auto simp: entering_def)
  next
    case (E_Check w x old)
    have "unat (old + 1) = unat old + 1" using mine bound q(4) by (simp add: E_Check u64_simps)
    then have "unat old = nat_tail s \<longrightarrow> nat_tail s + 1 < nat_head s + P" if "pc = E_Cas w x old"
      using step that q(3) P by (cases "nat_tail s + 1 = nat_head s + P")
        (auto simp: E_Check Let_def u64_eq_iff BQ_GetIndex_nat split: if_splits)
    then show ?thesis using step mine by (intro quiet) (auto simp: E_Check entering_def Let_def split: if_splits)
  next
    case (E_Cas w x old)
    show ?thesis
    proof (cases "bq_tail (sys_q s) = old \<and> \<not> spurious")
      case True
      then show ?thesis
        using bq_ok_take_ticket [OF ok, of i w x] step bound by (auto simp: E_Cas entering_def)
    next
      case False
      then show ?thesis using step by (intro quiet) (auto simp: E_Cas entering_def)
    qed
  next
    case (E_Write w x old)
    then show ?thesis using bq_ok_write [OF ok E_Write] step by (auto simp: entering_def BQ_GetIndex_nat P)
  next
    case (E_Commit w x old)
    show ?thesis
    proof (cases "bq_commit (sys_q s) = old \<and> \<not> spurious")
      case True
      then show ?thesis
        using bq_ok_commit [OF ok, of i w x] step bound by (auto simp: E_Commit entering_def)
    next
      case False
      then show ?thesis using step by (intro same) (auto simp: E_Commit entering_def)
    qed
  qed (rule same; insert step; auto simp: moves_nothing)+
qed

lemma bq_ok_dequeue:
  assumes ok: "bq_ok P s" and step: "Dequeue_step spurious (sys_pc s i) (sys_q s) = (pc, q)"
    and bound: "length (sys_entered s) + 2 < 18446744073709551616"
  shows "bq_ok P (s\<lparr>sys_q := q, sys_pc := (sys_pc s)(i := pc), sys_left := sys_left s @ leaving (sys_pc s i) pc\<rparr>)"
    (is "bq_ok P ?t")
proof -
  have q: "nat_head s < nat_commit s" "nat_commit s \<le> nat_tail s" "length (sys_entered s) + 1 = nat_tail s"
    and committed: "\<And>k. nat_head s < k \<Longrightarrow> k < nat_commit s \<Longrightarrow> bq_pool (sys_q s) ! (k mod P) = sys_entered s ! (k - 1)"
    and P: "unat (bq_pool_size (sys_q s)) = P"
    using ok by (auto simp: bq_ok_def queue_ok_def)
  have quiet: "bq_ok P ?t" if "q = sys_q s" "leaving (sys_pc s i) pc = []" "ticket pc = None"
    "pc_ok (nat_head s) (nat_tail s) (nat_commit s) P (bq_pool (sys_q s)) (sys_entered s) pc"
    using bq_ok_pc [OF ok that(3,4), of i] that(1,2) by simp
  have same: "bq_ok P ?t" if "pc = sys_pc s i" "q = sys_q s" "leaving (sys_pc s i) pc = []"
    using ok that by (simp add: fun_upd_idem)
  note mine = pc_okD [OF ok, of i]
  have inc: "unat (old + 1 :: u64) = unat old + 1" if "unat old \<le> nat_head s" for old
    using that q bound by (simp add: u64_simps)
  show ?thesis
  proof (cases "sys_pc s i")
    case (D_Load w)
    then show ?thesis using step by (intro quiet) (auto simp: leaving_def)
  next
    case (D_Check w old)
    then show ?thesis
      using step mine inc [of old] q by (intro quiet) (auto simp: leaving_def u64_eq_iff split: if_splits)
  next
    case (D_Read w old)
    then show ?thesis
      using step mine inc [of old] committed [of "unat old + 1"]
      by (intro quiet) (auto simp: leaving_def BQ_GetIndex_nat P)
  next
    case (D_Cas w old x)
    show ?thesis
    proof (cases "bq_head (sys_q s) = old \<and> \<not> spurious")
      case True
      then show ?thesis
        using bq_ok_take_value [OF ok, of i w x] step bound by (auto simp: D_Cas leaving_def)
    next
      case False
      then show ?thesis using step by (intro quiet) (auto simp: D_Cas leaving_def)
    qed
  qed (rule same; insert step; auto simp: moves_nothing)+
qed

lemma wake_ok: "ticket (wake pc) = ticket pc" "pc_ok h t c P pool entered pc \<Longrightarrow> pc_ok h t c P pool entered (wake pc)"
  by (cases pc; simp add: wake_def)+

lemma bq_step_ok:
  assumes "bq_step s t" and "bq_ok P s" and "length (sys_entered t) + 2 < 18446744073709551616"
  shows "bq_ok P t"
  using assms
proof cases
  case (call i r r' pc)
  then show ?thesis using assms(2) bq_ok_pc [of P s pc i] by (cases pc) (auto simp: started_def)
next
  case (enqueue spurious i pc q)
  then show ?thesis using bq_ok_enqueue [OF assms(2)] assms(3) by auto
next
  case (dequeue spurious i pc q)
  then show ?thesis using bq_ok_dequeue [OF assms(2)] assms(3) by auto
next
  case (waiting i)
  show ?thesis
  proof (cases "Wait_step (sys_strategy s) (sys_pc s i) (sys_q s) = sys_pc s i")
    case True
    then show ?thesis using waiting assms(2) by (simp add: fun_upd_idem)
  next
    case False
    then show ?thesis
      unfolding waiting using assms(2) by (intro bq_ok_pc) (cases "sys_pc s i"; auto)+
  qed
next
  case (notify_one i j)
  have "bq_ok P (s\<lparr>sys_pc := (sys_pc s)(j := wake (sys_pc s j))\<rparr>)"
    using notify_one assms(2) pc_okD [OF assms(2), of j] by (intro bq_ok_pc) (auto simp: wake_ok asleep_def split: bq_pc.splits)
  from bq_ok_pc [OF this, of "Enq_Returned True" i] show ?thesis using notify_one by simp
next
  case (notify_nobody i)
  then show ?thesis using bq_ok_pc [OF assms(2)] by simp
next
  case (timeout i)
  show ?thesis
  proof (cases "timed_out (sys_pc s i) = sys_pc s i")
    case True
    then show ?thesis using timeout assms(2) by (simp add: fun_upd_idem)
  next
    case False
    then show ?thesis
      unfolding timeout using assms(2) by (intro bq_ok_pc) (cases "sys_pc s i"; auto simp: timed_out_def)+
  qed
next
  case break_flag
  then show ?thesis using assms(2) by (simp add: bq_ok_def)
next
  case break_notify
  then show ?thesis using assms(2) by (auto simp: bq_ok_def threads_ok_def wake_ok)
qed

lemma covered_upd:
  assumes "covered c t pcs" and "c \<le> c'" and "t' = t \<or> (t' = t + 1 \<and> ticket pc = Some t)"
    and "\<And>k. ticket (pcs i) = Some k \<Longrightarrow> c' \<le> k \<Longrightarrow> ticket pc = Some k"
  shows "covered c' t' (pcs(i := pc))"
  unfolding covered_def
proof (intro allI impI)
  fix k assume k: "c' \<le> k \<and> k < t'"
  show "\<exists>j. ticket ((pcs(i := pc)) j) = Some k"
  proof (cases "k < t")
    case True
    moreover have "c \<le> k" using k assms(2) by simp
    ultimately obtain j where "ticket (pcs j) = Some k" using assms(1) unfolding covered_def by blast
    then show ?thesis using k assms(4) by (intro exI [of _ j]) auto
  next
    case False
    then show ?thesis using k assms(3) by (intro exI [of _ i]) auto
  qed
qed

lemma bq_step_covered:
  assumes "bq_step s t" and "bq_ok P s" and "length (sys_entered t) + 2 < 18446744073709551616"
    and "covered (nat_commit s) (nat_tail s) (sys_pc s)"
  shows "covered (nat_commit t) (nat_tail t) (sys_pc t)"
  using assms(1)
proof cases
  case (call i r r' pc)
  then show ?thesis using assms(4) by (auto intro!: covered_upd)
next
  case (enqueue spurious i pc q)
  have len: "length (sys_entered s) + 1 = nat_tail s" "nat_commit s \<le> nat_tail s"
    using bq_okD [OF assms(2)] by (auto simp: queue_ok_def)
  have "unat (bq_tail (sys_q s) + 1) = nat_tail s + 1" if "entering (sys_pc s i) pc \<noteq> []"
    using that assms(3) enqueue(1) len by (simp add: u64_simps Suc_le_eq flip: length_greater_0_conv)
  moreover have "unat (bq_commit (sys_q s) + 1) = nat_commit s + 1"
    using assms(3) enqueue(1) len by (simp add: u64_simps)
  ultimately show ?thesis
    using enqueue assms(4) by (cases "sys_pc s i") (auto simp: Let_def entering_def split: if_splits intro!: covered_upd)
next
  case (dequeue spurious i pc q)
  then show ?thesis using assms(4) by (cases "sys_pc s i") (auto split: if_splits intro!: covered_upd)
next
  case (waiting i)
  then show ?thesis using assms(4) by (cases "sys_pc s i") (auto intro!: covered_upd)
next
  case (notify_one i j)
  have "covered (nat_commit s) (nat_tail s) ((sys_pc s)(j := wake (sys_pc s j)))"
    by (rule covered_upd [OF assms(4)]) (simp_all add: wake_ok)
  then have "covered (nat_commit s) (nat_tail s) ((sys_pc s)(j := wake (sys_pc s j), i := Enq_Returned True))"
    by (rule covered_upd) (use notify_one in \<open>auto simp: wake_ok split: if_splits\<close>)
  then show ?thesis using notify_one by simp
next
  case (notify_nobody i)
  then show ?thesis using assms(4) by (auto intro!: covered_upd)
next
  case (timeout i)
  then show ?thesis using assms(4) by (cases "sys_pc s i") (auto simp: timed_out_def intro!: covered_upd)
next
  case break_flag
  then show ?thesis using assms(4) by simp
next
  case break_notify
  then show ?thesis using assms(4) by (simp add: covered_def wake_ok)
qed

lemma bq_step_entered: "bq_step s t \<Longrightarrow> length (sys_entered s) \<le> length (sys_entered t)"
  by (cases rule: bq_step.cases) auto

definition bq_start :: "u64 \<Rightarrow> 'a bq_system \<Rightarrow> bool" where
  "bq_start sz s \<longleftrightarrow> unat sz + 2 < 18446744073709551616 \<and> (\<exists>d. bq_init d sz s)"

lemma bq_start_ok: "bq_start sz s \<Longrightarrow> bq_ok (unat sz + 2) s"
proof -
  assume start: "bq_start sz s"
  have size: "unat (sz + 2) = unat sz + 2" using start by (simp add: bq_start_def u64_simps)
  obtain d where "BQ_Init True d sz = Some (sys_q s)" and s: "sys_pc s = (\<lambda>_. Idle)" "sys_entered s = []" "sys_left s = []"
    using start by (auto simp: bq_start_def bq_init_def)
  then have q: "sys_q s = the (BQ_Init True d sz)" by simp
  show ?thesis unfolding bq_ok_def queue_ok_def threads_ok_def s q by (simp add: BQ_Init_def size)
qed

lemma bq_start_covered: "bq_start sz s \<Longrightarrow> covered (nat_commit s) (nat_tail s) (sys_pc s)"
  using bq_start_ok by (auto simp: bq_start_def bq_init_def BQ_Init_def covered_def dest!: sym [of _ "sys_q s"])

interpretation bq_sys: invariant_system "bq_start sz" bq_step "bq_inv (unat sz + 2)" for sz
proof
  show "bq_inv (unat sz + 2) s" if "bq_start sz s" for s :: "'a bq_system"
    using bq_start_ok [OF that] bq_start_covered [OF that] by (simp add: bq_inv_def)
  show "bq_inv (unat sz + 2) t" if "bq_inv (unat sz + 2) s" "bq_step s t" for s t :: "'a bq_system"
    using that bq_step_ok [OF that(2)] bq_step_covered [OF that(2)] bq_step_entered [OF that(2)] by (auto simp: bq_inv_def)
qed

section \<open>Schedules\<close>

text \<open>Moves of the first \<open>N\<close> threads as a function, to run a given interleaving.\<close>

datatype 'a move = Call nat "'a bq_pc" | Enq nat | Deq nat | Wait nat | Notify nat

fun do_move :: "nat \<Rightarrow> 'a move \<Rightarrow> 'a bq_system \<Rightarrow> 'a bq_system" where
  "do_move N (Call i pc) s =
     (if i < N \<and> started pc \<and> (case sys_pc s i of Idle \<Rightarrow> True | Enq_Returned _ \<Rightarrow> True | Deq_Returned _ \<Rightarrow> True | _ \<Rightarrow> False)
      then s\<lparr>sys_pc := (sys_pc s)(i := pc)\<rparr> else s)"
| "do_move N (Enq i) s =
     (if i < N then
        let (pc, q) = Enqueue_step False (sys_pc s i) (sys_q s)
        in s\<lparr>sys_q := q, sys_pc := (sys_pc s)(i := pc), sys_entered := sys_entered s @ entering (sys_pc s i) pc\<rparr> else s)"
| "do_move N (Deq i) s =
     (if i < N then
        let (pc, q) = Dequeue_step False (sys_pc s i) (sys_q s)
        in s\<lparr>sys_q := q, sys_pc := (sys_pc s)(i := pc), sys_left := sys_left s @ leaving (sys_pc s i) pc\<rparr> else s)"
| "do_move N (Wait i) s =
     (if i < N then s\<lparr>sys_pc := (sys_pc s)(i := Wait_step (sys_strategy s) (sys_pc s i) (sys_q s))\<rparr> else s)"
| "do_move N (Notify i) s =
     (if i < N \<and> (case sys_pc s i of E_Notify \<Rightarrow> True | _ \<Rightarrow> False) \<and> list_all (\<lambda>j. \<not> asleep (sys_pc s j)) [0..<N]
      then s\<lparr>sys_pc := (sys_pc s)(i := Enq_Returned True)\<rparr> else s)"

definition others_idle :: "nat \<Rightarrow> 'a bq_system \<Rightarrow> bool" where
  "others_idle N s \<longleftrightarrow> (\<forall>j \<ge> N. sys_pc s j = Idle)"

lemma do_move_step:
  assumes "others_idle N s"
  shows "others_idle N (do_move N m s) \<and> (do_move N m s = s \<or> bq_step s (do_move N m s))"
proof (cases m)
  case (Call i pc)
  then show ?thesis
    using assms bq_step.call [of s i] by (auto simp: others_idle_def split: bq_pc.split)
next
  case (Enq i)
  then show ?thesis
    using assms bq_step.enqueue [of False s i] by (auto simp: others_idle_def split: prod.split)
next
  case (Deq i)
  then show ?thesis
    using assms bq_step.dequeue [of False s i] by (auto simp: others_idle_def split: prod.split)
next
  case (Wait i)
  then show ?thesis using assms bq_step.waiting [of s i] by (auto simp: others_idle_def)
next
  case (Notify i)
  have "\<not> asleep (sys_pc s j)" if "list_all (\<lambda>j. \<not> asleep (sys_pc s j)) [0..<N]" for j
    using that assms by (cases "j < N") (auto simp: list_all_iff others_idle_def asleep_def)
  then show ?thesis
    using Notify assms bq_step.notify_nobody [of s i] by (auto simp: others_idle_def split: bq_pc.split)
qed

lemma schedule_reachable:
  "bq_start sz s \<Longrightarrow> others_idle N s \<Longrightarrow> reachable_from (bq_start sz) bq_step (fold (do_move N) ms s)"
proof -
  have "reachable_from (bq_start sz) bq_step (fold (do_move N) ms s)"
    if "reachable_from (bq_start sz) bq_step s" "others_idle N s"
    using that
  proof (induction ms arbitrary: s)
    case (Cons m ms)
    have "reachable_from (bq_start sz) bq_step (do_move N m s)" "others_idle N (do_move N m s)"
      using do_move_step [OF Cons.prems(2), of m] Cons.prems(1) reach_step by fastforce+
    then show ?case using Cons.IH by simp
  qed simp
  then show "bq_start sz s \<Longrightarrow> others_idle N s \<Longrightarrow> ?thesis" by (blast intro: reach_init)
qed

section \<open>Properties\<close>

text \<open>
  C6: the queue is a bounded FIFO under any interleaving of any number of producers and consumers. What
  consumers got is exactly the beginning of what producers put in, in the same order, each value once;
  at most \<open>size\<close> values are inside; \<open>Size\<close> is their number; and no index leaves the pool.
\<close>

theorem bounded_queue_fifo:
  assumes "reachable_from (bq_start sz) bq_step s" and "length (sys_entered s) + 2 < 18446744073709551616"
  shows "sys_left s = take (length (sys_left s)) (sys_entered s)
    \<and> length (sys_entered s) \<le> length (sys_left s) + unat sz
    \<and> unat (BQ_Size (sys_q s)) = length (sys_entered s) - length (sys_left s)
    \<and> (\<forall>num. unat (BQ_GetIndex (sys_q s) num) < length (bq_pool (sys_q s)))"
proof -
  have ok: "bq_ok (unat sz + 2) s" using bq_sys.reachable_inv [OF assms(1)] assms(2) by (simp add: bq_inv_def)
  then have q: "nat_head s < nat_commit s" "nat_commit s \<le> nat_tail s" "nat_tail s < nat_head s + (unat sz + 2)"
      "length (sys_entered s) + 1 = nat_tail s" "sys_left s = take (nat_head s) (sys_entered s)"
      "length (bq_pool (sys_q s)) = unat sz + 2" "unat (bq_pool_size (sys_q s)) = unat sz + 2"
    by (auto simp: bq_ok_def queue_ok_def)
  have len: "length (sys_left s) = nat_head s" using q by simp
  have "unat (bq_tail (sys_q s) - bq_head (sys_q s)) = nat_tail s - nat_head s" using q by (simp add: u64_simps)
  then have "unat (BQ_Size (sys_q s)) = nat_tail s - nat_head s - 1"
    unfolding BQ_Size_def using q by (subst unat_u64_sub) auto
  moreover have "unat num mod (unat sz + 2) < unat sz + 2" for num :: u64 by (rule mod_less_divisor) simp
  ultimately show ?thesis using q len by (auto simp: BQ_GetIndex_nat)
qed

text \<open>
  C28: the queue never gets stuck. Whenever some values have entered but are not yet visible to consumers,
  there is a producer whose next two steps, taken without interruption, make the oldest of them visible.
\<close>

theorem bounded_queue_progress:
  assumes "reachable_from (bq_start sz) bq_step s" and "length (sys_entered s) + 2 < 18446744073709551616"
    and "bq_commit (sys_q s) \<noteq> bq_tail (sys_q s)"
  shows "\<exists>i. let (pc1, q1) = Enqueue_step False (sys_pc s i) (sys_q s); (pc2, q2) = Enqueue_step False pc1 q1
    in bq_commit q2 = bq_commit (sys_q s) + 1 \<and> (pc1 = E_Notify \<or> pc2 = E_Notify)"
proof -
  have ok: "bq_ok (unat sz + 2) s" and cov: "covered (nat_commit s) (nat_tail s) (sys_pc s)"
    using bq_sys.reachable_inv [OF assms(1)] assms(2) by (simp_all add: bq_inv_def)
  have "nat_commit s \<le> nat_tail s" using bq_okD [OF ok] by (simp add: queue_ok_def)
  moreover have "nat_commit s \<noteq> nat_tail s" using assms(3) by (simp add: u64_eq_iff)
  ultimately obtain i where i: "ticket (sys_pc s i) = Some (nat_commit s)" using cov by (auto simp: covered_def)
  then consider w x where "sys_pc s i = E_Write w x (bq_commit (sys_q s))" | w x where "sys_pc s i = E_Commit w x (bq_commit (sys_q s))"
    by (cases "sys_pc s i") (auto simp: u64_eq_iff)
  then show ?thesis by cases (auto intro!: exI [of _ i])
qed

definition start_queue :: "u64 \<Rightarrow> wait_strategy \<Rightarrow> nat bq_system" where
  "start_queue sz st =
     \<lparr>sys_q = the (BQ_Init True 0 sz), sys_pc = (\<lambda>_. Idle), sys_strategy = st, sys_entered = [], sys_left = []\<rparr>"

lemma start_queue_ok: "unat sz + 2 < 18446744073709551616 \<Longrightarrow> bq_start sz (start_queue sz st)" "others_idle N (start_queue sz st)"
  by (auto simp: bq_start_def bq_init_def start_queue_def BQ_Init_def others_idle_def)

lemmas start_queue_reachable = schedule_reachable [OF start_queue_ok]

definition enqueue_moves :: "nat \<Rightarrow> nat \<Rightarrow> nat move list" where
  "enqueue_moves i v = [Call i (E_Load False v), Enq i, Enq i, Enq i, Enq i, Enq i, Notify i]"

definition dequeue_moves :: "nat \<Rightarrow> nat move list" where
  "dequeue_moves i = [Call i (D_Load False), Deq i, Deq i, Deq i, Deq i]"

definition two_in_one_out :: "nat bq_system" where
  "two_in_one_out = fold (do_move 2) (enqueue_moves 0 7 @ enqueue_moves 1 8 @ dequeue_moves 0) (start_queue 4 BlockWaitStrategy)"

theorem bounded_queue_fifo_witness:
  "sys_entered two_in_one_out = [7, 8] \<and> sys_left two_in_one_out = [7] \<and> unat (BQ_Size (sys_q two_in_one_out)) = 1"
proof -
  have "sys_entered two_in_one_out = [7, 8]" "sys_left two_in_one_out = [7]" by code_simp+
  moreover have "reachable_from (bq_start 4) bq_step two_in_one_out"
    unfolding two_in_one_out_def by (rule start_queue_reachable) simp
  ultimately show ?thesis using bounded_queue_fifo [of 4 two_in_one_out] by simp
qed

definition one_pending :: "nat bq_system" where
  "one_pending = fold (do_move 2) [Call 0 (E_Load False 7), Enq 0, Enq 0, Enq 0] (start_queue 4 BlockWaitStrategy)"

theorem bounded_queue_progress_witness:
  "\<exists>i. let (pc1, q1) = Enqueue_step False (sys_pc one_pending i) (sys_q one_pending); (pc2, q2) = Enqueue_step False pc1 q1
    in bq_commit q2 = 2 \<and> (pc1 = E_Notify \<or> pc2 = E_Notify)"
proof -
  have "bq_commit (sys_q one_pending) = 1" "bq_tail (sys_q one_pending) = 2" "sys_entered one_pending = [7]" by code_simp+
  moreover have "reachable_from (bq_start 4) bq_step one_pending"
    unfolding one_pending_def by (rule start_queue_reachable) simp
  ultimately show ?thesis using bounded_queue_progress [of 4 one_pending] by simp
qed

text \<open>
  \<open>Enqueue\<close> can report a full queue when the queue is empty. A producer that is delayed between reading
  the tail and comparing it with the head returns \<open>False\<close> if the head has meanwhile moved to the slot
  after the stale tail, with no value in the queue and no other thread active.
\<close>

theorem enqueue_spuriously_full:
  "\<exists>s :: nat bq_system. reachable_from (bq_start 4) bq_step s \<and> BQ_Empty (sys_q s) \<and> sys_entered s = sys_left s
     \<and> Enqueue_step False (sys_pc s 0) (sys_q s) = (Enq_Returned False, sys_q s)"
proof -
  define s where "s = fold (do_move 2)
    ([Call 0 (E_Load False 9), Enq 0] @ enqueue_moves 1 7 @ dequeue_moves 1 @ enqueue_moves 1 8 @ dequeue_moves 1)
    (start_queue 4 BlockWaitStrategy)"
  have "reachable_from (bq_start 4) bq_step s" unfolding s_def by (rule start_queue_reachable) simp
  moreover have "BQ_Empty (sys_q s)" "sys_entered s = sys_left s" "sys_pc s 0 = E_Check False 9 1"
    "BQ_GetIndex (sys_q s) 2 = BQ_GetIndex (sys_q s) (bq_head (sys_q s))"
    unfolding s_def by code_simp+
  ultimately show ?thesis by (intro exI [of _ s]) simp
qed

text \<open>
  A consumer can sleep next to a value. With the blocking strategy, a consumer that finds the queue
  empty and is delayed before it waits misses the notification of the producer; it then sleeps although a
  value is ready and no producer is active.
\<close>

theorem wakeup_lost:
  "\<exists>s :: nat bq_system. reachable_from (bq_start 4) bq_step s \<and> sys_strategy s = BlockWaitStrategy \<and> sys_pc s 0 = WD_Sleep
     \<and> \<not> BQ_Empty (sys_q s) \<and> bq_commit (sys_q s) = bq_tail (sys_q s) \<and> sys_pc s 1 = Enq_Returned True \<and> others_idle 2 s"
proof -
  define ms :: "nat move list" where
    "ms = [Call 0 WD_Loop, Wait 0, Deq 0, Deq 0] @ enqueue_moves 1 7 @ [Wait 0]"
  define s where "s = fold (do_move 2) ms (start_queue 4 BlockWaitStrategy)"
  have "reachable_from (bq_start 4) bq_step s" unfolding s_def by (rule start_queue_reachable) simp
  moreover have "sys_strategy s = BlockWaitStrategy" "sys_pc s 0 = WD_Sleep" "\<not> BQ_Empty (sys_q s)"
    "bq_commit (sys_q s) = bq_tail (sys_q s)" "sys_pc s 1 = Enq_Returned True"
    unfolding s_def ms_def by code_simp+
  moreover have "others_idle 2 (fold (do_move 2) xs t)" if "others_idle 2 t" for xs and t :: "nat bq_system"
    using that do_move_step by (induction xs arbitrary: t) auto
  then have "others_idle 2 s" unfolding s_def using start_queue_ok(2) by blast
  ultimately show ?thesis by blast
qed

end
