(* ===== verification/Object_Pool.thy ===== *)
theory Object_Pool
  imports Cyber_Prelude
begin

text \<open>
  \<open>base/object_pool.h\<close> and \<open>base/concurrent_object_pool.h\<close>: arenas of objects threaded on a free list.
  Nodes are their indices in the arena and a pointer is an index or null (\<open>None\<close>).

  The first pool is for one thread. The second is a lock-free stack whose head carries a 64-bit counter;
  each atomic access is one step of a thread, any number of threads interleave, and
  \<open>compare_exchange_weak\<close> may fail spuriously. \<open>cs_out\<close> lists the objects handed out and not given
  back yet; giving one back may happen in any thread. \<open>cs_swaps\<close> counts the successful exchanges.
\<close>

section \<open>Free lists\<close>

fun chain :: "(nat \<Rightarrow> nat option) \<Rightarrow> nat option \<Rightarrow> nat list \<Rightarrow> bool" where
  "chain nx p [] = (p = None)"
| "chain nx p (a # as) = (p = Some a \<and> chain nx (nx a) as)"

lemma chain_upd: "a \<notin> set as \<Longrightarrow> chain (nx(a := q)) p as = chain nx p as"
  by (induction as arbitrary: p) auto

lemma chain_push: "chain nx p as \<Longrightarrow> a \<notin> set as \<Longrightarrow> chain (nx(a := p)) (Some a) (a # as)"
  by (simp add: chain_upd)

lemma chain_None: "chain nx None as \<longleftrightarrow> as = []"
  by (cases as) auto

lemma chain_Some: "chain nx (Some a) as \<longleftrightarrow> (\<exists>bs. as = a # bs \<and> chain nx (nx a) bs)"
  by (cases as) auto

section \<open>The pool of one thread\<close>

record object_pool =
  op_num_objects :: nat
  op_next :: "nat \<Rightarrow> nat option"
  op_free_head :: "nat option"

definition op_push :: "nat \<Rightarrow> object_pool \<Rightarrow> object_pool" where
  "op_push obj p = p\<lparr>op_next := (op_next p)(obj := op_free_head p), op_free_head := Some obj\<rparr>"

definition ObjectPool :: "u32 \<Rightarrow> object_pool" where
  "ObjectPool num_objects =
     fold op_push [0..<unat num_objects] \<lparr>op_num_objects = unat num_objects, op_next = (\<lambda>_. None), op_free_head = None\<rparr>"

definition OP_ReleaseObject :: "nat option \<Rightarrow> object_pool \<Rightarrow> object_pool" where
  "OP_ReleaseObject obj p = (case obj of None \<Rightarrow> p | Some a \<Rightarrow> op_push a p)"

definition OP_GetObject :: "object_pool \<Rightarrow> nat option \<times> object_pool" where
  "OP_GetObject p =
     (case op_free_head p of
        None \<Rightarrow> (None, p)
      | Some a \<Rightarrow> (Some a, p\<lparr>op_free_head := op_next p a\<rparr>))"

section \<open>The pool of many threads\<close>

record cc_object_pool =
  cc_count :: u64
  cc_node :: "nat option"
  cc_next :: "nat \<Rightarrow> nat option"
  cc_capacity :: nat

text \<open>For an empty pool the loop bound \<open>capacity_ - 1\<close> wraps and the constructor writes outside its arena;
  the systems below start from pools of at least one object.\<close>

definition CCObjectPool :: "nat \<Rightarrow> cc_object_pool" where
  "CCObjectPool sz =
     \<lparr>cc_count = 0, cc_node = Some 0, cc_next = (\<lambda>i. if i < sz - 1 then Some (i + 1) else None), cc_capacity = sz\<rparr>"

type_synonym head = "u64 \<times> nat option"

datatype cc_pc = CC_Idle
  | G_Load | G_Check head | G_Next u64 nat | G_Cas u64 nat "nat option" | G_Result "nat option"
  | P_Load nat | P_Next nat head | P_Cas nat head

abbreviation cc_head :: "cc_object_pool \<Rightarrow> head" where
  "cc_head p \<equiv> (cc_count p, cc_node p)"

fun FindFreeHead_step :: "bool \<Rightarrow> cc_pc \<Rightarrow> cc_object_pool \<Rightarrow> cc_pc \<times> cc_object_pool" where
  "FindFreeHead_step spurious G_Load p = (G_Check (cc_head p), p)"
| "FindFreeHead_step spurious (G_Check (c, node)) p =
     (case node of None \<Rightarrow> (G_Result None, p) | Some a \<Rightarrow> (G_Next c a, p))"
| "FindFreeHead_step spurious (G_Next c a) p = (G_Cas c a (cc_next p a), p)"
| "FindFreeHead_step spurious (G_Cas c a nx) p =
     (if cc_head p = (c, Some a) \<and> \<not> spurious then (G_Result (Some a), p\<lparr>cc_count := c + 1, cc_node := nx\<rparr>)
      else (G_Check (cc_head p), p))"
| "FindFreeHead_step spurious pc p = (pc, p)"

fun CC_ReleaseObject_step :: "bool \<Rightarrow> cc_pc \<Rightarrow> cc_object_pool \<Rightarrow> cc_pc \<times> cc_object_pool" where
  "CC_ReleaseObject_step spurious (P_Load a) p = (P_Next a (cc_head p), p)"
| "CC_ReleaseObject_step spurious (P_Next a (c, node)) p = (P_Cas a (c, node), p\<lparr>cc_next := (cc_next p)(a := node)\<rparr>)"
| "CC_ReleaseObject_step spurious (P_Cas a (c, node)) p =
     (if cc_head p = (c, node) \<and> \<not> spurious then (CC_Idle, p\<lparr>cc_count := c + 1, cc_node := Some a\<rparr>)
      else (P_Next a (cc_head p), p))"
| "CC_ReleaseObject_step spurious pc p = (pc, p)"

record cc_system =
  cs_pool :: cc_object_pool
  cs_pc :: "nat \<Rightarrow> cc_pc"
  cs_out :: "nat list"
  cs_swaps :: nat

definition swapped :: "cc_object_pool \<Rightarrow> cc_object_pool \<Rightarrow> nat" where
  "swapped p q = (if cc_count p = cc_count q then 0 else 1)"

text \<open>\<open>GetObject\<close> and \<open>ConstructObject\<close> hand out what \<open>FindFreeHead\<close> found.\<close>

inductive cc_step :: "cc_system \<Rightarrow> cc_system \<Rightarrow> bool" where
  cc_get: "cs_pc s i = CC_Idle \<Longrightarrow> cc_step s (s\<lparr>cs_pc := (cs_pc s)(i := G_Load)\<rparr>)"
| cc_find: "FindFreeHead_step spurious (cs_pc s i) (cs_pool s) = (pc, p)
    \<Longrightarrow> cc_step s (s\<lparr>cs_pool := p, cs_pc := (cs_pc s)(i := pc), cs_swaps := cs_swaps s + swapped (cs_pool s) p\<rparr>)"
| cc_hand_out: "cs_pc s i = G_Result r
    \<Longrightarrow> cc_step s (s\<lparr>cs_pc := (cs_pc s)(i := CC_Idle), cs_out := (case r of None \<Rightarrow> [] | Some a \<Rightarrow> [a]) @ cs_out s\<rparr>)"
| cc_give_back: "cs_pc s i = CC_Idle \<Longrightarrow> a \<in> set (cs_out s)
    \<Longrightarrow> cc_step s (s\<lparr>cs_pc := (cs_pc s)(i := P_Load a), cs_out := remove1 a (cs_out s)\<rparr>)"
| cc_release: "CC_ReleaseObject_step spurious (cs_pc s i) (cs_pool s) = (pc, p)
    \<Longrightarrow> cc_step s (s\<lparr>cs_pool := p, cs_pc := (cs_pc s)(i := pc), cs_swaps := cs_swaps s + swapped (cs_pool s) p\<rparr>)"

definition cc_init :: "nat \<Rightarrow> cc_system \<Rightarrow> bool" where
  "cc_init sz s \<longleftrightarrow> 0 < sz \<and> sz < 4294967296 \<and> cs_pool s = CCObjectPool sz \<and> cs_pc s = (\<lambda>_. CC_Idle) \<and> cs_out s = [] \<and> cs_swaps s = 0"

section \<open>The invariant\<close>

text \<open>The object a thread has taken and not handed out, or is giving back.\<close>

fun carried :: "cc_pc \<Rightarrow> nat option" where
  "carried (G_Result r) = r"
| "carried (P_Load a) = Some a"
| "carried (P_Next a h) = Some a"
| "carried (P_Cas a h) = Some a"
| "carried pc = None"

text \<open>A head that a thread remembers is the current one or has an older count.\<close>

definition remembers :: "cc_object_pool \<Rightarrow> nat \<Rightarrow> head \<Rightarrow> bool" where
  "remembers p n h \<longleftrightarrow> unat (fst h) \<le> n \<and> (unat (fst h) = n \<longrightarrow> h = cc_head p)"

fun cc_pc_ok :: "cc_object_pool \<Rightarrow> nat \<Rightarrow> cc_pc \<Rightarrow> bool" where
  "cc_pc_ok p n (G_Check h) = remembers p n h"
| "cc_pc_ok p n (G_Next c a) = remembers p n (c, Some a)"
| "cc_pc_ok p n (G_Cas c a nx) = (remembers p n (c, Some a) \<and> (unat c = n \<longrightarrow> nx = cc_next p a))"
| "cc_pc_ok p n (P_Next a h) = remembers p n h"
| "cc_pc_ok p n (P_Cas a h) = (remembers p n h \<and> cc_next p a = snd h)"
| "cc_pc_ok p n pc = True"

definition cc_okp :: "cc_object_pool \<Rightarrow> nat \<Rightarrow> (nat \<Rightarrow> cc_pc) \<Rightarrow> nat list \<Rightarrow> nat list \<Rightarrow> bool" where
  "cc_okp p n pcs out free \<longleftrightarrow> unat (cc_count p) = n \<and> chain (cc_next p) (cc_node p) free
     \<and> distinct (free @ out) \<and> (\<forall>i. cc_pc_ok p n (pcs i))
     \<and> (\<forall>i a. carried (pcs i) = Some a \<longrightarrow> a \<notin> set free \<and> a \<notin> set out)
     \<and> (\<forall>i j a. carried (pcs i) = Some a \<and> carried (pcs j) = Some a \<longrightarrow> i = j)"

definition cc_ok :: "cc_system \<Rightarrow> nat list \<Rightarrow> bool" where
  "cc_ok s free \<longleftrightarrow> cc_okp (cs_pool s) (cs_swaps s) (cs_pc s) (cs_out s) free"

text \<open>Every object of the arena is free, handed out or carried by a thread.\<close>

definition accounted :: "cc_system \<Rightarrow> nat list \<Rightarrow> bool" where
  "accounted s free \<longleftrightarrow> set free \<union> set (cs_out s) \<union> {a. \<exists>i. carried (cs_pc s i) = Some a} = {..<cc_capacity (cs_pool s)}"

definition cc_inv :: "nat \<Rightarrow> cc_system \<Rightarrow> bool" where
  "cc_inv sz s \<longleftrightarrow> (cs_swaps s + 1 < 18446744073709551616 \<longrightarrow>
     cc_capacity (cs_pool s) = sz \<and> (\<exists>free. cc_ok s free \<and> accounted s free))"

lemma cc_okpI:
  assumes "unat (cc_count p) = n" and "chain (cc_next p) (cc_node p) free" and "distinct (free @ out)"
    and "\<And>i. cc_pc_ok p n (pcs i)" and "\<And>i a. carried (pcs i) = Some a \<Longrightarrow> a \<notin> set free \<and> a \<notin> set out"
    and "\<And>i j a. carried (pcs i) = Some a \<Longrightarrow> carried (pcs j) = Some a \<Longrightarrow> i = j"
  shows "cc_okp p n pcs out free"
  unfolding cc_okp_def using assms by blast

lemma cc_okD:
  assumes "cc_ok s free"
  shows "unat (cc_count (cs_pool s)) = cs_swaps s" "chain (cc_next (cs_pool s)) (cc_node (cs_pool s)) free"
    "distinct (free @ cs_out s)" "cc_pc_ok (cs_pool s) (cs_swaps s) (cs_pc s i)"
    "carried (cs_pc s i) = Some a \<Longrightarrow> a \<notin> set free \<and> a \<notin> set (cs_out s)"
    "carried (cs_pc s i) = Some a \<Longrightarrow> carried (cs_pc s j) = Some a \<Longrightarrow> i = j"
  using assms by (auto simp: cc_ok_def cc_okp_def)

text \<open>A step that leaves the pool alone.\<close>

lemma cc_ok_pc:
  assumes "cc_ok s free" and "cc_pc_ok (cs_pool s) (cs_swaps s) pc" and "carried pc = carried (cs_pc s i) \<or> carried pc = None"
  shows "cc_ok (s\<lparr>cs_pc := (cs_pc s)(i := pc)\<rparr>) free"
proof -
  have own: "carried (((cs_pc s)(i := pc)) j) = Some a \<Longrightarrow> carried (cs_pc s j) = Some a" for j a
    using assms(3) by (auto split: if_splits)
  have "cc_okp (cs_pool s) (cs_swaps s) ((cs_pc s)(i := pc)) (cs_out s) free"
    using cc_okD(1-3) [OF assms(1)]
  proof (rule cc_okpI)
    show "cc_pc_ok (cs_pool s) (cs_swaps s) (((cs_pc s)(i := pc)) j)" for j
      using cc_okD(4) [OF assms(1)] assms(2) by simp
  qed (use own cc_okD(5,6) [OF assms(1)] in blast)+
  then show ?thesis by (simp add: cc_ok_def)
qed

text \<open>After an exchange every remembered head is out of date.\<close>

lemma cc_pc_ok_swap:
  "cc_pc_ok p n pc \<Longrightarrow> (\<And>a. carried pc = Some a \<Longrightarrow> cc_next q a = cc_next p a) \<Longrightarrow> cc_pc_ok q (n + 1) pc"
  by (cases pc) (auto simp: remembers_def)

lemma cc_ok_pop:
  assumes ok: "cc_ok s free" and pc: "cs_pc s i = G_Cas c a nx" and head: "cc_head (cs_pool s) = (c, Some a)"
    and bound: "cs_swaps s + 1 < 18446744073709551616"
  shows "cc_ok (s\<lparr>cs_pool := (cs_pool s)\<lparr>cc_count := c + 1, cc_node := nx\<rparr>, cs_pc := (cs_pc s)(i := G_Result (Some a)),
    cs_swaps := cs_swaps s + 1\<rparr>) (tl free)"
proof -
  let ?p = "(cs_pool s)\<lparr>cc_count := c + 1, cc_node := nx\<rparr>" and ?pcs = "(cs_pc s)(i := G_Result (Some a))"
  have c: "unat c = cs_swaps s" using cc_okD(1) [OF ok] head by simp
  then have nx: "nx = cc_next (cs_pool s) a" using cc_okD(4) [OF ok, of i] by (simp add: pc)
  obtain bs where free: "free = a # bs" "chain (cc_next ?p) (cc_node ?p) bs"
    using cc_okD(2) [OF ok] head nx by (auto simp: chain_Some)
  have "cc_okp ?p (cs_swaps s + 1) ?pcs (cs_out s) bs"
  proof (rule cc_okpI)
    show "unat (cc_count ?p) = cs_swaps s + 1" using bound c by (simp add: u64_simps)
    show "chain (cc_next ?p) (cc_node ?p) bs" by (rule free)
    show "distinct (bs @ cs_out s)" using cc_okD(3) [OF ok] by (simp add: free)
    show "cc_pc_ok ?p (cs_swaps s + 1) (?pcs j)" for j using cc_pc_ok_swap [OF cc_okD(4) [OF ok, of j]] by simp
    show "b \<notin> set bs \<and> b \<notin> set (cs_out s)" if "carried (?pcs j) = Some b" for j b
      using that cc_okD(5) [OF ok, of j b] cc_okD(3) [OF ok] by (auto simp: free split: if_splits)
    show "j = k" if "carried (?pcs j) = Some b" "carried (?pcs k) = Some b" for j k b
      using that cc_okD(5) [OF ok, of _ a] cc_okD(6) [OF ok, of j b k] by (auto simp: free split: if_splits)
  qed
  then show ?thesis by (simp add: cc_ok_def free)
qed

lemma cc_ok_link:
  assumes ok: "cc_ok s free" and pc: "cs_pc s i = P_Next a (c, node)"
  shows "cc_ok (s\<lparr>cs_pool := (cs_pool s)\<lparr>cc_next := (cc_next (cs_pool s))(a := node)\<rparr>, cs_pc := (cs_pc s)(i := P_Cas a (c, node))\<rparr>) free"
proof -
  let ?p = "(cs_pool s)\<lparr>cc_next := (cc_next (cs_pool s))(a := node)\<rparr>" and ?pcs = "(cs_pc s)(i := P_Cas a (c, node))"
  have own: "a \<notin> set free" using cc_okD(5) [OF ok, of i a] by (simp add: pc)
  have same: "carried (?pcs j) = carried (cs_pc s j)" for j by (simp add: pc)
  have "cc_okp ?p (cs_swaps s) ?pcs (cs_out s) free"
  proof (rule cc_okpI)
    show "unat (cc_count ?p) = cs_swaps s" using cc_okD(1) [OF ok] by simp
    show "chain (cc_next ?p) (cc_node ?p) free" using cc_okD(2) [OF ok] own by (simp add: chain_upd)
    show "distinct (free @ cs_out s)" by (rule cc_okD(3) [OF ok])
    show "cc_pc_ok ?p (cs_swaps s) (?pcs j)" for j
    proof (cases "j = i")
      case True
      then show ?thesis using cc_okD(4) [OF ok, of i] by (simp add: pc remembers_def)
    next
      case False
      have "carried (cs_pc s j) \<noteq> Some a" using False cc_okD(6) [OF ok, of i a j] by (auto simp: pc)
      moreover have "b \<noteq> a" if "cc_node (cs_pool s) = Some b" for b
        using that cc_okD(2) [OF ok] own by (auto simp: chain_Some)
      ultimately show ?thesis
        using False cc_okD(1) [OF ok] cc_okD(4) [OF ok, of j] by (cases "cs_pc s j") (auto simp: remembers_def)
    qed
    show "b \<notin> set free \<and> b \<notin> set (cs_out s)" if "carried (?pcs j) = Some b" for j b
      using that cc_okD(5) [OF ok] unfolding same by blast
    show "j = k" if "carried (?pcs j) = Some b" "carried (?pcs k) = Some b" for j k b
      using that cc_okD(6) [OF ok] unfolding same by blast
  qed
  then show ?thesis by (simp add: cc_ok_def)
qed

lemma cc_ok_push:
  assumes ok: "cc_ok s free" and pc: "cs_pc s i = P_Cas a (c, node)" and head: "cc_head (cs_pool s) = (c, node)"
    and bound: "cs_swaps s + 1 < 18446744073709551616"
  shows "cc_ok (s\<lparr>cs_pool := (cs_pool s)\<lparr>cc_count := c + 1, cc_node := Some a\<rparr>, cs_pc := (cs_pc s)(i := CC_Idle),
    cs_swaps := cs_swaps s + 1\<rparr>) (a # free)"
proof -
  let ?p = "(cs_pool s)\<lparr>cc_count := c + 1, cc_node := Some a\<rparr>" and ?pcs = "(cs_pc s)(i := CC_Idle)"
  have "cc_okp ?p (cs_swaps s + 1) ?pcs (cs_out s) (a # free)"
  proof (rule cc_okpI)
    show "unat (cc_count ?p) = cs_swaps s + 1" using bound cc_okD(1) [OF ok] head by (simp add: u64_simps)
    show "chain (cc_next ?p) (cc_node ?p) (a # free)"
      using cc_okD(2) [OF ok] cc_okD(4) [OF ok, of i] head by (simp add: pc)
    show "distinct ((a # free) @ cs_out s)" using cc_okD(3) [OF ok] cc_okD(5) [OF ok, of i a] by (simp add: pc)
    show "cc_pc_ok ?p (cs_swaps s + 1) (?pcs j)" for j using cc_pc_ok_swap [OF cc_okD(4) [OF ok, of j]] by simp
    show "b \<notin> set (a # free) \<and> b \<notin> set (cs_out s)" if "carried (?pcs j) = Some b" for j b
    proof -
      have j: "j \<noteq> i" "carried (cs_pc s j) = Some b" using that by (auto split: if_splits)
      then have "b \<noteq> a" using cc_okD(6) [OF ok, of i a j] by (auto simp: pc)
      then show ?thesis using cc_okD(5) [OF ok j(2)] by simp
    qed
    show "j = k" if "carried (?pcs j) = Some b" "carried (?pcs k) = Some b" for j k b
      using that cc_okD(6) [OF ok, of j b k] by (auto split: if_splits)
  qed
  then show ?thesis by (simp add: cc_ok_def)
qed

lemma cc_ok_hand_out:
  assumes ok: "cc_ok s free" and pc: "cs_pc s i = G_Result r"
  shows "cc_ok (s\<lparr>cs_pc := (cs_pc s)(i := CC_Idle), cs_out := (case r of None \<Rightarrow> [] | Some a \<Rightarrow> [a]) @ cs_out s\<rparr>) free"
proof -
  let ?pcs = "(cs_pc s)(i := CC_Idle)" and ?out = "(case r of None \<Rightarrow> [] | Some a \<Rightarrow> [a]) @ cs_out s"
  have own: "j \<noteq> i \<and> carried (cs_pc s j) = Some b" if "carried (?pcs j) = Some b" for j b
    using that by (auto split: if_splits)
  have mine: "a \<notin> set free \<and> a \<notin> set (cs_out s)" if "r = Some a" for a
    using that cc_okD(5) [OF ok, of i a] by (simp add: pc)
  have "cc_okp (cs_pool s) (cs_swaps s) ?pcs ?out free"
    using cc_okD(1,2) [OF ok]
  proof (rule cc_okpI)
    show "distinct (free @ ?out)" using cc_okD(3) [OF ok] mine by (auto split: option.split)
    show "cc_pc_ok (cs_pool s) (cs_swaps s) (?pcs j)" for j using cc_okD(4) [OF ok, of j] by simp
    show "b \<notin> set free \<and> b \<notin> set ?out" if "carried (?pcs j) = Some b" for j b
    proof -
      have "r \<noteq> Some b" using own [OF that] cc_okD(6) [OF ok, of i b j] by (auto simp: pc)
      then show ?thesis using own [OF that] cc_okD(5) [OF ok, of j b] by (auto split: option.split)
    qed
  qed (use own cc_okD(6) [OF ok] in blast)
  then show ?thesis by (simp add: cc_ok_def)
qed

lemma cc_ok_give_back:
  assumes ok: "cc_ok s free" and pc: "cs_pc s i = CC_Idle" and out: "a \<in> set (cs_out s)"
  shows "cc_ok (s\<lparr>cs_pc := (cs_pc s)(i := P_Load a), cs_out := remove1 a (cs_out s)\<rparr>) free"
proof -
  let ?pcs = "(cs_pc s)(i := P_Load a)" and ?out = "remove1 a (cs_out s)"
  have d: "distinct (free @ cs_out s)" by (rule cc_okD(3) [OF ok])
  have "cc_okp (cs_pool s) (cs_swaps s) ?pcs ?out free"
    using cc_okD(1,2) [OF ok]
  proof (rule cc_okpI)
    show "distinct (free @ ?out)" using d by (auto dest: notin_set_remove1 in_set_remove1 [THEN iffD1, rotated])
    show "cc_pc_ok (cs_pool s) (cs_swaps s) (?pcs j)" for j using cc_okD(4) [OF ok, of j] by simp
    show "b \<notin> set free \<and> b \<notin> set ?out" if "carried (?pcs j) = Some b" for j b
      using that out d cc_okD(5) [OF ok, of j b] by (auto split: if_splits dest: notin_set_remove1)
    show "j = k" if "carried (?pcs j) = Some b" "carried (?pcs k) = Some b" for j k b
      using that out cc_okD(5) [OF ok, of _ a] cc_okD(6) [OF ok, of j b k] by (auto split: if_splits)
  qed
  then show ?thesis by (simp add: cc_ok_def)
qed

lemma carried_upd:
  assumes "cc_ok s free"
  shows "{a. \<exists>j. carried (((cs_pc s)(i := pc)) j) = Some a}
    = {a. \<exists>j. carried (cs_pc s j) = Some a} - set_option (carried (cs_pc s i)) \<union> set_option (carried pc)" (is "?L = ?R")
proof (intro set_eqI iffI)
  fix a assume "a \<in> ?L"
  then obtain j where j: "carried (((cs_pc s)(i := pc)) j) = Some a" by auto
  show "a \<in> ?R"
  proof (cases "j = i")
    case False
    then show ?thesis using j cc_okD(6) [OF assms, of j a i] by auto
  qed (use j in simp)
next
  fix a assume "a \<in> ?R"
  then consider "carried pc = Some a" | j where "carried (cs_pc s j) = Some a" "carried (cs_pc s i) \<noteq> Some a" by auto
  then show "a \<in> ?L" by cases (auto intro: exI [of _ i] split: if_splits)
qed

lemma accounted_carried: "accounted s free \<Longrightarrow> carried (cs_pc s i) = Some a \<Longrightarrow> a < cc_capacity (cs_pool s)"
  by (auto simp: accounted_def)

lemma accounted_pc:
  "cc_ok s free \<Longrightarrow> accounted s free \<Longrightarrow> carried pc = carried (cs_pc s i) \<Longrightarrow> cc_capacity p = cc_capacity (cs_pool s)
    \<Longrightarrow> accounted (s\<lparr>cs_pool := p, cs_pc := (cs_pc s)(i := pc), cs_swaps := n\<rparr>) free"
  using carried_upd [of s free i pc] by (auto simp: accounted_def)

lemma cc_ok_find:
  assumes ok: "cc_ok s free" and acc: "accounted s free" and step: "FindFreeHead_step spurious (cs_pc s i) (cs_pool s) = (pc, p)"
    and bound: "cs_swaps s + swapped (cs_pool s) p + 1 < 18446744073709551616"
  shows "cc_capacity p = cc_capacity (cs_pool s) \<and> (\<exists>free. cc_ok (s\<lparr>cs_pool := p, cs_pc := (cs_pc s)(i := pc),
      cs_swaps := cs_swaps s + swapped (cs_pool s) p\<rparr>) free
    \<and> accounted (s\<lparr>cs_pool := p, cs_pc := (cs_pc s)(i := pc), cs_swaps := cs_swaps s + swapped (cs_pool s) p\<rparr>) free)"
proof -
  note mine = cc_okD(4) [OF ok, of i]
  have cnt: "unat (cc_count (cs_pool s)) = cs_swaps s" by (rule cc_okD(1) [OF ok])
  have quiet: ?thesis if "p = cs_pool s" "carried pc = carried (cs_pc s i)" "cc_pc_ok (cs_pool s) (cs_swaps s) pc"
    using cc_ok_pc [OF ok that(3), of i] accounted_pc [OF ok acc that(2), of "cs_pool s" "cs_swaps s"] that(1,2)
    by (auto simp: swapped_def)
  show ?thesis
  proof (cases "(spurious, cs_pc s i, cs_pool s)" rule: FindFreeHead_step.cases)
    case (4 u c a nx q)
    show ?thesis
    proof (cases "cc_head (cs_pool s) = (c, Some a) \<and> \<not> spurious")
      case True
      then have "pc = G_Result (Some a)" "p = (cs_pool s)\<lparr>cc_count := c + 1, cc_node := nx\<rparr>" "swapped (cs_pool s) p = 1"
        using step 4 by (auto simp: swapped_def)
      moreover have "accounted (s\<lparr>cs_pool := p, cs_pc := (cs_pc s)(i := pc), cs_swaps := cs_swaps s + 1\<rparr>) (tl free)"
        using calculation True 4 acc cc_okD(2) [OF ok] carried_upd [OF ok, of i pc] by (auto simp: accounted_def chain_Some)
      ultimately show ?thesis using cc_ok_pop [OF ok, of i c a nx] True 4 bound by auto
    next
      case False
      then show ?thesis using step 4 cnt by (intro quiet) (auto simp: remembers_def)
    qed
  qed (rule quiet; insert step mine cnt; auto simp: remembers_def split: option.splits)+
qed

lemma cc_ok_release:
  assumes ok: "cc_ok s free" and acc: "accounted s free" and step: "CC_ReleaseObject_step spurious (cs_pc s i) (cs_pool s) = (pc, p)"
    and bound: "cs_swaps s + swapped (cs_pool s) p + 1 < 18446744073709551616"
  shows "cc_capacity p = cc_capacity (cs_pool s) \<and> (\<exists>free. cc_ok (s\<lparr>cs_pool := p, cs_pc := (cs_pc s)(i := pc),
      cs_swaps := cs_swaps s + swapped (cs_pool s) p\<rparr>) free
    \<and> accounted (s\<lparr>cs_pool := p, cs_pc := (cs_pc s)(i := pc), cs_swaps := cs_swaps s + swapped (cs_pool s) p\<rparr>) free)"
proof -
  note mine = cc_okD(4) [OF ok, of i]
  have cnt: "unat (cc_count (cs_pool s)) = cs_swaps s" by (rule cc_okD(1) [OF ok])
  have quiet: ?thesis if "p = cs_pool s" "carried pc = carried (cs_pc s i)" "cc_pc_ok (cs_pool s) (cs_swaps s) pc"
    using cc_ok_pc [OF ok that(3), of i] accounted_pc [OF ok acc that(2), of "cs_pool s" "cs_swaps s"] that(1,2)
    by (auto simp: swapped_def)
  show ?thesis
  proof (cases "(spurious, cs_pc s i, cs_pool s)" rule: CC_ReleaseObject_step.cases)
    case (2 u a c node q)
    then have "pc = P_Cas a (c, node)" "p = (cs_pool s)\<lparr>cc_next := (cc_next (cs_pool s))(a := node)\<rparr>" "swapped (cs_pool s) p = 0"
      using step by (auto simp: swapped_def)
    then show ?thesis using cc_ok_link [OF ok, of i a c node] accounted_pc [OF ok acc, of pc i p "cs_swaps s"] 2 by auto
  next
    case (3 u a c node q)
    show ?thesis
    proof (cases "cc_head (cs_pool s) = (c, node) \<and> \<not> spurious")
      case True
      then have "pc = CC_Idle" "p = (cs_pool s)\<lparr>cc_count := c + 1, cc_node := Some a\<rparr>" "swapped (cs_pool s) p = 1"
        using step 3 by (auto simp: swapped_def)
      moreover have "accounted (s\<lparr>cs_pool := p, cs_pc := (cs_pc s)(i := pc), cs_swaps := cs_swaps s + 1\<rparr>) (a # free)"
        using calculation True 3 acc accounted_carried [OF acc, of i a] carried_upd [OF ok, of i pc] by (auto simp: accounted_def)
      ultimately show ?thesis using cc_ok_push [OF ok, of i a c node] True 3 bound by auto
    next
      case False
      then show ?thesis using step 3 cnt by (intro quiet) (auto simp: remembers_def)
    qed
  qed (rule quiet; insert step mine cnt; auto simp: remembers_def)+
qed

lemma CCObjectPool_chain:
  assumes "k \<le> sz" and "0 < sz"
  shows "chain (cc_next (CCObjectPool sz)) (if k < sz then Some k else None) [k..<sz]"
  using assms(1)
proof (induction k rule: inc_induct)
  case (step k)
  then have "[k..<sz] = k # [Suc k..<sz]" by (simp add: upt_conv_Cons)
  moreover have "cc_next (CCObjectPool sz) k = (if Suc k < sz then Some (Suc k) else None)"
    using step.hyps by (auto simp: CCObjectPool_def)
  ultimately show ?case using step by simp
qed simp

interpretation cc_sys: invariant_system "cc_init sz" cc_step "cc_inv sz" for sz
proof
  show "cc_inv sz s" if "cc_init sz s" for s
  proof -
    have "chain (cc_next (cs_pool s)) (cc_node (cs_pool s)) [0..<sz]"
      using CCObjectPool_chain [of 0 sz] that by (simp add: cc_init_def CCObjectPool_def)
    then have "cc_ok s [0..<sz]"
      using that by (auto simp: cc_ok_def cc_init_def CCObjectPool_def intro!: cc_okpI)
    moreover have "accounted s [0..<sz]" using that by (auto simp: accounted_def cc_init_def CCObjectPool_def)
    ultimately show ?thesis using that by (auto simp: cc_inv_def cc_init_def CCObjectPool_def)
  qed
  show "cc_inv sz t" if inv: "cc_inv sz s" and step: "cc_step s t" for s t
    unfolding cc_inv_def
  proof
    assume bound: "cs_swaps t + 1 < 18446744073709551616"
    have "cs_swaps s \<le> cs_swaps t" using step by cases auto
    then obtain free where ok: "cc_ok s free" "accounted s free" and cap: "cc_capacity (cs_pool s) = sz"
      using inv bound by (auto simp: cc_inv_def)
    show "cc_capacity (cs_pool t) = sz \<and> (\<exists>free. cc_ok t free \<and> accounted t free)"
      using step
    proof cases
      case (cc_get i)
      then have "cc_ok t free" using cc_ok_pc [OF ok(1), of G_Load i] by simp
      moreover have "accounted t free" using accounted_pc [OF ok, of G_Load i "cs_pool s" "cs_swaps s"] cc_get by simp
      ultimately show ?thesis using cap cc_get by auto
    next
      case (cc_find spurious i pc p)
      then show ?thesis using cc_ok_find [OF ok] bound cap by fastforce
    next
      case (cc_hand_out i r)
      have "accounted t free"
        using ok(2) carried_upd [OF ok(1), of i CC_Idle] accounted_carried [OF ok(2), of i] cc_hand_out by (auto simp: accounted_def split: option.splits)
      then show ?thesis using cc_ok_hand_out [OF ok(1)] cc_hand_out cap by auto
    next
      case (cc_give_back i a)
      have "accounted t free"
        using ok(2) carried_upd [OF ok(1), of i "P_Load a"] cc_give_back cc_okD(3) [OF ok(1)]
        by (auto simp: accounted_def set_remove1_eq)
      then show ?thesis using cc_ok_give_back [OF ok(1)] cc_give_back cap by auto
    next
      case (cc_release spurious i pc p)
      then show ?thesis using cc_ok_release [OF ok] bound cap by fastforce
    qed
  qed
qed

section \<open>Properties\<close>

text \<open>
  C12: the concurrent pool never hands out an object twice and never loses one. In every state that any
  number of threads can reach, with fewer than \<open>2 ^ 64 - 1\<close> exchanges of the head, the objects handed out
  are different objects of the arena; and when a request finds no free object, every object of the arena
  is handed out or on its way to or from a user.
\<close>

theorem object_pool_no_double_allocation:
  assumes "reachable_from (cc_init sz) cc_step s" and "cs_swaps s + 1 < 18446744073709551616"
  shows "distinct (cs_out s) \<and> set (cs_out s) \<subseteq> {..<sz}
    \<and> (cs_pc s i = G_Result (Some a) \<longrightarrow> a < sz \<and> a \<notin> set (cs_out s))
    \<and> (cc_node (cs_pool s) = None \<longrightarrow> {..<sz} = set (cs_out s) \<union> {a. \<exists>i. carried (cs_pc s i) = Some a})"
proof -
  obtain free where ok: "cc_ok s free" "accounted s free" and cap: "cc_capacity (cs_pool s) = sz"
    using cc_sys.reachable_inv [OF assms(1)] assms(2) by (auto simp: cc_inv_def)
  have "free = []" if "cc_node (cs_pool s) = None" using cc_okD(2) [OF ok(1)] that by (simp add: chain_None)
  then show ?thesis
    using cc_okD(3) [OF ok(1)] cc_okD(5) [OF ok(1), of i a] accounted_carried [OF ok(2), of i a] ok(2) cap
    by (auto simp: accounted_def)
qed

lemma cc_run_get:
  assumes "reachable_from (cc_init sz) cc_step s" and "cs_pc s i = CC_Idle" and "cc_node (cs_pool s) = Some a"
  shows "\<exists>t. reachable_from (cc_init sz) cc_step t \<and> cs_out t = a # cs_out s \<and> cs_swaps t = cs_swaps s + 1"
proof -
  let ?p = "cs_pool s" and ?u = "\<lambda>s pc. s\<lparr>cs_pc := (cs_pc s)(i := pc)\<rparr>"
  let ?q = "?p\<lparr>cc_count := cc_count ?p + 1, cc_node := cc_next ?p a\<rparr>"
  let ?s1 = "?u s G_Load" and ?s2 = "?u s (G_Check (cc_head ?p))" and ?s3 = "?u s (G_Next (cc_count ?p) a)"
  let ?s4 = "?u s (G_Cas (cc_count ?p) a (cc_next ?p a))"
  let ?s5 = "s\<lparr>cs_pool := ?q, cs_pc := (cs_pc s)(i := G_Result (Some a)), cs_swaps := cs_swaps s + 1\<rparr>"
  have "cc_step s ?s1" using cc_get [OF assms(2)] .
  moreover have "cc_step ?s1 ?s2" using cc_find [of False ?s1 i] by (simp add: swapped_def)
  moreover have "cc_step ?s2 ?s3" using cc_find [of False ?s2 i] assms(3) by (simp add: swapped_def)
  moreover have "cc_step ?s3 ?s4" using cc_find [of False ?s3 i] by (simp add: swapped_def)
  moreover have "cc_step ?s4 ?s5" using cc_find [of False ?s4 i] assms(3) by (simp add: swapped_def)
  moreover have "cc_step ?s5 (?s5\<lparr>cs_pc := (cs_pc s)(i := CC_Idle), cs_out := a # cs_out s\<rparr>)"
    using cc_hand_out [of ?s5 i "Some a"] by simp
  ultimately have "reachable_from (cc_init sz) cc_step (?s5\<lparr>cs_pc := (cs_pc s)(i := CC_Idle), cs_out := a # cs_out s\<rparr>)"
    using assms(1) by (meson reach_step)
  then show ?thesis by (intro exI conjI) (assumption, simp_all)
qed

theorem object_pool_no_double_allocation_witness:
  "\<exists>s. reachable_from (cc_init 2) cc_step s \<and> cs_out s = [0] \<and> distinct (cs_out s) \<and> set (cs_out s) \<subseteq> {..<2}"
proof -
  have "reachable_from (cc_init 2) cc_step \<lparr>cs_pool = CCObjectPool 2, cs_pc = (\<lambda>_. CC_Idle), cs_out = [], cs_swaps = 0\<rparr>"
    by (intro reach_init) (simp add: cc_init_def)
  from cc_run_get [OF this, of 0 0] obtain s where s: "reachable_from (cc_init 2) cc_step s" "cs_out s = [0]" "cs_swaps s = 1"
    by (auto simp: CCObjectPool_def)
  then show ?thesis using object_pool_no_double_allocation [OF s(1)] by (intro exI [of _ s]) simp
qed

text \<open>
  The pool of one thread behaves like a stack of free objects: constructing it frees every object of the
  arena, getting takes the top, and an object that was given back is the next one handed out.
\<close>

lemma op_push_chain:
  "chain (op_next p) (op_free_head p) as \<Longrightarrow> a \<notin> set as \<Longrightarrow> chain (op_next (op_push a p)) (op_free_head (op_push a p)) (a # as)"
  by (simp add: op_push_def chain_upd)

lemma ObjectPool_chain: "chain (op_next (ObjectPool n)) (op_free_head (ObjectPool n)) (rev [0..<unat n])"
proof -
  have "chain (op_next (fold op_push [0..<m] p)) (op_free_head (fold op_push [0..<m] p)) (rev [0..<m])"
    if "op_free_head p = None" for m p
    using that by (induction m) (simp_all add: op_push_def chain_upd)
  then show ?thesis by (simp add: ObjectPool_def)
qed

lemma OP_GetObject_chain:
  assumes "chain (op_next p) (op_free_head p) as"
  shows "case as of [] \<Rightarrow> OP_GetObject p = (None, p)
    | a # bs \<Rightarrow> \<exists>q. OP_GetObject p = (Some a, q) \<and> chain (op_next q) (op_free_head q) bs"
  using assms by (cases as) (auto simp: OP_GetObject_def)

lemma OP_Release_Get:
  "fst (OP_GetObject (OP_ReleaseObject (Some a) p)) = Some a"
  by (simp add: OP_GetObject_def OP_ReleaseObject_def op_push_def)

end
