(* ===== verification/RW_Lock.thy ===== *)
theory RW_Lock
  imports Cyber_Prelude
begin

text \<open>
  \<open>base/atomic_rw_lock.h\<close>, \<open>base/reentrant_rw_lock.h\<close> and \<open>base/rw_lock_guard.h\<close>: the spinning
  reader-writer locks that protect the containers and managers.

  Each atomic access is one step of a thread; a state gives the lock and where every thread stands. Any
  number of threads run in any interleaving and \<open>compare_exchange_weak\<close> may fail spuriously. Yielding
  after some retries has no effect on the state. The guards make lock and unlock calls nest, so a thread
  unlocks what it locked last. The 32-bit counters are unbounded here; they count threads.
\<close>

section \<open>The atomic lock\<close>

record atomic_rw_lock =
  rw_write_lock_wait_num :: int
  rw_lock_num :: int
  rw_write_first :: bool

abbreviation RW_LOCK_FREE :: int where "RW_LOCK_FREE \<equiv> 0"
abbreviation WRITE_EXCLUSIVE :: int where "WRITE_EXCLUSIVE \<equiv> - 1"

definition AtomicRWLock :: "bool \<Rightarrow> atomic_rw_lock" where
  "AtomicRWLock write_first = \<lparr>rw_write_lock_wait_num = 0, rw_lock_num = 0, rw_write_first = write_first\<rparr>"

datatype rw_pc = RW_Idle
  | R_Load | R_Check int | R_Cas int | R_Held
  | W_Add | W_Cas | W_Sub | W_Held

fun ReadLock_step :: "bool \<Rightarrow> rw_pc \<Rightarrow> atomic_rw_lock \<Rightarrow> rw_pc \<times> atomic_rw_lock" where
  "ReadLock_step spurious R_Load l = (R_Check (rw_lock_num l), l)"
| "ReadLock_step spurious (R_Check lock_num) l =
     (if lock_num < RW_LOCK_FREE \<or> (rw_write_first l \<and> rw_write_lock_wait_num l > 0) then (R_Load, l)
      else (R_Cas lock_num, l))"
| "ReadLock_step spurious (R_Cas lock_num) l =
     (if rw_lock_num l = lock_num \<and> \<not> spurious then (R_Held, l\<lparr>rw_lock_num := lock_num + 1\<rparr>)
      else (R_Check (rw_lock_num l), l))"
| "ReadLock_step spurious pc l = (pc, l)"

fun WriteLock_step :: "bool \<Rightarrow> rw_pc \<Rightarrow> atomic_rw_lock \<Rightarrow> rw_pc \<times> atomic_rw_lock" where
  "WriteLock_step spurious W_Add l = (W_Cas, l\<lparr>rw_write_lock_wait_num := rw_write_lock_wait_num l + 1\<rparr>)"
| "WriteLock_step spurious W_Cas l =
     (if rw_lock_num l = RW_LOCK_FREE \<and> \<not> spurious then (W_Sub, l\<lparr>rw_lock_num := WRITE_EXCLUSIVE\<rparr>)
      else (W_Cas, l))"
| "WriteLock_step spurious W_Sub l = (W_Held, l\<lparr>rw_write_lock_wait_num := rw_write_lock_wait_num l - 1\<rparr>)"
| "WriteLock_step spurious pc l = (pc, l)"

definition ReadUnlock :: "atomic_rw_lock \<Rightarrow> atomic_rw_lock" where
  "ReadUnlock l = l\<lparr>rw_lock_num := rw_lock_num l - 1\<rparr>"

definition WriteUnlock :: "atomic_rw_lock \<Rightarrow> atomic_rw_lock" where
  "WriteUnlock l = l\<lparr>rw_lock_num := rw_lock_num l + 1\<rparr>"

record rw_system =
  rs_lock :: atomic_rw_lock
  rs_pc :: "nat \<Rightarrow> rw_pc"

inductive rw_step :: "rw_system \<Rightarrow> rw_system \<Rightarrow> bool" where
  rw_call: "rs_pc s i = RW_Idle \<Longrightarrow> pc = R_Load \<or> pc = W_Add \<Longrightarrow> rw_step s (s\<lparr>rs_pc := (rs_pc s)(i := pc)\<rparr>)"
| rw_read: "ReadLock_step spurious (rs_pc s i) (rs_lock s) = (pc, l)
    \<Longrightarrow> rw_step s (s\<lparr>rs_lock := l, rs_pc := (rs_pc s)(i := pc)\<rparr>)"
| rw_write: "WriteLock_step spurious (rs_pc s i) (rs_lock s) = (pc, l)
    \<Longrightarrow> rw_step s (s\<lparr>rs_lock := l, rs_pc := (rs_pc s)(i := pc)\<rparr>)"
| rw_read_unlock: "rs_pc s i = R_Held \<Longrightarrow> rw_step s (s\<lparr>rs_lock := ReadUnlock (rs_lock s), rs_pc := (rs_pc s)(i := RW_Idle)\<rparr>)"
| rw_write_unlock: "rs_pc s i = W_Held \<Longrightarrow> rw_step s (s\<lparr>rs_lock := WriteUnlock (rs_lock s), rs_pc := (rs_pc s)(i := RW_Idle)\<rparr>)"

definition rw_init :: "bool \<Rightarrow> rw_system \<Rightarrow> bool" where
  "rw_init write_first s \<longleftrightarrow> rs_lock s = AtomicRWLock write_first \<and> rs_pc s = (\<lambda>_. RW_Idle)"

definition readers :: "(nat \<Rightarrow> rw_pc) \<Rightarrow> nat set" where
  "readers pcs = {i. pcs i = R_Held}"

definition writers :: "(nat \<Rightarrow> rw_pc) \<Rightarrow> nat set" where
  "writers pcs = {i. pcs i = W_Sub \<or> pcs i = W_Held}"

definition waiters :: "(nat \<Rightarrow> rw_pc) \<Rightarrow> nat set" where
  "waiters pcs = {i. pcs i = W_Cas \<or> pcs i = W_Sub}"

text \<open>The lock word counts the readers, or is \<open>-1\<close> and there is exactly one writer and no reader.\<close>

definition exclusive :: "int \<Rightarrow> nat set \<Rightarrow> nat set \<Rightarrow> bool" where
  "exclusive n R W \<longleftrightarrow> (W = {} \<and> n = int (card R)) \<or> ((\<exists>i. W = {i}) \<and> R = {} \<and> n = - 1)"

definition rw_inv :: "rw_system \<Rightarrow> bool" where
  "rw_inv s \<longleftrightarrow> finite {i. rs_pc s i \<noteq> RW_Idle}
     \<and> exclusive (rw_lock_num (rs_lock s)) (readers (rs_pc s)) (writers (rs_pc s))
     \<and> rw_write_lock_wait_num (rs_lock s) = int (card (waiters (rs_pc s)))
     \<and> (\<forall>i n. rs_pc s i = R_Cas n \<longrightarrow> 0 \<le> n)"

lemma sets_upd:
  "readers (pcs(i := pc)) = (if pc = R_Held then insert i (readers pcs) else readers pcs - {i})"
  "writers (pcs(i := pc)) = (if pc = W_Sub \<or> pc = W_Held then insert i (writers pcs) else writers pcs - {i})"
  "waiters (pcs(i := pc)) = (if pc = W_Cas \<or> pc = W_Sub then insert i (waiters pcs) else waiters pcs - {i})"
  by (auto simp: readers_def writers_def waiters_def)

lemma sets_mem:
  "i \<in> readers pcs \<longleftrightarrow> pcs i = R_Held" "i \<in> writers pcs \<longleftrightarrow> pcs i = W_Sub \<or> pcs i = W_Held"
  "i \<in> waiters pcs \<longleftrightarrow> pcs i = W_Cas \<or> pcs i = W_Sub"
  by (auto simp: readers_def writers_def waiters_def)

lemma sets_finite:
  assumes "finite {i. pcs i \<noteq> RW_Idle}"
  shows "finite (readers pcs)" "finite (waiters pcs)" "finite {j. (pcs(i := pc)) j \<noteq> RW_Idle}"
proof -
  show "finite (readers pcs)" "finite (waiters pcs)"
    using assms by (auto simp: readers_def waiters_def elim!: finite_subset [rotated])
  have "{j. (pcs(i := pc)) j \<noteq> RW_Idle} \<subseteq> insert i {i. pcs i \<noteq> RW_Idle}" by auto
  then show "finite {j. (pcs(i := pc)) j \<noteq> RW_Idle}" using assms finite_subset by blast
qed

lemma exclusive_writer: "exclusive n R W \<Longrightarrow> i \<in> W \<Longrightarrow> W = {i} \<and> R = {} \<and> n = - 1"
  by (auto simp: exclusive_def)

lemma exclusive_reader: "exclusive n R W \<Longrightarrow> i \<in> R \<Longrightarrow> W = {} \<and> n = int (card R)"
  by (auto simp: exclusive_def)

lemma exclusive_nonneg: "exclusive n R W \<Longrightarrow> 0 \<le> n \<Longrightarrow> W = {} \<and> n = int (card R)"
  by (auto simp: exclusive_def)

lemma int_card_remove: "finite A \<Longrightarrow> i \<in> A \<Longrightarrow> int (card (A - {i})) = int (card A) - 1"
  using card_Suc_Diff1 [of A i] by linarith

lemma rw_inv_read:
  assumes "rw_inv s" and "ReadLock_step spurious (rs_pc s i) (rs_lock s) = (pc, l)"
  shows "rw_inv (s\<lparr>rs_lock := l, rs_pc := (rs_pc s)(i := pc)\<rparr>)"
proof -
  have ex: "exclusive (rw_lock_num (rs_lock s)) (readers (rs_pc s)) (writers (rs_pc s))"
    and fin: "finite {i. rs_pc s i \<noteq> RW_Idle}" and pos: "rs_pc s i = R_Cas n \<Longrightarrow> 0 \<le> n" for n
    using assms(1) by (auto simp: rw_inv_def)
  show ?thesis
  proof (cases "rs_pc s i")
    case (R_Cas n)
    show ?thesis
    proof (cases "rw_lock_num (rs_lock s) = n \<and> \<not> spurious")
      case True
      then have "writers (rs_pc s) = {}" "n = int (card (readers (rs_pc s)))"
        using exclusive_nonneg [OF ex] pos [OF R_Cas] by auto
      then show ?thesis
        using True R_Cas assms sets_finite [OF fin]
        by (auto simp: rw_inv_def sets_upd sets_mem exclusive_def)
    next
      case False
      then show ?thesis using R_Cas assms sets_finite [OF fin] by (auto simp: rw_inv_def sets_upd sets_mem)
    qed
  qed (use assms sets_finite [OF fin] in \<open>auto simp: rw_inv_def sets_upd sets_mem fun_upd_idem split: if_splits\<close>)
qed

lemma rw_inv_write:
  assumes "rw_inv s" and "WriteLock_step spurious (rs_pc s i) (rs_lock s) = (pc, l)"
  shows "rw_inv (s\<lparr>rs_lock := l, rs_pc := (rs_pc s)(i := pc)\<rparr>)"
proof -
  have ex: "exclusive (rw_lock_num (rs_lock s)) (readers (rs_pc s)) (writers (rs_pc s))"
    and fin: "finite {i. rs_pc s i \<noteq> RW_Idle}"
    using assms(1) by (auto simp: rw_inv_def)
  show ?thesis
  proof (cases "rs_pc s i")
    case W_Cas
    show ?thesis
    proof (cases "rw_lock_num (rs_lock s) = 0 \<and> \<not> spurious")
      case True
      then have "writers (rs_pc s) = {}" "readers (rs_pc s) = {}"
        using exclusive_nonneg [OF ex] sets_finite(1) [OF fin] by auto
      then show ?thesis
        using True W_Cas assms sets_finite [OF fin]
        by (auto simp: rw_inv_def sets_upd sets_mem exclusive_def insert_absorb)
    next
      case False
      then show ?thesis using W_Cas assms by (auto simp: fun_upd_idem)
    qed
  next
    case W_Sub
    then show ?thesis
      using assms sets_finite [OF fin] int_card_remove [of "waiters (rs_pc s)" i]
      by (auto simp: rw_inv_def sets_upd sets_mem insert_absorb simp del: card_Diff_insert)
  qed (use assms sets_finite [OF fin] in \<open>auto simp: rw_inv_def sets_upd sets_mem fun_upd_idem split: if_splits\<close>)
qed

lemma rw_inv_unlock:
  assumes "rw_inv s"
  shows "rs_pc s i = R_Held \<Longrightarrow> rw_inv (s\<lparr>rs_lock := ReadUnlock (rs_lock s), rs_pc := (rs_pc s)(i := RW_Idle)\<rparr>)"
    "rs_pc s i = W_Held \<Longrightarrow> rw_inv (s\<lparr>rs_lock := WriteUnlock (rs_lock s), rs_pc := (rs_pc s)(i := RW_Idle)\<rparr>)"
proof -
  have ex: "exclusive (rw_lock_num (rs_lock s)) (readers (rs_pc s)) (writers (rs_pc s))"
    and fin: "finite {i. rs_pc s i \<noteq> RW_Idle}"
    using assms(1) by (auto simp: rw_inv_def)
  show "rw_inv (s\<lparr>rs_lock := ReadUnlock (rs_lock s), rs_pc := (rs_pc s)(i := RW_Idle)\<rparr>)" if "rs_pc s i = R_Held"
  proof -
    have "writers (rs_pc s) = {} \<and> rw_lock_num (rs_lock s) = int (card (readers (rs_pc s)))"
      using exclusive_reader [OF ex, of i] that by (simp add: sets_mem)
    then show ?thesis
      using that assms sets_finite [OF fin] int_card_remove [of "readers (rs_pc s)" i]
      by (auto simp: rw_inv_def sets_upd sets_mem exclusive_def ReadUnlock_def simp del: card_Diff_insert)
  qed
  show "rw_inv (s\<lparr>rs_lock := WriteUnlock (rs_lock s), rs_pc := (rs_pc s)(i := RW_Idle)\<rparr>)" if "rs_pc s i = W_Held"
  proof -
    have "writers (rs_pc s) = {i} \<and> readers (rs_pc s) = {} \<and> rw_lock_num (rs_lock s) = - 1"
      using exclusive_writer [OF ex, of i] that by (simp add: sets_mem)
    then show ?thesis
      using that assms sets_finite [OF fin] by (auto simp: rw_inv_def sets_upd sets_mem exclusive_def WriteUnlock_def)
  qed
qed

interpretation rw_sys: invariant_system "rw_init write_first" rw_step rw_inv for write_first
proof
  show "rw_inv s" if "rw_init write_first s" for s
    using that by (simp add: rw_init_def rw_inv_def AtomicRWLock_def exclusive_def readers_def writers_def waiters_def)
  show "rw_inv t" if inv: "rw_inv s" and step: "rw_step s t" for s t
    using step
  proof cases
    case (rw_call i pc)
    moreover have fin: "finite {i. rs_pc s i \<noteq> RW_Idle}" using inv by (simp add: rw_inv_def)
    ultimately show ?thesis using inv sets_finite [OF fin] by (auto simp: rw_inv_def sets_upd sets_mem)
  qed (use inv rw_inv_read rw_inv_write rw_inv_unlock in auto)
qed

text \<open>
  C11: the reader-writer lock excludes. In every reachable state, with any number of threads and either
  preference, a thread that holds the lock for writing is the only holder. And the lock is not lost: when
  nobody holds it, the next step of any waiting writer takes it, and if no writer waits, a reader that has
  just started takes it in its next three steps.
\<close>

theorem rw_lock_exclusion:
  assumes "reachable_from (rw_init write_first) rw_step s"
  shows "(\<forall>i j. rs_pc s i = W_Held \<and> (rs_pc s j = W_Held \<or> rs_pc s j = R_Held) \<longrightarrow> i = j)
    \<and> ((\<forall>i. rs_pc s i \<notin> {R_Held, W_Sub, W_Held}) \<longrightarrow>
         WriteLock_step False W_Cas (rs_lock s) = (W_Sub, (rs_lock s)\<lparr>rw_lock_num := - 1\<rparr>)
       \<and> ((\<forall>i. rs_pc s i \<noteq> W_Cas) \<longrightarrow> (\<forall>l. rs_lock s = l \<longrightarrow>
            ReadLock_step False R_Load l = (R_Check 0, l) \<and> ReadLock_step False (R_Check 0) l = (R_Cas 0, l)
            \<and> ReadLock_step False (R_Cas 0) l = (R_Held, l\<lparr>rw_lock_num := 1\<rparr>))))"
proof -
  have inv: "rw_inv s" by (rule rw_sys.reachable_inv [OF assms])
  then have ex: "exclusive (rw_lock_num (rs_lock s)) (readers (rs_pc s)) (writers (rs_pc s))" by (simp add: rw_inv_def)
  have "i = j" if "rs_pc s i = W_Held" "rs_pc s j = W_Held \<or> rs_pc s j = R_Held" for i j
    using exclusive_writer [OF ex, of i] that by (metis empty_iff sets_mem(1,2) singletonD)
  moreover have "rw_lock_num (rs_lock s) = 0" if "\<forall>i. rs_pc s i \<notin> {R_Held, W_Sub, W_Held}"
    using ex that by (auto simp: exclusive_def readers_def writers_def)
  moreover have "rw_write_lock_wait_num (rs_lock s) = 0" if "\<forall>i. rs_pc s i \<notin> {R_Held, W_Sub, W_Held}" "\<forall>i. rs_pc s i \<noteq> W_Cas"
    using inv that by (simp add: rw_inv_def waiters_def)
  ultimately show ?thesis by simp
qed

definition held_for_writing :: rw_system where
  "held_for_writing = \<lparr>rs_lock = \<lparr>rw_write_lock_wait_num = 0, rw_lock_num = - 1, rw_write_first = True\<rparr>,
     rs_pc = (\<lambda>_. RW_Idle)(3 := W_Held)\<rparr>"

lemma held_for_writing_reachable: "reachable_from (rw_init True) rw_step held_for_writing"
proof -
  let ?s = "\<lambda>n w pc. \<lparr>rs_lock = \<lparr>rw_write_lock_wait_num = w, rw_lock_num = n, rw_write_first = True\<rparr>, rs_pc = (\<lambda>_. RW_Idle)(3 := pc)\<rparr>"
  have "rw_init True (?s 0 0 RW_Idle)" by (simp add: rw_init_def AtomicRWLock_def fun_upd_idem)
  then have "reachable_from (rw_init True) rw_step (?s 0 0 RW_Idle)" by (rule reach_init)
  moreover have "rw_step (?s 0 0 RW_Idle) (?s 0 0 W_Add)" using rw_call [of "?s 0 0 RW_Idle" 3 W_Add] by simp
  moreover have "rw_step (?s 0 0 W_Add) (?s 0 1 W_Cas)" using rw_write [of False "?s 0 0 W_Add" 3] by simp
  moreover have "rw_step (?s 0 1 W_Cas) (?s (- 1) 1 W_Sub)" using rw_write [of False "?s 0 1 W_Cas" 3] by simp
  moreover have "rw_step (?s (- 1) 1 W_Sub) (?s (- 1) 0 W_Held)" using rw_write [of False "?s (- 1) 1 W_Sub" 3] by simp
  ultimately show ?thesis unfolding held_for_writing_def by (blast intro: reach_step)
qed

theorem rw_lock_exclusion_witness: "rs_pc held_for_writing 3 = W_Held \<and> rs_pc held_for_writing 4 \<noteq> W_Held"
proof -
  have "\<forall>i j. rs_pc held_for_writing i = W_Held \<and> (rs_pc held_for_writing j = W_Held \<or> rs_pc held_for_writing j = R_Held) \<longrightarrow> i = j"
    using rw_lock_exclusion [OF held_for_writing_reachable] by blast
  moreover have "rs_pc held_for_writing 3 = W_Held" by (simp add: held_for_writing_def)
  ultimately show ?thesis by (metis numeral_eq_iff semiring_norm(88))
qed

section \<open>The reentrant lock\<close>

record reentrant_rw_lock =
  re_write_thread_id :: "nat option"
  re_write_lock_wait_num :: int
  re_lock_num :: int
  re_write_first :: bool

definition ReentrantRWLock :: "bool \<Rightarrow> reentrant_rw_lock" where
  "ReentrantRWLock write_first =
     \<lparr>re_write_thread_id = None, re_write_lock_wait_num = 0, re_lock_num = 0, re_write_first = write_first\<rparr>"

datatype re_pc = RE_Idle
  | RR_Owner | RR_Load | RR_Check int | RR_Cas int
  | RW_Owner | RW_Add | RW_Cas | RW_Set | RW_Sub
  | RW_Clear

text \<open>\<open>RE_Idle\<close> as the result of a lock operation means that it has returned.\<close>

fun Re_ReadLock_step :: "nat \<Rightarrow> bool \<Rightarrow> re_pc \<Rightarrow> reentrant_rw_lock \<Rightarrow> re_pc \<times> reentrant_rw_lock" where
  "Re_ReadLock_step me spurious RR_Owner l = (if re_write_thread_id l = Some me then RE_Idle else RR_Load, l)"
| "Re_ReadLock_step me spurious RR_Load l = (RR_Check (re_lock_num l), l)"
| "Re_ReadLock_step me spurious (RR_Check lock_num) l =
     (if lock_num < RW_LOCK_FREE \<or> (re_write_first l \<and> re_write_lock_wait_num l > 0) then (RR_Load, l)
      else (RR_Cas lock_num, l))"
| "Re_ReadLock_step me spurious (RR_Cas lock_num) l =
     (if re_lock_num l = lock_num \<and> \<not> spurious then (RE_Idle, l\<lparr>re_lock_num := lock_num + 1\<rparr>)
      else (RR_Check (re_lock_num l), l))"
| "Re_ReadLock_step me spurious pc l = (pc, l)"

fun Re_WriteLock_step :: "nat \<Rightarrow> bool \<Rightarrow> re_pc \<Rightarrow> reentrant_rw_lock \<Rightarrow> re_pc \<times> reentrant_rw_lock" where
  "Re_WriteLock_step me spurious RW_Owner l =
     (if re_write_thread_id l = Some me then (RE_Idle, l\<lparr>re_lock_num := re_lock_num l - 1\<rparr>) else (RW_Add, l))"
| "Re_WriteLock_step me spurious RW_Add l = (RW_Cas, l\<lparr>re_write_lock_wait_num := re_write_lock_wait_num l + 1\<rparr>)"
| "Re_WriteLock_step me spurious RW_Cas l =
     (if re_lock_num l = RW_LOCK_FREE \<and> \<not> spurious then (RW_Set, l\<lparr>re_lock_num := WRITE_EXCLUSIVE\<rparr>) else (RW_Cas, l))"
| "Re_WriteLock_step me spurious RW_Set l = (RW_Sub, l\<lparr>re_write_thread_id := Some me\<rparr>)"
| "Re_WriteLock_step me spurious RW_Sub l = (RE_Idle, l\<lparr>re_write_lock_wait_num := re_write_lock_wait_num l - 1\<rparr>)"
| "Re_WriteLock_step me spurious pc l = (pc, l)"

definition Re_ReadUnlock :: "nat \<Rightarrow> reentrant_rw_lock \<Rightarrow> reentrant_rw_lock" where
  "Re_ReadUnlock me l = (if re_write_thread_id l = Some me then l else l\<lparr>re_lock_num := re_lock_num l - 1\<rparr>)"

definition Re_WriteUnlock :: "reentrant_rw_lock \<Rightarrow> re_pc \<times> reentrant_rw_lock" where
  "Re_WriteUnlock l =
     (if re_lock_num l = WRITE_EXCLUSIVE then RW_Clear else RE_Idle, l\<lparr>re_lock_num := re_lock_num l + 1\<rparr>)"

definition reading :: "re_pc \<Rightarrow> bool" where
  "reading pc \<longleftrightarrow> (case pc of RR_Owner \<Rightarrow> True | RR_Load \<Rightarrow> True | RR_Check _ \<Rightarrow> True | RR_Cas _ \<Rightarrow> True | _ \<Rightarrow> False)"

definition writing :: "re_pc \<Rightarrow> bool" where
  "writing pc \<longleftrightarrow> (case pc of RW_Owner \<Rightarrow> True | RW_Add \<Rightarrow> True | RW_Cas \<Rightarrow> True | RW_Set \<Rightarrow> True | RW_Sub \<Rightarrow> True | _ \<Rightarrow> False)"

datatype guard = ReadLockGuard | WriteLockGuard

record re_system =
  es_lock :: reentrant_rw_lock
  es_pc :: "nat \<Rightarrow> re_pc"
  es_held :: "nat \<Rightarrow> guard list"

abbreviation es_upd :: "re_system \<Rightarrow> nat \<Rightarrow> reentrant_rw_lock \<Rightarrow> re_pc \<Rightarrow> guard list \<Rightarrow> re_system" where
  "es_upd s i l pc gs \<equiv> s\<lparr>es_lock := l, es_pc := (es_pc s)(i := pc), es_held := (es_held s)(i := gs)\<rparr>"

inductive re_step :: "re_system \<Rightarrow> re_system \<Rightarrow> bool" where
  re_call: "es_pc s i = RE_Idle \<Longrightarrow> pc = RR_Owner \<or> pc = RW_Owner \<Longrightarrow> re_step s (es_upd s i (es_lock s) pc (es_held s i))"
| re_read: "reading (es_pc s i)
    \<Longrightarrow> Re_ReadLock_step i spurious (es_pc s i) (es_lock s) = (pc, l)
    \<Longrightarrow> re_step s (es_upd s i l pc (if pc = RE_Idle then ReadLockGuard # es_held s i else es_held s i))"
| re_write: "writing (es_pc s i)
    \<Longrightarrow> Re_WriteLock_step i spurious (es_pc s i) (es_lock s) = (pc, l)
    \<Longrightarrow> re_step s (es_upd s i l pc (if pc = RE_Idle then WriteLockGuard # es_held s i else es_held s i))"
| re_read_unlock: "es_pc s i = RE_Idle \<Longrightarrow> es_held s i = ReadLockGuard # gs
    \<Longrightarrow> re_step s (es_upd s i (Re_ReadUnlock i (es_lock s)) RE_Idle gs)"
| re_write_unlock: "es_pc s i = RE_Idle \<Longrightarrow> es_held s i = WriteLockGuard # gs \<Longrightarrow> Re_WriteUnlock (es_lock s) = (pc, l)
    \<Longrightarrow> re_step s (es_upd s i l pc gs)"
| re_clear: "es_pc s i = RW_Clear
    \<Longrightarrow> re_step s (es_upd s i ((es_lock s)\<lparr>re_write_thread_id := None\<rparr>) RE_Idle (es_held s i))"

definition re_init :: "bool \<Rightarrow> re_system \<Rightarrow> bool" where
  "re_init write_first s \<longleftrightarrow> es_lock s = ReentrantRWLock write_first \<and> es_pc s = (\<lambda>_. RE_Idle) \<and> es_held s = (\<lambda>_. [])"

text \<open>
  The owner of the write lock is forgotten and the owner itself waits for the lock; nobody else holds
  anything. Nothing can change this any more.
\<close>

definition owner_lost :: "nat \<Rightarrow> re_system \<Rightarrow> bool" where
  "owner_lost i s \<longleftrightarrow> re_lock_num (es_lock s) = - 1 \<and> re_write_thread_id (es_lock s) = None
     \<and> es_pc s i = RW_Cas \<and> es_held s i = [WriteLockGuard]
     \<and> (\<forall>j. j \<noteq> i \<longrightarrow> es_held s j = [] \<and> es_pc s j \<notin> {RW_Set, RW_Sub, RW_Clear} \<and> (\<forall>n. es_pc s j = RR_Cas n \<longrightarrow> 0 \<le> n))"

lemma owner_lost_step:
  assumes "owner_lost i s" and "re_step s t"
  shows "owner_lost i t"
  using assms(2)
proof cases
  case (re_read j spurious pc l)
  have "j \<noteq> i" using re_read(2) assms(1) by (auto simp: owner_lost_def reading_def)
  moreover have "l = es_lock s \<and> pc \<notin> {RE_Idle, RW_Set, RW_Sub, RW_Clear} \<and> (\<forall>n. pc = RR_Cas n \<longrightarrow> 0 \<le> n)"
  proof (cases "es_pc s j")
    case (RR_Cas n)
    moreover have "0 \<le> n" using assms(1) \<open>j \<noteq> i\<close> RR_Cas by (auto simp: owner_lost_def)
    moreover have "re_lock_num (es_lock s) = - 1" using assms(1) by (simp add: owner_lost_def)
    ultimately show ?thesis using re_read(3) by auto
  qed (use re_read(2,3) assms(1) in \<open>auto simp: owner_lost_def reading_def split: if_splits\<close>)
  ultimately show ?thesis using assms(1) by (auto simp: owner_lost_def re_read(1))
next
  case (re_write j spurious pc l)
  then show ?thesis
    using assms(1) by (cases "j = i"; cases "es_pc s j") (auto simp: owner_lost_def writing_def split: if_splits)
qed (use assms(1) in \<open>auto simp: owner_lost_def\<close>)

text \<open>Moves of a thread as a function, to run a given interleaving.\<close>

datatype re_act = Call re_pc | Reading | Writing | Unlock_Write | Clear

fun re_do :: "nat \<times> re_act \<Rightarrow> re_system \<Rightarrow> re_system" where
  "re_do (i, Call pc) s =
     (if es_pc s i = RE_Idle \<and> (pc = RR_Owner \<or> pc = RW_Owner) then es_upd s i (es_lock s) pc (es_held s i) else s)"
| "re_do (i, Reading) s =
     (let (pc, l) = Re_ReadLock_step i False (es_pc s i) (es_lock s)
      in if reading (es_pc s i)
         then es_upd s i l pc (if pc = RE_Idle then ReadLockGuard # es_held s i else es_held s i) else s)"
| "re_do (i, Writing) s =
     (let (pc, l) = Re_WriteLock_step i False (es_pc s i) (es_lock s)
      in if writing (es_pc s i)
         then es_upd s i l pc (if pc = RE_Idle then WriteLockGuard # es_held s i else es_held s i) else s)"
| "re_do (i, Unlock_Write) s =
     (case es_held s i of
        WriteLockGuard # gs \<Rightarrow>
          let (pc, l) = Re_WriteUnlock (es_lock s) in if es_pc s i = RE_Idle then es_upd s i l pc gs else s
      | _ \<Rightarrow> s)"
| "re_do (i, Clear) s =
     (if es_pc s i = RW_Clear then es_upd s i ((es_lock s)\<lparr>re_write_thread_id := None\<rparr>) RE_Idle (es_held s i) else s)"

lemma re_do_step: "re_do m s = s \<or> re_step s (re_do m s)"
proof (cases "(m, s)" rule: re_do.cases)
  case (1 i pc s)
  then show ?thesis using re_call [of s i pc] by simp
next
  case (2 i s)
  obtain pc l where "Re_ReadLock_step i False (es_pc s i) (es_lock s) = (pc, l)" by fastforce
  with re_read [OF _ this] 2 show ?thesis by simp
next
  case (3 i s)
  obtain pc l where "Re_WriteLock_step i False (es_pc s i) (es_lock s) = (pc, l)" by fastforce
  with re_write [OF _ this] 3 show ?thesis by simp
next
  case (4 i s)
  obtain pc l where "Re_WriteUnlock (es_lock s) = (pc, l)" by fastforce
  with re_write_unlock [OF _ _ this] 4 show ?thesis by (simp split: list.split guard.split)
next
  case (5 i s)
  then show ?thesis using re_clear [of s i] by simp
qed

lemma re_do_other:
  "\<forall>m \<in> set ms. fst m \<noteq> j \<Longrightarrow> es_pc (fold re_do ms s) j = es_pc s j \<and> es_held (fold re_do ms s) j = es_held s j"
proof (induction ms arbitrary: s)
  case (Cons m ms)
  have "es_pc (re_do m s) j = es_pc s j \<and> es_held (re_do m s) j = es_held s j"
    using Cons.prems by (cases "(m, s)" rule: re_do.cases) (auto split: prod.split list.split guard.split)
  then show ?case using Cons by simp
qed simp

lemma re_schedule_reachable:
  "reachable_from (re_init write_first) re_step s \<Longrightarrow> reachable_from (re_init write_first) re_step (fold re_do ms s)"
proof (induction ms arbitrary: s)
  case (Cons m ms)
  have "reachable_from (re_init write_first) re_step (re_do m s)" using re_do_step [of m s] Cons.prems by (metis reach_step)
  then show ?case using Cons.IH by simp
qed simp

text \<open>
  The reentrant lock can deadlock a writer against itself. \<open>WriteUnlock\<close> frees the lock before it
  clears the owner, so its late store can erase the owner that the next writer has just recorded. That
  writer's next nested \<open>WriteLock\<close> is then treated as a foreign one and, in a state reached by two
  threads, waits forever for a lock it holds itself, whatever any thread does.
\<close>

theorem reentrant_writer_deadlock:
  "\<exists>s. reachable_from (re_init True) re_step s \<and> es_held s 1 = [WriteLockGuard]
     \<and> (\<forall>t. re_step\<^sup>*\<^sup>* s t \<longrightarrow> es_pc t 1 = RW_Cas \<and> es_held t 1 = [WriteLockGuard])"
proof -
  define s0 where "s0 = \<lparr>es_lock = ReentrantRWLock True, es_pc = (\<lambda>_. RE_Idle), es_held = (\<lambda>_. [])\<rparr>"
  define acquire where "acquire = (\<lambda>i :: nat. (i, Call RW_Owner) # replicate 5 (i, Writing))"
  define ms where "ms = acquire 0 @ [(0, Unlock_Write)] @ acquire 1 @ [(0, Clear)] @ [(1, Call RW_Owner), (1, Writing), (1, Writing)]"
  let ?s = "fold re_do ms s0"
  have "reachable_from (re_init True) re_step s0" by (intro reach_init) (simp add: s0_def re_init_def)
  then have reach: "reachable_from (re_init True) re_step ?s" by (rule re_schedule_reachable)
  have "es_pc ?s j = RE_Idle \<and> es_held ?s j = []" if "j \<noteq> 0" "j \<noteq> 1" for j
  proof -
    have "\<forall>m \<in> set ms. fst m \<noteq> j" using that by (auto simp: ms_def acquire_def)
    from re_do_other [OF this, of s0] show ?thesis by (simp add: s0_def)
  qed
  moreover have "re_lock_num (es_lock ?s) = - 1 \<and> re_write_thread_id (es_lock ?s) = None
      \<and> es_pc ?s 0 = RE_Idle \<and> es_held ?s 0 = [] \<and> es_pc ?s 1 = RW_Cas \<and> es_held ?s 1 = [WriteLockGuard]"
    unfolding ms_def acquire_def s0_def by code_simp
  ultimately have lost: "owner_lost 1 ?s" unfolding owner_lost_def by (metis empty_iff insert_iff re_pc.distinct)
  have "owner_lost 1 t" if "re_step\<^sup>*\<^sup>* ?s t" for t
    using that by induction (use lost owner_lost_step in blast)+
  then show ?thesis using reach lost unfolding owner_lost_def by blast
qed

theorem reentrant_writer_deadlock_witness:
  "\<exists>s. reachable_from (re_init True) re_step s \<and> es_held s 1 = [WriteLockGuard] \<and> es_pc s 1 = RW_Cas"
  using reentrant_writer_deadlock by blast

end
