(* ===== verification/Shm_Block.thy ===== *)
theory Shm_Block
  imports RW_Lock
begin

text \<open>
  The parts of a shared-memory segment: \<open>transport/shm/shm_conf\<close> computes its layout,
  \<open>transport/shm/state.h\<close> is its head and \<open>transport/shm/block\<close> the header of one message slot with the
  lock that writers and readers of all processes take on it.

  \<open>TryLockForRead\<close> and \<open>TryLockForWrite\<close> are step machines, one step per atomic access, run by any number
  of processes. What is written under the lock is a value that a writer may change any number of times
  before it releases the block; a reader remembers what it saw when it got the lock.
\<close>

section \<open>Configuration\<close>

record shm_conf =
  ceiling_msg_size :: u64
  block_buf_size :: u64
  block_num :: u32
  managed_shm_size :: u64

definition EXTRA_SIZE :: u64 where "EXTRA_SIZE = 1024 * 4"
definition STATE_SIZE :: u64 where "STATE_SIZE = 1024"
definition BLOCK_SIZE :: u64 where "BLOCK_SIZE = 1024"
definition MESSAGE_INFO_SIZE :: u64 where "MESSAGE_INFO_SIZE = 1024"

definition MESSAGE_SIZE_16K :: u64 where "MESSAGE_SIZE_16K = 1024 * 16"
definition MESSAGE_SIZE_128K :: u64 where "MESSAGE_SIZE_128K = 1024 * 128"
definition MESSAGE_SIZE_1M :: u64 where "MESSAGE_SIZE_1M = 1024 * 1024"
definition MESSAGE_SIZE_8M :: u64 where "MESSAGE_SIZE_8M = 1024 * 1024 * 8"
definition MESSAGE_SIZE_16M :: u64 where "MESSAGE_SIZE_16M = 1024 * 1024 * 16"
definition MESSAGE_SIZE_MORE :: u64 where "MESSAGE_SIZE_MORE = 1024 * 1024 * 32"

lemmas shm_sizes = EXTRA_SIZE_def STATE_SIZE_def BLOCK_SIZE_def MESSAGE_INFO_SIZE_def MESSAGE_SIZE_16K_def
  MESSAGE_SIZE_128K_def MESSAGE_SIZE_1M_def MESSAGE_SIZE_8M_def MESSAGE_SIZE_16M_def MESSAGE_SIZE_MORE_def

definition GetCeilingMessageSize :: "u64 \<Rightarrow> u64" where
  "GetCeilingMessageSize real_msg_size =
     (if real_msg_size \<le> MESSAGE_SIZE_16K then MESSAGE_SIZE_16K
      else if real_msg_size \<le> MESSAGE_SIZE_128K then MESSAGE_SIZE_128K
      else if real_msg_size \<le> MESSAGE_SIZE_1M then MESSAGE_SIZE_1M
      else if real_msg_size \<le> MESSAGE_SIZE_8M then MESSAGE_SIZE_8M
      else if real_msg_size \<le> MESSAGE_SIZE_16M then MESSAGE_SIZE_16M
      else MESSAGE_SIZE_MORE)"

definition GetBlockBufSize :: "u64 \<Rightarrow> u64" where
  "GetBlockBufSize ceiling = ceiling + MESSAGE_INFO_SIZE"

definition GetBlockNum :: "u64 \<Rightarrow> u32" where
  "GetBlockNum ceiling =
     (if ceiling = MESSAGE_SIZE_16K then 512
      else if ceiling = MESSAGE_SIZE_128K then 128
      else if ceiling = MESSAGE_SIZE_1M then 64
      else if ceiling = MESSAGE_SIZE_8M then 32
      else if ceiling = MESSAGE_SIZE_16M then 16
      else if ceiling = MESSAGE_SIZE_MORE then 8
      else 0)"

definition ShmConf_Update :: "u64 \<Rightarrow> shm_conf" where
  "ShmConf_Update real_msg_size =
     (let ceiling = GetCeilingMessageSize real_msg_size; bufsize = GetBlockBufSize ceiling; num = GetBlockNum ceiling
      in \<lparr>ceiling_msg_size = ceiling, block_buf_size = bufsize, block_num = num,
          managed_shm_size = EXTRA_SIZE + STATE_SIZE + (BLOCK_SIZE + bufsize) * ucast num\<rparr>)"

definition ShmConf :: shm_conf where
  "ShmConf = ShmConf_Update MESSAGE_SIZE_16K"

text \<open>The six configurations.\<close>

lemma ShmConf_Update_cases:
  "ShmConf_Update n \<in>
     {\<lparr>ceiling_msg_size = 16384, block_buf_size = 17408, block_num = 512, managed_shm_size = 9442304\<rparr>,
      \<lparr>ceiling_msg_size = 131072, block_buf_size = 132096, block_num = 128, managed_shm_size = 17044480\<rparr>,
      \<lparr>ceiling_msg_size = 1048576, block_buf_size = 1049600, block_num = 64, managed_shm_size = 67245056\<rparr>,
      \<lparr>ceiling_msg_size = 8388608, block_buf_size = 8389632, block_num = 32, managed_shm_size = 268506112\<rparr>,
      \<lparr>ceiling_msg_size = 16777216, block_buf_size = 16778240, block_num = 16, managed_shm_size = 268473344\<rparr>,
      \<lparr>ceiling_msg_size = 33554432, block_buf_size = 33555456, block_num = 8, managed_shm_size = 268456960\<rparr>}"
  by (simp add: ShmConf_Update_def Let_def GetCeilingMessageSize_def GetBlockBufSize_def GetBlockNum_def shm_sizes)

lemma block_num_Update: "block_num (ShmConf_Update n) \<in> {512, 128, 64, 32, 16, 8}"
  using ShmConf_Update_cases [of n] by (elim insertE emptyE) simp_all

lemma managed_pos: "0 < unat (managed_shm_size (ShmConf_Update n))"
  using ShmConf_Update_cases [of n] by (elim insertE emptyE) simp_all

lemma GetCeiling_idem: "GetCeilingMessageSize (GetCeilingMessageSize n) = GetCeilingMessageSize n"
  by (simp add: GetCeilingMessageSize_def shm_sizes)

lemma ceiling_Update [simp]: "ceiling_msg_size (ShmConf_Update n) = GetCeilingMessageSize n"
  by (simp add: ShmConf_Update_def Let_def)

lemma Update_ceiling [simp]: "ShmConf_Update (ceiling_msg_size (ShmConf_Update n)) = ShmConf_Update n"
  by (simp add: ShmConf_Update_def Let_def GetCeiling_idem)

lemma GetCeiling_room: "n \<le> MESSAGE_SIZE_MORE \<Longrightarrow> n \<le> GetCeilingMessageSize n"
  by (simp add: GetCeilingMessageSize_def)

lemma buf_size_Update: "unat (block_buf_size (ShmConf_Update n)) = unat (ceiling_msg_size (ShmConf_Update n)) + 1024"
  using ShmConf_Update_cases [of n] by (elim insertE emptyE) (simp_all del: ceiling_Update)

text \<open>Longer messages have fewer blocks.\<close>

lemma block_num_antimono:
  assumes "ceiling_msg_size (ShmConf_Update c) < n"
  shows "block_num (ShmConf_Update n) \<le> block_num (ShmConf_Update c)"
proof -
  have num: "block_num (ShmConf_Update m) = (if m \<le> 16384 then 512 else if m \<le> 131072 then 128 else if m \<le> 1048576 then 64
      else if m \<le> 8388608 then 32 else if m \<le> 16777216 then 16 else 8)" for m
    by (simp add: ShmConf_Update_def Let_def GetBlockNum_def GetCeilingMessageSize_def shm_sizes cong: if_cong)
  have "GetCeilingMessageSize c = (if c \<le> 16384 then 16384 else if c \<le> 131072 then 131072 else if c \<le> 1048576 then 1048576
      else if c \<le> 8388608 then 8388608 else if c \<le> 16777216 then 16777216 else 33554432)"
    by (simp add: GetCeilingMessageSize_def shm_sizes cong: if_cong)
  then have "unat n > (if unat c \<le> 16384 then 16384 else if unat c \<le> 131072 then 131072 else if unat c \<le> 1048576 then 1048576
      else if unat c \<le> 8388608 then 8388608 else if unat c \<le> 16777216 then 16777216 else 33554432)"
    using assms by (simp add: word_le_nat_alt word_less_nat_alt split: if_splits)
  then show ?thesis unfolding num by (auto simp: word_le_nat_alt split: if_splits)
qed

section \<open>Block locks\<close>

definition kMaxTryLockTimes :: nat where "kMaxTryLockTimes = 5"

datatype 'c block_pc = B_Idle
  | BW_Cas | B_Writing
  | BR_Load | BR_Check int nat | BR_Cas int nat | B_Reading 'c
  | B_Failed

record 'c shm_block =
  bl_lock_num :: int
  bl_data :: 'c

text \<open>The counter of failed exchanges lives in the program counter; giving up leads to \<open>B_Failed\<close>.\<close>

fun TryLockForWrite_step :: "bool \<Rightarrow> 'c block_pc \<Rightarrow> 'c shm_block \<Rightarrow> 'c block_pc \<times> 'c shm_block" where
  "TryLockForWrite_step spurious BW_Cas b =
     (if bl_lock_num b = RW_LOCK_FREE \<and> \<not> spurious then (B_Writing, b\<lparr>bl_lock_num := WRITE_EXCLUSIVE\<rparr>) else (B_Failed, b))"
| "TryLockForWrite_step spurious pc b = (pc, b)"

fun TryLockForRead_step :: "bool \<Rightarrow> 'c block_pc \<Rightarrow> 'c shm_block \<Rightarrow> 'c block_pc \<times> 'c shm_block" where
  "TryLockForRead_step spurious BR_Load b = (BR_Check (bl_lock_num b) 0, b)"
| "TryLockForRead_step spurious (BR_Check n tries) b = (if n < RW_LOCK_FREE then (B_Failed, b) else (BR_Cas n tries, b))"
| "TryLockForRead_step spurious (BR_Cas n tries) b =
     (if bl_lock_num b = n \<and> \<not> spurious then (B_Reading (bl_data b), b\<lparr>bl_lock_num := n + 1\<rparr>)
      else if tries + 1 = kMaxTryLockTimes then (B_Failed, b)
      else (BR_Check (bl_lock_num b) (tries + 1), b))"
| "TryLockForRead_step spurious pc b = (pc, b)"

definition ReleaseWriteLock :: "'c shm_block \<Rightarrow> 'c shm_block" where
  "ReleaseWriteLock b = b\<lparr>bl_lock_num := bl_lock_num b + 1\<rparr>"

definition ReleaseReadLock :: "'c shm_block \<Rightarrow> 'c shm_block" where
  "ReleaseReadLock b = b\<lparr>bl_lock_num := bl_lock_num b - 1\<rparr>"

text \<open>An attempt that nothing interrupts.\<close>

definition TryLockForWrite :: "'c shm_block \<Rightarrow> bool \<times> 'c shm_block" where
  "TryLockForWrite b = (let (pc, b') = TryLockForWrite_step False BW_Cas b in (pc = B_Writing, b'))"

definition TryLockForRead :: "'c shm_block \<Rightarrow> bool \<times> 'c shm_block" where
  "TryLockForRead b =
     (let (pc1, b1) = TryLockForRead_step False BR_Load b;
          (pc2, b2) = TryLockForRead_step False pc1 b1;
          (pc3, b3) = TryLockForRead_step False pc2 b2
      in (pc3 \<noteq> B_Failed, b3))"

lemma TryLockForWrite_eq [code]:
  "TryLockForWrite b = (if bl_lock_num b = 0 then (True, b\<lparr>bl_lock_num := - 1\<rparr>) else (False, b))"
  by (simp add: TryLockForWrite_def)

lemma TryLockForRead_eq [code]:
  "TryLockForRead b = (if bl_lock_num b < 0 then (False, b) else (True, b\<lparr>bl_lock_num := bl_lock_num b + 1\<rparr>))"
  by (simp add: TryLockForRead_def)

record 'c block_system =
  bs_block :: "'c shm_block"
  bs_pc :: "nat \<Rightarrow> 'c block_pc"
  bs_released :: "'c list"

inductive block_step :: "'c block_system \<Rightarrow> 'c block_system \<Rightarrow> bool" where
  bl_call: "bs_pc s i = B_Idle \<Longrightarrow> pc = BW_Cas \<or> pc = BR_Load \<Longrightarrow> block_step s (s\<lparr>bs_pc := (bs_pc s)(i := pc)\<rparr>)"
| bl_write_lock: "TryLockForWrite_step spurious (bs_pc s i) (bs_block s) = (pc, b)
    \<Longrightarrow> block_step s (s\<lparr>bs_block := b, bs_pc := (bs_pc s)(i := pc)\<rparr>)"
| bl_read_lock: "TryLockForRead_step spurious (bs_pc s i) (bs_block s) = (pc, b)
    \<Longrightarrow> block_step s (s\<lparr>bs_block := b, bs_pc := (bs_pc s)(i := pc)\<rparr>)"
| bl_give_up: "bs_pc s i = B_Failed \<Longrightarrow> block_step s (s\<lparr>bs_pc := (bs_pc s)(i := B_Idle)\<rparr>)"
| bl_write: "bs_pc s i = B_Writing \<Longrightarrow> block_step s (s\<lparr>bs_block := (bs_block s)\<lparr>bl_data := c\<rparr>\<rparr>)"
| bl_release_write: "bs_pc s i = B_Writing
    \<Longrightarrow> block_step s (s\<lparr>bs_block := ReleaseWriteLock (bs_block s), bs_pc := (bs_pc s)(i := B_Idle),
                        bs_released := bl_data (bs_block s) # bs_released s\<rparr>)"
| bl_release_read: "bs_pc s i = B_Reading c
    \<Longrightarrow> block_step s (s\<lparr>bs_block := ReleaseReadLock (bs_block s), bs_pc := (bs_pc s)(i := B_Idle)\<rparr>)"

definition block_init :: "'c \<Rightarrow> 'c block_system \<Rightarrow> bool" where
  "block_init c s \<longleftrightarrow> bs_block s = \<lparr>bl_lock_num = 0, bl_data = c\<rparr> \<and> bs_pc s = (\<lambda>_. B_Idle) \<and> bs_released s = [c]"

definition bl_readers :: "(nat \<Rightarrow> 'c block_pc) \<Rightarrow> nat set" where
  "bl_readers pcs = {i. \<exists>c. pcs i = B_Reading c}"

definition bl_writers :: "(nat \<Rightarrow> 'c block_pc) \<Rightarrow> nat set" where
  "bl_writers pcs = {i. pcs i = B_Writing}"

text \<open>Exclusion, and: without a writer the data is what was released last, and every reader saw just that.\<close>

definition block_inv :: "'c block_system \<Rightarrow> bool" where
  "block_inv s \<longleftrightarrow> finite {i. bs_pc s i \<noteq> B_Idle}
     \<and> exclusive (bl_lock_num (bs_block s)) (bl_readers (bs_pc s)) (bl_writers (bs_pc s))
     \<and> (\<forall>i n k. bs_pc s i = BR_Cas n k \<longrightarrow> 0 \<le> n)
     \<and> bs_released s \<noteq> []
     \<and> (bl_writers (bs_pc s) = {} \<longrightarrow> bl_data (bs_block s) = hd (bs_released s))
     \<and> (\<forall>i c. bs_pc s i = B_Reading c \<longrightarrow> c = hd (bs_released s))"

lemma bl_sets_upd:
  "bl_readers (pcs(i := pc)) = (if \<exists>c. pc = B_Reading c then insert i (bl_readers pcs) else bl_readers pcs - {i})"
  "bl_writers (pcs(i := pc)) = (if pc = B_Writing then insert i (bl_writers pcs) else bl_writers pcs - {i})"
  by (auto simp: bl_readers_def bl_writers_def)

lemma bl_sets_mem:
  "i \<in> bl_readers pcs \<longleftrightarrow> (\<exists>c. pcs i = B_Reading c)" "i \<in> bl_writers pcs \<longleftrightarrow> pcs i = B_Writing"
  by (auto simp: bl_readers_def bl_writers_def)

lemma bl_finite:
  assumes "finite {i. pcs i \<noteq> B_Idle}"
  shows "finite (bl_readers pcs)" "finite {j. (pcs(i := pc)) j \<noteq> B_Idle}"
proof -
  have "bl_readers pcs \<subseteq> {i. pcs i \<noteq> B_Idle}" by (auto simp: bl_readers_def)
  then show "finite (bl_readers pcs)" using assms finite_subset by blast
  have "{j. (pcs(i := pc)) j \<noteq> B_Idle} \<subseteq> insert i {i. pcs i \<noteq> B_Idle}" by auto
  then show "finite {j. (pcs(i := pc)) j \<noteq> B_Idle}" using assms finite_subset by blast
qed

text \<open>Steps that change neither the block nor who holds it.\<close>

fun bl_holds :: "'c block_pc \<Rightarrow> bool" where
  "bl_holds B_Writing = True"
| "bl_holds (B_Reading c) = True"
| "bl_holds _ = False"

lemma block_inv_move:
  assumes "block_inv s" and "\<not> bl_holds (bs_pc s i)" and "\<not> bl_holds pc"
    and "\<And>n k. pc = BR_Cas n k \<Longrightarrow> 0 \<le> n"
  shows "block_inv (s\<lparr>bs_pc := (bs_pc s)(i := pc)\<rparr>)"
proof -
  have "bl_readers ((bs_pc s)(i := pc)) = bl_readers (bs_pc s)" "bl_writers ((bs_pc s)(i := pc)) = bl_writers (bs_pc s)"
    using assms(2,3) by (auto simp: bl_readers_def bl_writers_def)
  then show ?thesis using assms(1,3,4) bl_finite(2) [of "bs_pc s" i pc] by (auto simp: block_inv_def)
qed

lemma block_inv_hold:
  assumes "block_inv s"
  shows "bs_pc s i = BW_Cas \<Longrightarrow> bl_lock_num (bs_block s) = 0
      \<Longrightarrow> block_inv (s\<lparr>bs_block := (bs_block s)\<lparr>bl_lock_num := - 1\<rparr>, bs_pc := (bs_pc s)(i := B_Writing)\<rparr>)"
    "bs_pc s i = BR_Cas (bl_lock_num (bs_block s)) k
      \<Longrightarrow> block_inv (s\<lparr>bs_block := (bs_block s)\<lparr>bl_lock_num := bl_lock_num (bs_block s) + 1\<rparr>,
                       bs_pc := (bs_pc s)(i := B_Reading (bl_data (bs_block s)))\<rparr>)"
proof -
  have ex: "exclusive (bl_lock_num (bs_block s)) (bl_readers (bs_pc s)) (bl_writers (bs_pc s))"
    and fin: "finite {i. bs_pc s i \<noteq> B_Idle}" using assms by (auto simp: block_inv_def)
  note fins = bl_finite [OF fin]
  show "block_inv (s\<lparr>bs_block := (bs_block s)\<lparr>bl_lock_num := - 1\<rparr>, bs_pc := (bs_pc s)(i := B_Writing)\<rparr>)"
    if "bs_pc s i = BW_Cas" "bl_lock_num (bs_block s) = 0"
  proof -
    have "bl_writers (bs_pc s) = {}" "bl_readers (bs_pc s) = {}"
      using exclusive_nonneg [OF ex] that(2) fins(1) by auto
    then show ?thesis
      using assms that fins by (auto simp: block_inv_def bl_sets_upd exclusive_def)
  qed
  show "block_inv (s\<lparr>bs_block := (bs_block s)\<lparr>bl_lock_num := bl_lock_num (bs_block s) + 1\<rparr>,
                     bs_pc := (bs_pc s)(i := B_Reading (bl_data (bs_block s)))\<rparr>)"
    if pc: "bs_pc s i = BR_Cas (bl_lock_num (bs_block s)) k"
  proof -
    have "0 \<le> bl_lock_num (bs_block s)" using assms pc by (auto simp: block_inv_def)
    then have "bl_writers (bs_pc s) = {}" "bl_lock_num (bs_block s) = int (card (bl_readers (bs_pc s)))"
      using exclusive_nonneg [OF ex] by auto
    moreover have "i \<notin> bl_readers (bs_pc s)" using pc by (simp add: bl_sets_mem)
    ultimately show ?thesis
      using assms pc fins by (auto simp: block_inv_def bl_sets_upd exclusive_def)
  qed
qed

lemma block_inv_release:
  assumes "block_inv s"
  shows "bs_pc s i = B_Writing \<Longrightarrow> block_inv (s\<lparr>bs_block := (bs_block s)\<lparr>bl_data := d\<rparr>\<rparr>)"
    "bs_pc s i = B_Writing \<Longrightarrow> block_inv (s\<lparr>bs_block := ReleaseWriteLock (bs_block s), bs_pc := (bs_pc s)(i := B_Idle),
                                           bs_released := bl_data (bs_block s) # bs_released s\<rparr>)"
    "bs_pc s i = B_Reading c \<Longrightarrow> block_inv (s\<lparr>bs_block := ReleaseReadLock (bs_block s), bs_pc := (bs_pc s)(i := B_Idle)\<rparr>)"
proof -
  have ex: "exclusive (bl_lock_num (bs_block s)) (bl_readers (bs_pc s)) (bl_writers (bs_pc s))"
    and fin: "finite {i. bs_pc s i \<noteq> B_Idle}" using assms by (auto simp: block_inv_def)
  note fins = bl_finite [OF fin]
  have W: "bl_writers (bs_pc s) = {i}" "bl_readers (bs_pc s) = {}" "bl_lock_num (bs_block s) = - 1" if "bs_pc s i = B_Writing"
    using exclusive_writer [OF ex, of i] that by (simp_all add: bl_sets_mem)
  show "block_inv (s\<lparr>bs_block := (bs_block s)\<lparr>bl_data := d\<rparr>\<rparr>)" if "bs_pc s i = B_Writing"
    using assms W [OF that] by (auto simp: block_inv_def)
  show "block_inv (s\<lparr>bs_block := ReleaseWriteLock (bs_block s), bs_pc := (bs_pc s)(i := B_Idle),
                     bs_released := bl_data (bs_block s) # bs_released s\<rparr>)" if "bs_pc s i = B_Writing"
  proof -
    have "bs_pc s j \<noteq> B_Reading c'" for j c' using W(2) [OF that] by (auto simp: bl_readers_def)
    then show ?thesis
      using assms W [OF that] fins by (auto simp: block_inv_def bl_sets_upd exclusive_def ReleaseWriteLock_def)
  qed
  show "block_inv (s\<lparr>bs_block := ReleaseReadLock (bs_block s), bs_pc := (bs_pc s)(i := B_Idle)\<rparr>)" if "bs_pc s i = B_Reading c"
  proof -
    have "i \<in> bl_readers (bs_pc s)" using that by (simp add: bl_sets_mem)
    then have nW: "bl_writers (bs_pc s) = {}" and n: "bl_lock_num (bs_block s) = int (card (bl_readers (bs_pc s)))"
      using exclusive_reader [OF ex] by auto
    have "exclusive (bl_lock_num (bs_block s) - 1) (bl_readers (bs_pc s) - {i}) {}"
      using int_card_remove [OF fins(1) \<open>i \<in> _\<close>] n by (simp add: exclusive_def del: card_Diff_insert)
    moreover have "bl_data (bs_block s) = hd (bs_released s)" using assms nW by (simp add: block_inv_def)
    ultimately show ?thesis
      using assms fins(2) [of i B_Idle] nW by (auto simp: block_inv_def bl_sets_upd ReleaseReadLock_def)
  qed
qed

interpretation block_sys: invariant_system "block_init c" block_step block_inv for c
proof
  show "block_inv s" if "block_init c s" for s :: "'a block_system"
    using that by (simp add: block_init_def block_inv_def exclusive_def bl_readers_def bl_writers_def)
  show "block_inv t" if inv: "block_inv s" and step: "block_step s t" for s t :: "'a block_system"
    using step
  proof cases
    case (bl_call i pc)
    then show ?thesis using block_inv_move [OF inv, of i pc] by auto
  next
    case (bl_write_lock spurious i pc b)
    show ?thesis
    proof (cases "bs_pc s i = BW_Cas")
      case True
      with bl_write_lock show ?thesis
        using block_inv_move [OF inv, of i B_Failed] block_inv_hold(1) [OF inv, of i] by (auto split: if_splits)
    next
      case False
      then have "pc = bs_pc s i" "b = bs_block s" using bl_write_lock by (cases "bs_pc s i"; simp)+
      then show ?thesis using bl_write_lock inv by (simp add: fun_upd_idem)
    qed
  next
    case (bl_read_lock spurious i pc b)
    show ?thesis
    proof (cases "bs_pc s i")
      case (BR_Cas n k)
      with bl_read_lock show ?thesis
        using block_inv_move [OF inv, of i pc] block_inv_hold(2) [OF inv, of i k] by (auto split: if_splits)
    qed (use bl_read_lock inv block_inv_move [OF inv, of i pc] in \<open>auto simp: fun_upd_idem split: if_splits\<close>)
  next
    case (bl_give_up i)
    then show ?thesis using block_inv_move [OF inv, of i B_Idle] by auto
  qed (use block_inv_release [OF inv] in auto)
qed

section \<open>Properties\<close>

text \<open>
  C14: no torn reads. In every interleaving of any number of reading and writing processes, a process that
  writes a block is alone on it, and what any reader of the block saw when it got the lock is a value that a
  writer had finished, the last one, and is still in the block. An attempt that nothing disturbs succeeds
  for a writer when the block is free and for a reader when nobody writes.
\<close>

theorem shm_block_no_torn_read:
  assumes "reachable_from (block_init c0) block_step s"
  shows "(\<forall>i j c. bs_pc s i = B_Writing \<and> (bs_pc s j = B_Writing \<or> bs_pc s j = B_Reading c) \<longrightarrow> i = j)
    \<and> (\<forall>i c. bs_pc s i = B_Reading c \<longrightarrow> c = bl_data (bs_block s) \<and> c = hd (bs_released s) \<and> bs_released s \<noteq> [])
    \<and> ((\<forall>i. bs_pc s i \<noteq> B_Writing) \<longrightarrow> fst (TryLockForRead (bs_block s)))
    \<and> ((\<forall>i c. bs_pc s i \<noteq> B_Writing \<and> bs_pc s i \<noteq> B_Reading c) \<longrightarrow> fst (TryLockForWrite (bs_block s)))"
proof -
  have inv: "block_inv s" by (rule block_sys.reachable_inv [OF assms])
  then have ex: "exclusive (bl_lock_num (bs_block s)) (bl_readers (bs_pc s)) (bl_writers (bs_pc s))" by (simp add: block_inv_def)
  have "i = j" if "bs_pc s i = B_Writing" "bs_pc s j = B_Writing \<or> bs_pc s j = B_Reading c" for i j c
    using exclusive_writer [OF ex, of i] that by (metis bl_sets_mem empty_iff singletonD)
  moreover have "c = bl_data (bs_block s) \<and> c = hd (bs_released s) \<and> bs_released s \<noteq> []" if "bs_pc s i = B_Reading c" for i c
  proof -
    have "bl_writers (bs_pc s) = {}" using exclusive_reader [OF ex, of i] that by (auto simp: bl_sets_mem)
    then show ?thesis using inv that unfolding block_inv_def by metis
  qed
  moreover have "fst (TryLockForRead (bs_block s))" if "\<forall>i. bs_pc s i \<noteq> B_Writing"
    using ex that by (auto simp: exclusive_def bl_writers_def TryLockForRead_eq)
  moreover have "fst (TryLockForWrite (bs_block s))" if "\<forall>i c. bs_pc s i \<noteq> B_Writing \<and> bs_pc s i \<noteq> B_Reading c"
    using ex that by (auto simp: exclusive_def bl_writers_def bl_readers_def TryLockForWrite_eq)
  ultimately show ?thesis by blast
qed

theorem shm_block_no_torn_read_witness:
  "\<exists>s. reachable_from (block_init 7) block_step s \<and> bs_pc s 2 = B_Reading (9 :: nat) \<and> bl_data (bs_block s) = 9"
proof -
  let ?s = "\<lambda>n c p q r. \<lparr>bs_block = \<lparr>bl_lock_num = n, bl_data = c\<rparr>, bs_pc = (\<lambda>_. B_Idle)(4 := p, 2 := q), bs_released = r\<rparr> :: nat block_system"
  have "block_init 7 (?s 0 7 B_Idle B_Idle [7])" by (simp add: block_init_def fun_upd_idem)
  then have "reachable_from (block_init 7) block_step (?s 0 7 B_Idle B_Idle [7])" by (rule reach_init)
  moreover have "block_step (?s 0 7 B_Idle B_Idle [7]) (?s 0 7 BW_Cas B_Idle [7])"
    using bl_call [of "?s 0 7 B_Idle B_Idle [7]" 4 BW_Cas] by (simp add: fun_upd_twist)
  moreover have "block_step (?s 0 7 BW_Cas B_Idle [7]) (?s (- 1) 7 B_Writing B_Idle [7])"
    using bl_write_lock [of False "?s 0 7 BW_Cas B_Idle [7]" 4] by (simp add: fun_upd_twist)
  moreover have "block_step (?s (- 1) 7 B_Writing B_Idle [7]) (?s (- 1) 9 B_Writing B_Idle [7])"
    using bl_write [of "?s (- 1) 7 B_Writing B_Idle [7]" 4 9] by simp
  moreover have "block_step (?s (- 1) 9 B_Writing B_Idle [7]) (?s 0 9 B_Idle B_Idle [9, 7])"
    using bl_release_write [of "?s (- 1) 9 B_Writing B_Idle [7]" 4] by (simp add: ReleaseWriteLock_def fun_upd_twist)
  moreover have "block_step (?s 0 9 B_Idle B_Idle [9, 7]) (?s 0 9 B_Idle BR_Load [9, 7])"
    using bl_call [of "?s 0 9 B_Idle B_Idle [9, 7]" 2 BR_Load] by simp
  moreover have "block_step (?s 0 9 B_Idle BR_Load [9, 7]) (?s 0 9 B_Idle (BR_Check 0 0) [9, 7])"
    using bl_read_lock [of False "?s 0 9 B_Idle BR_Load [9, 7]" 2] by simp
  moreover have "block_step (?s 0 9 B_Idle (BR_Check 0 0) [9, 7]) (?s 0 9 B_Idle (BR_Cas 0 0) [9, 7])"
    using bl_read_lock [of False "?s 0 9 B_Idle (BR_Check 0 0) [9, 7]" 2] by simp
  moreover have "block_step (?s 0 9 B_Idle (BR_Cas 0 0) [9, 7]) (?s 1 9 B_Idle (B_Reading 9) [9, 7])"
    using bl_read_lock [of False "?s 0 9 B_Idle (BR_Cas 0 0) [9, 7]" 2] by simp
  ultimately have r: "reachable_from (block_init 7) block_step (?s 1 9 B_Idle (B_Reading 9) [9, 7])"
    by (meson reach_step)
  moreover have "9 = bl_data (bs_block (?s 1 9 B_Idle (B_Reading 9) [9, 7]))"
    using shm_block_no_torn_read [OF r] by simp
  ultimately show ?thesis by (intro exI conjI) (assumption, simp_all)
qed

text \<open>
  C31: the layout of a segment. Whatever message size is asked for, the head, the block headers and the
  buffers lie one after the other inside the segment, computed without overflow; a buffer has room for the
  message and 1024 bytes of information for messages of up to 32 MiB, and for no larger message.
\<close>

theorem shm_layout_fits:
  fixes n :: u64
  assumes "conf = ShmConf_Update n" and "sizeof_State \<le> 1024" and "sizeof_Block \<le> 1024" and "i < unat (block_num conf)"
  shows "sizeof_State + unat (block_num conf) * sizeof_Block + i * unat (block_buf_size conf) + unat (block_buf_size conf)
      \<le> unat (managed_shm_size conf)
    \<and> unat (managed_shm_size conf) = 5120 + (1024 + unat (block_buf_size conf)) * unat (block_num conf)
    \<and> (unat n + 1024 \<le> unat (block_buf_size conf) \<longleftrightarrow> unat n \<le> 33554432)"
proof -
  have size: "unat (managed_shm_size conf) = 5120 + (1024 + unat (block_buf_size conf)) * unat (block_num conf)"
    using ShmConf_Update_cases [of n] unfolding assms(1) by (elim insertE emptyE) simp_all
  have "unat (block_num conf) * sizeof_Block \<le> unat (block_num conf) * 1024" using assms(3) by simp
  moreover have "i * unat (block_buf_size conf) + unat (block_buf_size conf) \<le> unat (block_buf_size conf) * unat (block_num conf)"
    using mult_le_mono1 [of "i + 1" "unat (block_num conf)" "unat (block_buf_size conf)"] assms(4) by (simp add: algebra_simps)
  ultimately have "sizeof_State + unat (block_num conf) * sizeof_Block + i * unat (block_buf_size conf) + unat (block_buf_size conf)
      \<le> unat (managed_shm_size conf)"
    using assms(2) unfolding size distrib_right by linarith
  moreover have "unat n + 1024 \<le> unat (block_buf_size conf) \<longleftrightarrow> unat n \<le> unat (GetCeilingMessageSize n)"
    unfolding assms(1) by (simp add: buf_size_Update)
  moreover have "unat n \<le> unat (GetCeilingMessageSize n) \<longleftrightarrow> unat n \<le> 33554432"
    by (auto simp: GetCeilingMessageSize_def shm_sizes word_le_nat_alt)
  ultimately show ?thesis by (simp add: size)
qed

theorem shm_layout_fits_witness:
  "32 + unat (block_num (ShmConf_Update 100000)) * 32 + 5 * unat (block_buf_size (ShmConf_Update 100000))
     + unat (block_buf_size (ShmConf_Update 100000)) \<le> unat (managed_shm_size (ShmConf_Update 100000))"
proof -
  have "(5::nat) < unat (block_num (ShmConf_Update 100000))" by code_simp
  then show ?thesis using shm_layout_fits [OF refl, of 32 32 5 100000] by simp
qed

end
