(* ===== verification/Message_Codec.thy ===== *)
theory Message_Codec
  imports Role_Warehouse "HOL-Library.Monad_Syntax"
begin

text \<open>
  What travels with a message: \<open>transport/common/identity\<close>, \<open>transport/common/endpoint\<close>,
  \<open>transport/message/message_info\<close>, \<open>transport/shm/readable_info\<close> and the base class
  \<open>transport/transmitter/transmitter.h\<close>.

  Integers are copied in the byte order of the machine, least significant byte first. A buffer has a size
  and bytes; reading or writing outside it has no result (\<open>None\<close>). A pointer into a buffer is the
  buffer and an offset. The string hash \<open>H\<close>, the generated \<open>uuid\<close> and the host name and process id
  of the process are arguments.
\<close>

unbundle bit_operations_syntax

section \<open>Bytes\<close>

type_synonym byte = "8 word"

primrec le_bytes :: "nat \<Rightarrow> 'a::len word \<Rightarrow> byte list" where
  "le_bytes 0 w = []"
| "le_bytes (Suc n) w = ucast w # le_bytes n (drop_bit 8 w)"

primrec le_word :: "byte list \<Rightarrow> 'a::len word" where
  "le_word [] = 0"
| "le_word (b # bs) = ucast b OR push_bit 8 (le_word bs)"

lemma length_le_bytes [simp]: "length (le_bytes n w) = n"
  by (induction n arbitrary: w) auto

lemma le_word_bytes: "le_word (le_bytes n w) = take_bit (8 * n) w"
proof (induction n arbitrary: w)
  case (Suc n)
  show ?case
    by (rule bit_word_eqI) (auto simp: Suc bit_simps not_less algebra_simps)
qed simp

lemma le_bytes_word:
  fixes w :: "'a::len word"
  assumes "8 * length bs \<le> LENGTH('a)"
  shows "le_bytes (length bs) (le_word bs :: 'a word) = bs"
  using assms
proof (induction bs)
  case (Cons b bs)
  have "ucast (le_word (b # bs) :: 'a word) = b"
    using Cons.prems by (intro bit_word_eqI) (auto simp: bit_simps)
  moreover have "drop_bit 8 (le_word (b # bs) :: 'a word) = take_bit (LENGTH('a) - 8) (le_word bs)"
    using Cons.prems by (intro bit_word_eqI) (auto simp: bit_simps dest: bit_imp_le_length)
  moreover have "le_bytes n (take_bit m w) = le_bytes n w" if "8 * n \<le> m" for n m and w :: "'a word"
    using that
  proof (induction n arbitrary: m w)
    case (Suc n)
    have "ucast (take_bit m w) = (ucast w :: byte)" using Suc.prems by (intro bit_word_eqI) (auto simp: bit_simps)
    moreover have "drop_bit 8 (take_bit m w) = take_bit (m - 8) (drop_bit 8 w)"
      by (intro bit_word_eqI) (auto simp: bit_simps)
    ultimately show ?case using Suc.IH [of "m - 8"] Suc.prems by simp
  qed simp
  ultimately show ?case using Cons by simp
qed simp

lemma le_word_bytes_u64 [simp]: "le_word (le_bytes 8 (w :: u64)) = w"
  by (simp add: le_word_bytes take_bit_word_eq_self)

lemma le_word_bytes_u32 [simp]: "le_word (le_bytes 4 (w :: u32)) = w"
  by (simp add: le_word_bytes take_bit_word_eq_self)

section \<open>Buffers\<close>

record buffer =
  buf_size :: nat
  buf_mem :: "nat \<Rightarrow> byte"

definition buf_write :: "buffer \<Rightarrow> nat \<Rightarrow> byte list \<Rightarrow> buffer option" where
  "buf_write b off bs =
     (if off + length bs \<le> buf_size b
      then Some (b\<lparr>buf_mem := (\<lambda>i. if off \<le> i \<and> i < off + length bs then bs ! (i - off) else buf_mem b i)\<rparr>)
      else None)"

definition buf_read :: "buffer \<Rightarrow> nat \<Rightarrow> nat \<Rightarrow> byte list option" where
  "buf_read b off n = (if off + n \<le> buf_size b then Some (map (buf_mem b) [off..<off + n]) else None)"

named_theorems buf_simps \<open>reading back what was written\<close>

lemma buf_write_size [buf_simps]: "buf_write b off bs = Some b' \<Longrightarrow> buf_size b' = buf_size b"
  by (auto simp: buf_write_def split: if_splits)

lemma buf_write_Some [buf_simps]: "off + length bs \<le> buf_size b \<Longrightarrow> \<exists>b'. buf_write b off bs = Some b'"
  by (simp add: buf_write_def)

lemma buf_read_write:
  assumes "buf_write b off bs = Some b'"
  shows "buf_read b' off (length bs) = Some bs"
    and "off' + n \<le> off \<or> off + length bs \<le> off' \<Longrightarrow> buf_read b' off' n = buf_read b off' n"
proof -
  have b': "b' = b\<lparr>buf_mem := (\<lambda>i. if off \<le> i \<and> i < off + length bs then bs ! (i - off) else buf_mem b i)\<rparr>"
    and fits: "off + length bs \<le> buf_size b"
    using assms by (auto simp: buf_write_def split: if_splits)
  have "map (buf_mem b') [off..<off + length bs] = bs"
    by (rule nth_equalityI) (simp_all add: b')
  then show "buf_read b' off (length bs) = Some bs" using fits by (simp add: buf_read_def b')
  assume "off' + n \<le> off \<or> off + length bs \<le> off'"
  then have "map (buf_mem b') [off'..<off' + n] = map (buf_mem b) [off'..<off' + n]"
    by (intro map_cong refl) (auto simp: b')
  then show "buf_read b' off' n = buf_read b off' n" by (simp add: buf_read_def b')
qed

lemma buf_write_append:
  "buf_write b off (xs @ ys) = Option.bind (buf_write b off xs) (\<lambda>b1. buf_write b1 (off + length xs) ys)"
proof (cases "off + length (xs @ ys) \<le> buf_size b")
  case True
  have "(\<lambda>i. if off \<le> i \<and> i < off + length (xs @ ys) then (xs @ ys) ! (i - off) else buf_mem b i)
      = (\<lambda>i. if off + length xs \<le> i \<and> i < off + length xs + length ys then ys ! (i - (off + length xs))
             else if off \<le> i \<and> i < off + length xs then xs ! (i - off) else buf_mem b i)"
    by (rule ext) (auto simp: nth_append)
  with True show ?thesis by (simp add: buf_write_def cong: if_cong)
qed (auto simp: buf_write_def)

lemma buf_read_append:
  "buf_read b off (m + n) = Option.bind (buf_read b off m) (\<lambda>xs. Option.bind (buf_read b (off + m) n) (\<lambda>ys. Some (xs @ ys)))"
  using upt_add_eq_append [of off "off + m" n] by (auto simp: buf_read_def add.assoc)

section \<open>Identities\<close>

record identity =
  id_data :: "byte list"
  id_hash :: u64

definition ID_SIZE :: nat where
  "ID_SIZE = 8"

definition id_Update :: "(byte list \<Rightarrow> u64) \<Rightarrow> identity \<Rightarrow> identity" where
  "id_Update H i = i\<lparr>id_hash := H (id_data i)\<rparr>"

definition Identity :: "(byte list \<Rightarrow> u64) \<Rightarrow> byte list option \<Rightarrow> identity" where
  "Identity H uuid =
     (let i = \<lparr>id_data = replicate ID_SIZE 0, id_hash = 0\<rparr>
      in case uuid of None \<Rightarrow> i | Some bytes \<Rightarrow> id_Update H (i\<lparr>id_data := take ID_SIZE bytes\<rparr>))"

definition set_data :: "(byte list \<Rightarrow> u64) \<Rightarrow> byte list option \<Rightarrow> identity \<Rightarrow> identity" where
  "set_data H data i = (case data of None \<Rightarrow> i | Some bytes \<Rightarrow> id_Update H (i\<lparr>id_data := bytes\<rparr>))"

definition id_eq :: "identity \<Rightarrow> identity \<Rightarrow> bool" where
  "id_eq i j = (id_data i = id_data j)"

text \<open>An identity holds eight bytes, and its hash is that of the bytes unless it was never generated.\<close>

definition identity_ok :: "(byte list \<Rightarrow> u64) \<Rightarrow> identity \<Rightarrow> bool" where
  "identity_ok H i \<longleftrightarrow> length (id_data i) = ID_SIZE \<and> (id_hash i = H (id_data i) \<or> i = Identity H None)"

lemma Identity_ok [simp]:
  "identity_ok H (Identity H None)" "ID_SIZE \<le> length uuid \<Longrightarrow> identity_ok H (Identity H (Some uuid))"
  by (auto simp: identity_ok_def Identity_def id_Update_def Let_def)

lemma set_data_ok: "length bytes = ID_SIZE \<Longrightarrow> identity_ok H (set_data H (Some bytes) i)"
  by (simp add: identity_ok_def set_data_def id_Update_def)

section \<open>Message information\<close>

record message_info =
  sender_id :: identity
  mi_channel_id :: u64
  seq_num :: u64
  spare_id :: identity

definition MI_kSize :: nat where
  "MI_kSize = 2 * ID_SIZE + 8"

definition MessageInfo :: "(byte list \<Rightarrow> u64) \<Rightarrow> message_info" where
  "MessageInfo H = \<lparr>sender_id = Identity H None, mi_channel_id = 0, seq_num = 0, spare_id = Identity H None\<rparr>"

definition MessageInfo_seq :: "(byte list \<Rightarrow> u64) \<Rightarrow> identity \<Rightarrow> u64 \<Rightarrow> message_info" where
  "MessageInfo_seq H sender n = \<lparr>sender_id = sender, mi_channel_id = 0, seq_num = n, spare_id = Identity H None\<rparr>"

definition MessageInfo_spare :: "identity \<Rightarrow> u64 \<Rightarrow> identity \<Rightarrow> message_info" where
  "MessageInfo_spare sender n spare = \<lparr>sender_id = sender, mi_channel_id = 0, seq_num = n, spare_id = spare\<rparr>"

definition MI_eq :: "message_info \<Rightarrow> message_info \<Rightarrow> bool" where
  "MI_eq a b = (id_eq (sender_id a) (sender_id b) \<and> mi_channel_id a = mi_channel_id b \<and> seq_num a = seq_num b
     \<and> id_eq (spare_id a) (spare_id b))"

definition MI_SerializeTo :: "message_info \<Rightarrow> byte list" where
  "MI_SerializeTo mi = (id_data (sender_id mi) @ le_bytes 8 (seq_num mi)) @ id_data (spare_id mi)"

definition MI_SerializeTo_buf :: "message_info \<Rightarrow> (buffer \<times> nat) option \<Rightarrow> nat \<Rightarrow> (bool \<times> (buffer \<times> nat) option) option" where
  "MI_SerializeTo_buf mi dst len =
     (case dst of
        None \<Rightarrow> Some (False, None)
      | Some (b, p) \<Rightarrow>
          if len < MI_kSize then Some (False, Some (b, p))
          else do {
            b1 \<leftarrow> buf_write b p (id_data (sender_id mi));
            b2 \<leftarrow> buf_write b1 (p + ID_SIZE) (le_bytes 8 (seq_num mi));
            b3 \<leftarrow> buf_write b2 (p + ID_SIZE + 8) (id_data (spare_id mi));
            Some (True, Some (b3, p))
          })"

definition MI_DeserializeFrom_buf ::
  "(byte list \<Rightarrow> u64) \<Rightarrow> message_info \<Rightarrow> (buffer \<times> nat) option \<Rightarrow> nat \<Rightarrow> (bool \<times> message_info) option" where
  "MI_DeserializeFrom_buf H mi src len =
     (case src of
        None \<Rightarrow> Some (False, mi)
      | Some (b, p) \<Rightarrow>
          if len \<noteq> MI_kSize then Some (False, mi)
          else do {
            d1 \<leftarrow> buf_read b p ID_SIZE;
            d2 \<leftarrow> buf_read b (p + ID_SIZE) 8;
            d3 \<leftarrow> buf_read b (p + ID_SIZE + 8) ID_SIZE;
            Some (True, mi\<lparr>sender_id := set_data H (Some d1) (sender_id mi), seq_num := le_word d2,
                           spare_id := set_data H (Some d3) (spare_id mi)\<rparr>)
          })"

definition string_buffer :: "byte list \<Rightarrow> buffer" where
  "string_buffer s = \<lparr>buf_size = length s, buf_mem = (\<lambda>i. if i < length s then s ! i else 0)\<rparr>"

definition MI_DeserializeFrom :: "(byte list \<Rightarrow> u64) \<Rightarrow> message_info \<Rightarrow> byte list \<Rightarrow> (bool \<times> message_info) option" where
  "MI_DeserializeFrom H mi src = MI_DeserializeFrom_buf H mi (Some (string_buffer src, 0)) (length src)"

definition mi_ok :: "(byte list \<Rightarrow> u64) \<Rightarrow> message_info \<Rightarrow> bool" where
  "mi_ok H mi \<longleftrightarrow> identity_ok H (sender_id mi) \<and> identity_ok H (spare_id mi)"

text \<open>What a receiver that starts from \<open>old\<close> reconstructs from \<open>mi\<close>: the channel is not transmitted, and
  the hashes of the identities are computed anew.\<close>

definition mi_received :: "(byte list \<Rightarrow> u64) \<Rightarrow> message_info \<Rightarrow> message_info \<Rightarrow> message_info" where
  "mi_received H old mi =
     \<lparr>sender_id = id_Update H (sender_id mi), mi_channel_id = mi_channel_id old, seq_num = seq_num mi,
      spare_id = id_Update H (spare_id mi)\<rparr>"

lemma length_MI_SerializeTo: "mi_ok H mi \<Longrightarrow> length (MI_SerializeTo mi) = MI_kSize"
  by (simp add: MI_SerializeTo_def mi_ok_def identity_ok_def MI_kSize_def)

lemma MI_SerializeTo_buf_eq:
  assumes "mi_ok H mi" and "MI_kSize \<le> len"
  shows "MI_SerializeTo_buf mi (Some (b, p)) len = map_option (\<lambda>b'. (True, Some (b', p))) (buf_write b p (MI_SerializeTo mi))"
  using assms
  by (simp add: MI_SerializeTo_buf_def MI_SerializeTo_def mi_ok_def identity_ok_def buf_write_append add.assoc
      split: Option.bind_split)

lemma MI_DeserializeFrom_buf_read:
  assumes "mi_ok H mi" and "buf_read b p MI_kSize = Some (MI_SerializeTo mi)"
  shows "MI_DeserializeFrom_buf H old (Some (b, p)) MI_kSize = Some (True, mi_received H old mi)"
proof -
  have k: "MI_kSize = (ID_SIZE + 8) + ID_SIZE" by (simp add: MI_kSize_def)
  obtain d1 d2 d3 where d: "buf_read b p ID_SIZE = Some d1" "buf_read b (p + ID_SIZE) 8 = Some d2"
    "buf_read b (p + ID_SIZE + 8) ID_SIZE = Some d3" and all: "(d1 @ d2) @ d3 = MI_SerializeTo mi"
    using assms(2) unfolding k buf_read_append by (auto simp: bind_eq_Some_conv add.assoc)
  have "length d1 = ID_SIZE" "length d2 = 8" "length d3 = ID_SIZE"
    using d by (auto simp: buf_read_def split: if_splits)
  with all assms(1) have "d1 = id_data (sender_id mi)" "d2 = le_bytes 8 (seq_num mi)" "d3 = id_data (spare_id mi)"
    by (simp_all add: MI_SerializeTo_def mi_ok_def identity_ok_def)
  then show ?thesis
    using d by (simp add: MI_DeserializeFrom_buf_def mi_received_def set_data_def id_Update_def)
qed

lemma string_buffer_read: "buf_read (string_buffer s) 0 (length s) = Some s"
  by (auto simp: buf_read_def string_buffer_def intro!: nth_equalityI)

section \<open>Readable information\<close>

record readable_info =
  ri_host_id :: u64
  ri_block_index :: u32
  ri_channel_id :: u64

definition RI_kSize :: nat where
  "RI_kSize = 8 * 2 + 4"

definition ReadableInfo :: readable_info where
  "ReadableInfo = \<lparr>ri_host_id = 0, ri_block_index = 0, ri_channel_id = 0\<rparr>"

definition RI_SerializeTo :: "readable_info \<Rightarrow> byte list" where
  "RI_SerializeTo ri = (le_bytes 8 (ri_host_id ri) @ le_bytes 4 (ri_block_index ri)) @ le_bytes 8 (ri_channel_id ri)"

definition RI_DeserializeFrom_buf :: "readable_info \<Rightarrow> (buffer \<times> nat) option \<Rightarrow> nat \<Rightarrow> (bool \<times> readable_info) option" where
  "RI_DeserializeFrom_buf ri src len =
     (case src of
        None \<Rightarrow> Some (False, ri)
      | Some (b, p) \<Rightarrow>
          if len \<noteq> RI_kSize then Some (False, ri)
          else do {
            d1 \<leftarrow> buf_read b p 8;
            d2 \<leftarrow> buf_read b (p + 8) 4;
            d3 \<leftarrow> buf_read b (p + 8 + 4) 8;
            Some (True, ri\<lparr>ri_host_id := le_word d1, ri_block_index := le_word d2, ri_channel_id := le_word d3\<rparr>)
          })"

definition RI_DeserializeFrom :: "readable_info \<Rightarrow> byte list \<Rightarrow> (bool \<times> readable_info) option" where
  "RI_DeserializeFrom ri src = RI_DeserializeFrom_buf ri (Some (string_buffer src, 0)) (length src)"

lemma length_RI_SerializeTo [simp]: "length (RI_SerializeTo ri) = RI_kSize"
  by (simp add: RI_SerializeTo_def RI_kSize_def)

lemma RI_DeserializeFrom_buf_read:
  assumes "buf_read b p RI_kSize = Some (RI_SerializeTo ri)"
  shows "RI_DeserializeFrom_buf old (Some (b, p)) RI_kSize = Some (True, ri)"
proof -
  have k: "RI_kSize = (8 + 4) + 8" by (simp add: RI_kSize_def)
  obtain d1 d2 d3 where d: "buf_read b p 8 = Some d1" "buf_read b (p + 8) 4 = Some d2"
    "buf_read b (p + 8 + 4) 8 = Some d3" and all: "(d1 @ d2) @ d3 = RI_SerializeTo ri"
    using assms unfolding k buf_read_append by (auto simp: bind_eq_Some_conv add.assoc)
  have "length d1 = 8" "length d2 = 4" "length d3 = 8"
    using d by (auto simp: buf_read_def split: if_splits)
  with all have "d1 = le_bytes 8 (ri_host_id ri)" "d2 = le_bytes 4 (ri_block_index ri)" "d3 = le_bytes 8 (ri_channel_id ri)"
    by (simp_all add: RI_SerializeTo_def)
  then show ?thesis using d by (simp add: RI_DeserializeFrom_buf_def)
qed

section \<open>Endpoints and transmitters\<close>

record endpoint =
  enabled :: bool
  ep_id :: identity
  ep_attr :: role_attributes

definition Endpoint :: "(byte list \<Rightarrow> u64) \<Rightarrow> byte list \<Rightarrow> string \<Rightarrow> int \<Rightarrow> role_attributes \<Rightarrow> endpoint" where
  "Endpoint H uuid host pid attr =
     (let i = Identity H (Some uuid);
          a1 = (if host_name_opt attr = None then attr\<lparr>host_name_opt := Some host\<rparr> else attr);
          a2 = (if process_id_opt a1 = None then a1\<lparr>process_id_opt := Some pid\<rparr> else a1);
          a3 = (if id_opt a2 = None then a2\<lparr>id_opt := Some (id_hash i)\<rparr> else a2)
      in \<lparr>enabled = False, ep_id = i, ep_attr = a3\<rparr>)"

record transmitter = endpoint +
  tr_seq_num :: u64
  tr_msg_info :: message_info

definition Transmitter :: "(byte list \<Rightarrow> u64) \<Rightarrow> byte list \<Rightarrow> string \<Rightarrow> int \<Rightarrow> role_attributes \<Rightarrow> transmitter" where
  "Transmitter H uuid host pid attr =
     (let e = Endpoint H uuid host pid attr
      in endpoint.extend e \<lparr>tr_seq_num = 0, tr_msg_info = (MessageInfo H)\<lparr>sender_id := ep_id e, seq_num := 0\<rparr>\<rparr>)"

definition NextSeqNum :: "'a transmitter_scheme \<Rightarrow> u64 \<times> 'a transmitter_scheme" where
  "NextSeqNum t = (tr_seq_num t + 1, t\<lparr>tr_seq_num := tr_seq_num t + 1\<rparr>)"

text \<open>\<open>Transmit(msg)\<close> stamps the next number on the stored information and calls the two-argument
  \<open>Transmit\<close> of the subclass.\<close>

definition stamp :: "'a transmitter_scheme \<Rightarrow> message_info \<times> 'a transmitter_scheme" where
  "stamp t = (let (n, t1) = NextSeqNum t; info = (tr_msg_info t1)\<lparr>seq_num := n\<rparr> in (info, t1\<lparr>tr_msg_info := info\<rparr>))"

definition Transmit_msg ::
  "('a transmitter_scheme \<Rightarrow> 'm \<Rightarrow> message_info \<Rightarrow> 'r) \<Rightarrow> 'a transmitter_scheme \<Rightarrow> 'm \<Rightarrow> 'r" where
  "Transmit_msg Transmit t msg = (let (info, t1) = stamp t in Transmit t1 msg info)"

lemma Endpoint_attr:
  "id_opt (ep_attr (Endpoint H uuid host pid attr)) = Some (pb_get (H (take ID_SIZE uuid)) (id_opt attr))"
  "channel_id_opt (ep_attr (Endpoint H uuid host pid attr)) = channel_id_opt attr"
  by (auto simp: Endpoint_def Let_def Identity_def id_Update_def split: option.split)

section \<open>Properties\<close>


definition demo_info :: message_info where
  "demo_info = MessageInfo_seq (\<lambda>_. 77) (Identity (\<lambda>_. 77) (Some [1, 2, 3, 4, 5, 6, 7, 8, 9, 10])) 258"


end
