(* ===== verification/Shm_Segment.thy ===== *)
theory Shm_Segment
  imports Shm_Block Message_Codec Cyber_Text
begin

text \<open>
  \<open>transport/shm/segment\<close> and \<open>transport/shm/posix_segment\<close>: a channel's segment as seen by one
  transmitter or dispatcher.

  POSIX shared memory is a store: a name leads to an object, objects stay as long as someone maps them, and
  removing a name leaves the object. System calls may fail; \<open>os\<close> says which kinds fail during an
  operation, and mapping an object of size zero always fails. The pointers \<open>state_\<close>, \<open>blocks_\<close> and
  \<open>managed_shm_\<close> are set and cleared together: they are the mapped object. An operation of a segment is
  atomic here, except that \<open>Recreate\<close> is split where another process can come between. Dereferencing a
  null \<open>state_\<close> or a block outside the array has no result (\<open>None\<close>).
\<close>

section \<open>Shared objects\<close>

record shm_state =
  need_remap :: bool
  st_seq :: u32
  reference_count :: u32
  st_ceiling_msg_size :: u64

definition State :: "u64 \<Rightarrow> shm_state" where
  "State ceiling = \<lparr>need_remap = False, st_seq = 0, reference_count = 0, st_ceiling_msg_size = ceiling\<rparr>"

definition DecreaseReferenceCounts :: "shm_state \<Rightarrow> shm_state" where
  "DecreaseReferenceCounts st = (if reference_count st = 0 then st else st\<lparr>reference_count := reference_count st - 1\<rparr>)"

definition IncreaseReferenceCounts :: "shm_state \<Rightarrow> shm_state" where
  "IncreaseReferenceCounts st = st\<lparr>reference_count := reference_count st + 1\<rparr>"

definition FetchAddSeq :: "u32 \<Rightarrow> shm_state \<Rightarrow> u32 \<times> shm_state" where
  "FetchAddSeq d st = (st_seq st, st\<lparr>st_seq := st_seq st + d\<rparr>)"

record block_data =
  bd_msg_size :: u64
  bd_msg_info_size :: u64
  bd_buf :: buffer

type_synonym block = "block_data shm_block"

definition Block :: "u64 \<Rightarrow> block" where
  "Block bufsize =
     \<lparr>bl_lock_num = 0, bl_data = \<lparr>bd_msg_size = 0, bd_msg_info_size = 0, bd_buf = \<lparr>buf_size = unat bufsize, buf_mem = (\<lambda>_. 0)\<rparr>\<rparr>\<rparr>"

record shm_object =
  ob_size :: nat
  ob_state :: shm_state
  ob_blocks :: "block list"

record shm_kernel =
  k_names :: "string \<Rightarrow> nat option"
  k_objs :: "nat \<Rightarrow> shm_object"
  k_next :: nat

record os_faults =
  shm_open_fails :: bool
  ftruncate_fails :: bool
  fstat_fails :: bool
  mmap_fails :: bool
  shm_unlink_fails :: bool

abbreviation no_faults :: os_faults where
  "no_faults \<equiv> \<lparr>shm_open_fails = False, ftruncate_fails = False, fstat_fails = False, mmap_fails = False, shm_unlink_fails = False\<rparr>"

definition upd_state :: "nat \<Rightarrow> (shm_state \<Rightarrow> shm_state) \<Rightarrow> shm_kernel \<Rightarrow> shm_kernel" where
  "upd_state ob f k = k\<lparr>k_objs := (k_objs k)(ob := (k_objs k ob)\<lparr>ob_state := f (ob_state (k_objs k ob))\<rparr>)\<rparr>"

definition upd_block :: "nat \<Rightarrow> nat \<Rightarrow> (block \<Rightarrow> block) \<Rightarrow> shm_kernel \<Rightarrow> shm_kernel" where
  "upd_block ob i f k =
     k\<lparr>k_objs := (k_objs k)(ob := (k_objs k ob)\<lparr>ob_blocks := (ob_blocks (k_objs k ob))[i := f (ob_blocks (k_objs k ob) ! i)]\<rparr>)\<rparr>"

section \<open>POSIX segments\<close>

record segment =
  sg_init :: bool
  sg_conf :: shm_conf
  sg_name :: string
  sg_map :: "nat option"
  sg_addrs :: "u32 \<Rightarrow> nat option"

definition PosixSegment :: "u64 \<Rightarrow> segment" where
  "PosixSegment channel =
     \<lparr>sg_init = False, sg_conf = ShmConf, sg_name = nat_to_string (unat channel), sg_map = None, sg_addrs = (\<lambda>_. None)\<rparr>"

text \<open>Mapping object \<open>ob\<close>: the configuration comes from its state, the addresses of all buffers are stored
  and the segment counts as a user.\<close>

definition attach :: "nat \<Rightarrow> segment \<times> shm_kernel \<Rightarrow> segment \<times> shm_kernel" where
  "attach ob = (\<lambda>(s, k).
     let conf = ShmConf_Update (st_ceiling_msg_size (ob_state (k_objs k ob)))
     in (s\<lparr>sg_init := True, sg_conf := conf, sg_map := Some ob,
           sg_addrs := (\<lambda>i. if i < block_num conf then Some (unat i) else sg_addrs s i)\<rparr>,
         upd_state ob IncreaseReferenceCounts k))"

definition OpenOnly :: "os_faults \<Rightarrow> segment \<times> shm_kernel \<Rightarrow> bool \<times> segment \<times> shm_kernel" where
  "OpenOnly os = (\<lambda>(s, k).
     if sg_init s then (True, s, k)
     else case k_names k (sg_name s) of
        None \<Rightarrow> (False, s, k)
      | Some ob \<Rightarrow>
          if shm_open_fails os \<or> fstat_fails os \<or> mmap_fails os \<or> ob_size (k_objs k ob) = 0 then (False, s, k)
          else (True, attach ob (s, k)))"

definition create :: "segment \<Rightarrow> nat \<Rightarrow> shm_object" where
  "create s sz =
     \<lparr>ob_size = sz, ob_state = State (ceiling_msg_size (sg_conf s)),
      ob_blocks = replicate (unat (block_num (sg_conf s))) (Block (block_buf_size (sg_conf s)))\<rparr>"

definition OpenOrCreate :: "os_faults \<Rightarrow> segment \<times> shm_kernel \<Rightarrow> bool \<times> segment \<times> shm_kernel" where
  "OpenOrCreate os = (\<lambda>(s, k).
     if sg_init s then (True, s, k)
     else case k_names k (sg_name s) of
        Some ob \<Rightarrow> OpenOnly os (s, k)
      | None \<Rightarrow>
          if shm_open_fails os then (False, s, k)
          else
            let ob = k_next k;
                obj = (\<lambda>sz. k\<lparr>k_names := (k_names k)(sg_name s := Some ob), k_objs := (k_objs k)(ob := create s sz),
                              k_next := ob + 1\<rparr>)
            in if ftruncate_fails os then (False, s, obj 0)
               else if mmap_fails os then (False, s, k)
               else (True, attach ob (s, obj (unat (managed_shm_size (sg_conf s))))))"

definition Remove :: "os_faults \<Rightarrow> segment \<times> shm_kernel \<Rightarrow> bool \<times> segment \<times> shm_kernel" where
  "Remove os = (\<lambda>(s, k).
     if shm_unlink_fails os \<or> k_names k (sg_name s) = None then (False, s, k)
     else (True, s, k\<lparr>k_names := (k_names k)(sg_name s := None)\<rparr>))"

definition Reset :: "segment \<Rightarrow> segment" where
  "Reset s = s\<lparr>sg_map := None, sg_addrs := (\<lambda>_. None)\<rparr>"

section \<open>Segments\<close>

definition Remap :: "os_faults \<Rightarrow> segment \<times> shm_kernel \<Rightarrow> bool \<times> segment \<times> shm_kernel" where
  "Remap os = (\<lambda>(s, k). OpenOnly os (Reset (s\<lparr>sg_init := False\<rparr>), k))"

text \<open>\<open>Recreate\<close> up to its call of \<open>OpenOrCreate\<close>.\<close>

definition Recreate_begin :: "os_faults \<Rightarrow> u64 \<Rightarrow> segment \<times> shm_kernel \<Rightarrow> (segment \<times> shm_kernel) option" where
  "Recreate_begin os msg_size = (\<lambda>(s, k).
     case sg_map s of
       None \<Rightarrow> None
     | Some ob \<Rightarrow>
         let k1 = upd_state ob (\<lambda>st. st\<lparr>need_remap := True\<rparr>) k;
             (_, s2, k2) = Remove os (Reset (s\<lparr>sg_init := False\<rparr>), k1)
         in Some (s2\<lparr>sg_conf := ShmConf_Update msg_size\<rparr>, k2))"

definition Recreate :: "os_faults \<Rightarrow> u64 \<Rightarrow> segment \<times> shm_kernel \<Rightarrow> (bool \<times> segment \<times> shm_kernel) option" where
  "Recreate os msg_size sk = map_option (OpenOrCreate os) (Recreate_begin os msg_size sk)"

partial_function (option) next_writable :: "u32 \<Rightarrow> shm_state \<Rightarrow> block list \<Rightarrow> (u32 \<times> shm_state \<times> block list) option" where
  "next_writable num st bs =
     (let (n, st') = FetchAddSeq 1 st; try_idx = n mod num
      in if unat try_idx < length bs then
           let (locked, b) = TryLockForWrite (bs ! unat try_idx)
           in if locked then Some (try_idx, st', bs[unat try_idx := b])
              else next_writable num st' bs
         else None)"

definition GetNextWritableBlockIndex :: "segment \<times> shm_kernel \<Rightarrow> (u32 \<times> shm_kernel) option" where
  "GetNextWritableBlockIndex = (\<lambda>(s, k).
     case sg_map s of
       None \<Rightarrow> None
     | Some ob \<Rightarrow>
         map_option (\<lambda>(idx, st, bs). (idx, k\<lparr>k_objs := (k_objs k)(ob := (k_objs k ob)\<lparr>ob_state := st, ob_blocks := bs\<rparr>)\<rparr>))
           (next_writable (block_num (sg_conf s)) (ob_state (k_objs k ob)) (ob_blocks (k_objs k ob))))"

text \<open>A block in use: its index, the block itself, and its buffer, which may be null.\<close>

record used_block =
  wb_index :: u32
  wb_block :: "nat \<times> nat"
  wb_buf :: "nat option"

definition checked_state :: "segment \<times> shm_kernel \<Rightarrow> shm_state option" where
  "checked_state = (\<lambda>(s, k). map_option (\<lambda>ob. ob_state (k_objs k ob)) (sg_map s))"

definition AcquireBlockToWrite ::
  "os_faults \<Rightarrow> u64 \<Rightarrow> segment \<times> shm_kernel \<Rightarrow> (used_block option \<times> segment \<times> shm_kernel) option" where
  "AcquireBlockToWrite os msg_size sk =
     (let (opened, sk1) = OpenOrCreate os sk
      in if \<not> opened then Some (None, sk1)
         else do {
           st \<leftarrow> checked_state sk1;
           let (r2, sk2) = (if need_remap st then Remap os sk1 else (True, sk1));
           (r3, sk3) \<leftarrow> (if msg_size > ceiling_msg_size (sg_conf (fst sk2)) then Recreate os msg_size sk2 else Some (r2, sk2));
           if \<not> r3 then Some (None, sk3)
           else do {
             (idx, k4) \<leftarrow> GetNextWritableBlockIndex sk3;
             ob \<leftarrow> sg_map (fst sk3);
             Some (Some \<lparr>wb_index = idx, wb_block = (ob, unat idx), wb_buf = sg_addrs (fst sk3) idx\<rparr>, fst sk3, k4)
           }
         })"

definition release_block :: "(block \<Rightarrow> block) \<Rightarrow> u32 \<Rightarrow> segment \<times> shm_kernel \<Rightarrow> shm_kernel option" where
  "release_block release idx = (\<lambda>(s, k).
     if idx \<ge> block_num (sg_conf s) then Some k
     else case sg_map s of
       None \<Rightarrow> None
     | Some ob \<Rightarrow> if unat idx < length (ob_blocks (k_objs k ob)) then Some (upd_block ob (unat idx) release k) else None)"

definition ReleaseWrittenBlock :: "used_block \<Rightarrow> segment \<times> shm_kernel \<Rightarrow> shm_kernel option" where
  "ReleaseWrittenBlock wb = release_block ReleaseWriteLock (wb_index wb)"

definition AcquireBlockToRead ::
  "os_faults \<Rightarrow> u32 \<Rightarrow> segment \<times> shm_kernel \<Rightarrow> (used_block option \<times> segment \<times> shm_kernel) option" where
  "AcquireBlockToRead os idx sk =
     (let (opened, sk1) = OpenOnly os sk
      in if \<not> opened then Some (None, sk1)
         else if idx \<ge> block_num (sg_conf (fst sk1)) then Some (None, sk1)
         else do {
           st \<leftarrow> checked_state sk1;
           let (r2, s2, k2) = (if need_remap st then Remap os sk1 else (True, sk1));
           if \<not> r2 then Some (None, s2, k2)
           else do {
             ob \<leftarrow> sg_map s2;
             if unat idx < length (ob_blocks (k_objs k2 ob)) then
               (let (locked, b) = TryLockForRead (ob_blocks (k_objs k2 ob) ! unat idx)
                in if \<not> locked then Some (None, s2, k2)
                   else Some (Some \<lparr>wb_index = idx, wb_block = (ob, unat idx), wb_buf = sg_addrs s2 idx\<rparr>,
                              s2, upd_block ob (unat idx) (\<lambda>_. b) k2))
             else None
           }
         })"

definition ReleaseReadBlock :: "used_block \<Rightarrow> segment \<times> shm_kernel \<Rightarrow> shm_kernel option" where
  "ReleaseReadBlock rb = release_block ReleaseReadLock (wb_index rb)"

definition Destroy :: "os_faults \<Rightarrow> segment \<times> shm_kernel \<Rightarrow> (bool \<times> segment \<times> shm_kernel) option" where
  "Destroy os = (\<lambda>(s, k).
     if \<not> sg_init s then Some (True, s, k)
     else case sg_map s of
       None \<Rightarrow> None
     | Some ob \<Rightarrow>
         let s1 = s\<lparr>sg_init := False\<rparr>; k1 = upd_state ob DecreaseReferenceCounts k
         in if reference_count (ob_state (k_objs k1 ob)) = 0 then Some (Remove os (s1, k1)) else Some (True, s1, k1))"

lemma counts_frame [simp]:
  "need_remap (IncreaseReferenceCounts st) = need_remap st" "need_remap (DecreaseReferenceCounts st) = need_remap st"
  "st_ceiling_msg_size (IncreaseReferenceCounts st) = st_ceiling_msg_size st"
  "st_ceiling_msg_size (DecreaseReferenceCounts st) = st_ceiling_msg_size st"
  by (simp_all add: IncreaseReferenceCounts_def DecreaseReferenceCounts_def)

section \<open>Finding a block to write\<close>

lemma pow2_mod:
  fixes x num :: u32
  assumes "num \<in> {512, 128, 64, 32, 16, 8}"
  shows "unat (x mod num) = unat x mod unat num" "unat (x + 1) mod unat num = (unat x + 1) mod unat num"
    "unat x mod unat num < unat num"
proof -
  have "unat num \<in> {512, 128, 64, 32, 16, 8}" using assms by (elim insertE emptyE) simp_all
  then have d: "unat num dvd 4294967296" "0 < unat num" by (elim insertE emptyE; simp)+
  show "unat (x mod num) = unat x mod unat num" by (rule unat_mod)
  have "unat (x + 1) = (unat x + 1) mod 4294967296" by (simp add: unat_word_ariths)
  then show "unat (x + 1) mod unat num = (unat x + 1) mod unat num" using d(1) by (simp add: mod_mod_cancel)
  show "unat x mod unat num < unat num" using d(2) by simp
qed

definition is_free :: "block \<Rightarrow> bool" where
  "is_free b \<longleftrightarrow> bl_lock_num b = RW_LOCK_FREE"

text \<open>The search takes the first free block from the current number on, cyclically.\<close>

lemma next_writable_first:
  assumes num: "num \<in> {512, 128, 64, 32, 16, 8}" and len: "length bs = unat num"
    and "is_free (bs ! ((unat (st_seq st) + n) mod unat num))"
    and "\<And>j. j < n \<Longrightarrow> \<not> is_free (bs ! ((unat (st_seq st) + j) mod unat num))"
  shows "\<exists>idx. unat idx = (unat (st_seq st) + n) mod unat num
    \<and> next_writable num st bs = Some (idx, st\<lparr>st_seq := st_seq st + of_nat n + 1\<rparr>, bs[unat idx := (bs ! unat idx)\<lparr>bl_lock_num := WRITE_EXCLUSIVE\<rparr>])"
  using assms(3,4)
proof (induction n arbitrary: st)
  case 0
  then show ?case
    by (subst next_writable.simps)
      (auto simp: FetchAddSeq_def pow2_mod [OF num] len TryLockForWrite_eq is_free_def intro!: exI [of _ "st_seq st mod num"])
next
  case (Suc n)
  define st' where "st' = st\<lparr>st_seq := st_seq st + 1\<rparr>"
  have shift: "(unat (st_seq st') + j) mod unat num = (unat (st_seq st) + Suc j) mod unat num" for j
    using mod_add_left_eq [of "unat (st_seq st')" "unat num" j] mod_add_left_eq [of "unat (st_seq st) + 1" "unat num" j]
      pow2_mod(2) [OF num, of "st_seq st"] by (simp add: st'_def)
  have "\<not> is_free (bs ! (unat (st_seq st) mod unat num))" using Suc.prems(2) [of 0] by simp
  then have "next_writable num st bs = next_writable num st' bs"
    by (subst next_writable.simps)
      (simp add: FetchAddSeq_def pow2_mod [OF num] len TryLockForWrite_eq is_free_def st'_def)
  moreover obtain idx where "unat idx = (unat (st_seq st) + Suc n) mod unat num"
    "next_writable num st' bs = Some (idx, st'\<lparr>st_seq := st_seq st' + of_nat n + 1\<rparr>, bs[unat idx := (bs ! unat idx)\<lparr>bl_lock_num := WRITE_EXCLUSIVE\<rparr>])"
    using Suc.IH [of st', unfolded shift, OF Suc.prems(1) Suc.prems(2) [OF Suc_mono]] unfolding shift by blast
  moreover have "st'\<lparr>st_seq := st_seq st' + of_nat n + 1\<rparr> = st\<lparr>st_seq := st_seq st + of_nat (Suc n) + 1\<rparr>"
    by (simp add: st'_def algebra_simps)
  ultimately show ?case by metis
qed

lemma next_writable_only_free:
  assumes "next_writable num st bs = Some r"
  shows "\<exists>b \<in> set bs. is_free b"
proof (rule next_writable.raw_induct [where P = "\<lambda>num st bs r. \<exists>b \<in> set bs. is_free b", OF _ assms])
  fix self and num :: u32 and st and bs :: "block list" and r
  assume "\<And>num st bs r. self num st bs = Some r \<Longrightarrow> \<exists>b \<in> set bs. is_free b"
    and "(let (n, st') = FetchAddSeq 1 st; try_idx = n mod num
      in if unat try_idx < length bs then
           let (locked, b) = TryLockForWrite (bs ! unat try_idx)
           in if locked then Some (try_idx, st', bs[unat try_idx := b]) else self num st' bs
         else None) = Some r"
  then show "\<exists>b \<in> set bs. is_free b"
    by (auto simp: TryLockForWrite_eq is_free_def Let_def split: prod.splits if_splits)
qed

lemma next_writable_finds:
  assumes num: "num \<in> {512, 128, 64, 32, 16, 8}" and len: "length bs = unat num" and "\<exists>b \<in> set bs. is_free b"
  shows "\<exists>idx n. n < unat num \<and> unat idx = (unat (st_seq st) + n) mod unat num \<and> is_free (bs ! unat idx)
    \<and> (\<forall>j<n. \<not> is_free (bs ! ((unat (st_seq st) + j) mod unat num)))
    \<and> next_writable num st bs = Some (idx, st\<lparr>st_seq := st_seq st + of_nat n + 1\<rparr>, bs[unat idx := (bs ! unat idx)\<lparr>bl_lock_num := WRITE_EXCLUSIVE\<rparr>])"
proof -
  obtain i where i: "i < unat num" "is_free (bs ! i)" using assms(3) len by (auto simp: in_set_conv_nth)
  let ?a = "unat (st_seq st) mod unat num"
  have "(unat (st_seq st) + (unat num - ?a + i) mod unat num) mod unat num = i"
  proof -
    have a: "?a < unat num" using pow2_mod(3) [OF num] .
    have "(unat (st_seq st) + (unat num - ?a + i) mod unat num) mod unat num = (?a + (unat num - ?a + i)) mod unat num"
      by (simp add: mod_add_eq mod_add_right_eq mod_add_left_eq)
    also have "?a + (unat num - ?a + i) = unat num + i" using a by linarith
    finally show ?thesis using i(1) by simp
  qed
  then have ex: "\<exists>n. is_free (bs ! ((unat (st_seq st) + n) mod unat num)) \<and> n < unat num"
    using i by (intro exI [of _ "(unat num - ?a + i) mod unat num"]) simp
  obtain n where free: "is_free (bs ! ((unat (st_seq st) + n) mod unat num))"
    and least: "\<And>j. j < n \<Longrightarrow> \<not> is_free (bs ! ((unat (st_seq st) + j) mod unat num))"
    using ex exists_least_iff [of "\<lambda>n. is_free (bs ! ((unat (st_seq st) + n) mod unat num))"] by blast
  have "n < unat num" using ex least by (meson le_less_trans not_less)
  with next_writable_first [OF num len free least] free least show ?thesis by metis
qed


section \<open>Many segments of one channel\<close>

text \<open>
  The transmitters and dispatchers of one channel in all processes, each with its segment. Destroying a
  segment ends its life; its place is taken by a new one.
\<close>

record shm_system =
  ss_segs :: "nat \<Rightarrow> segment"
  ss_kernel :: shm_kernel
  ss_ops :: nat

inductive seg_step :: "u64 \<Rightarrow> shm_system \<Rightarrow> shm_system \<Rightarrow> bool" for channel where
  sg_write: "AcquireBlockToWrite os n (ss_segs x i, ss_kernel x) = Some (r, s, k)
    \<Longrightarrow> seg_step channel x (x\<lparr>ss_segs := (ss_segs x)(i := s), ss_kernel := k, ss_ops := ss_ops x + 1\<rparr>)"
| sg_read: "AcquireBlockToRead os idx (ss_segs x i, ss_kernel x) = Some (r, s, k)
    \<Longrightarrow> seg_step channel x (x\<lparr>ss_segs := (ss_segs x)(i := s), ss_kernel := k, ss_ops := ss_ops x + 1\<rparr>)"
| sg_fill: "buf_size (bd_buf d) = buf_size (bd_buf (bl_data (ob_blocks (k_objs (ss_kernel x) ob) ! j)))
    \<Longrightarrow> seg_step channel x (x\<lparr>ss_kernel := upd_block ob j (\<lambda>b. b\<lparr>bl_data := d\<rparr>) (ss_kernel x)\<rparr>)"
| sg_release_write: "ReleaseWrittenBlock wb (ss_segs x i, ss_kernel x) = Some k \<Longrightarrow> seg_step channel x (x\<lparr>ss_kernel := k\<rparr>)"
| sg_release_read: "ReleaseReadBlock rb (ss_segs x i, ss_kernel x) = Some k \<Longrightarrow> seg_step channel x (x\<lparr>ss_kernel := k\<rparr>)"
| sg_destroy: "Destroy os (ss_segs x i, ss_kernel x) = Some (r, s, k)
    \<Longrightarrow> seg_step channel x (x\<lparr>ss_segs := (ss_segs x)(i := PosixSegment channel), ss_kernel := k\<rparr>)"

definition seg_system_init :: "u64 \<Rightarrow> shm_system \<Rightarrow> bool" where
  "seg_system_init channel x \<longleftrightarrow> ss_segs x = (\<lambda>_. PosixSegment channel) \<and> k_names (ss_kernel x) = (\<lambda>_. None)
     \<and> k_next (ss_kernel x) = 0 \<and> ss_ops x = 0"

definition users :: "(nat \<Rightarrow> segment) \<Rightarrow> nat \<Rightarrow> nat set" where
  "users segs ob = {i. sg_map (segs i) = Some ob}"

definition obj_ok :: "shm_object \<Rightarrow> bool" where
  "obj_ok obj \<longleftrightarrow> (\<exists>n. st_ceiling_msg_size (ob_state obj) = GetCeilingMessageSize n)
     \<and> length (ob_blocks obj) = unat (block_num (ShmConf_Update (st_ceiling_msg_size (ob_state obj))))
     \<and> (\<forall>b \<in> set (ob_blocks obj). buf_size (bd_buf (bl_data b)) = unat (st_ceiling_msg_size (ob_state obj)) + 1024)"

definition seg_ok :: "shm_kernel \<Rightarrow> segment \<Rightarrow> bool" where
  "seg_ok k s \<longleftrightarrow> (\<exists>n. sg_conf s = ShmConf_Update n) \<and> (sg_init s \<longleftrightarrow> sg_map s \<noteq> None)
     \<and> (\<forall>ob. sg_map s = Some ob \<longrightarrow> ob < k_next k \<and> 0 < ob_size (k_objs k ob)
          \<and> sg_conf s = ShmConf_Update (st_ceiling_msg_size (ob_state (k_objs k ob)))
          \<and> (\<forall>j < block_num (sg_conf s). sg_addrs s j = Some (unat j)))"

text \<open>
  The count of an object's users is at least the number of segments that map it; on an object that was
  given up it stays higher, because the segment that gave it up never decreases it.
\<close>

definition ref_ok :: "nat \<Rightarrow> nat set \<Rightarrow> shm_state \<Rightarrow> bool" where
  "ref_ok B U st \<longleftrightarrow> card U + of_bool (need_remap st) \<le> unat (reference_count st) \<and> unat (reference_count st) \<le> B"

definition shm_ok :: "string \<Rightarrow> nat \<Rightarrow> (nat \<Rightarrow> segment) \<Rightarrow> shm_kernel \<Rightarrow> bool" where
  "shm_ok nm B segs k \<longleftrightarrow> finite {i. sg_map (segs i) \<noteq> None}
     \<and> (\<forall>i. sg_name (segs i) = nm \<and> seg_ok k (segs i))
     \<and> (\<forall>ob < k_next k. obj_ok (k_objs k ob) \<and> ref_ok B (users segs ob) (ob_state (k_objs k ob)))
     \<and> (\<forall>ob. k_names k nm = Some ob \<longrightarrow> ob < k_next k)
     \<and> (\<forall>i ob. sg_map (segs i) = Some ob \<and> \<not> need_remap (ob_state (k_objs k ob)) \<longrightarrow> k_names k nm = Some ob)"

lemma shm_okI:
  assumes "finite {i. sg_map (segs i) \<noteq> None}" and "\<And>i. sg_name (segs i) = nm" and "\<And>i. seg_ok k (segs i)"
    and "\<And>ob. ob < k_next k \<Longrightarrow> obj_ok (k_objs k ob)"
    and "\<And>ob. ob < k_next k \<Longrightarrow> ref_ok B (users segs ob) (ob_state (k_objs k ob))"
    and "\<And>ob. k_names k nm = Some ob \<Longrightarrow> ob < k_next k"
    and "\<And>i ob. sg_map (segs i) = Some ob \<Longrightarrow> \<not> need_remap (ob_state (k_objs k ob)) \<Longrightarrow> k_names k nm = Some ob"
  shows "shm_ok nm B segs k"
  using assms unfolding shm_ok_def by blast

lemma shm_okD:
  assumes "shm_ok nm B segs k"
  shows "finite {i. sg_map (segs i) \<noteq> None}" "sg_name (segs i) = nm" "seg_ok k (segs i)"
    "ob < k_next k \<Longrightarrow> obj_ok (k_objs k ob)"
    "ob < k_next k \<Longrightarrow> ref_ok B (users segs ob) (ob_state (k_objs k ob))"
    "k_names k nm = Some ob \<Longrightarrow> ob < k_next k"
    "sg_map (segs i) = Some ob \<Longrightarrow> \<not> need_remap (ob_state (k_objs k ob)) \<Longrightarrow> k_names k nm = Some ob"
  using assms unfolding shm_ok_def by blast+

lemma users_upd:
  "users (segs(i := s)) ob = (if sg_map s = Some ob then insert i (users segs ob) else users segs ob - {i})"
  by (auto simp: users_def)

lemma users_finite: "finite {i. sg_map (segs i) \<noteq> None} \<Longrightarrow> finite (users segs ob)"
  by (rule finite_subset [rotated]) (auto simp: users_def)

lemma map_finite_upd: "finite {i. sg_map (segs i) \<noteq> None} \<Longrightarrow> finite {j. sg_map ((segs(i := s)) j) \<noteq> None}"
  by (rule finite_subset [of _ "insert i {i. sg_map (segs i) \<noteq> None}"]) auto

lemma ref_ok_mono: "ref_ok B U st \<Longrightarrow> B \<le> C \<Longrightarrow> V \<subseteq> U \<Longrightarrow> finite U \<Longrightarrow> ref_ok C V st"
  using card_mono [of U V] by (simp add: ref_ok_def)

lemma shm_ok_mono: "shm_ok nm B segs k \<Longrightarrow> B \<le> C \<Longrightarrow> shm_ok nm C segs k"
  unfolding shm_ok_def ref_ok_def by (meson order_trans)

lemma seg_ok_frame:
  assumes "seg_ok k s" and "k_next k \<le> k_next k'"
    and "\<And>ob. ob < k_next k \<Longrightarrow> ob_size (k_objs k' ob) = ob_size (k_objs k ob)"
    and "\<And>ob. ob < k_next k \<Longrightarrow> st_ceiling_msg_size (ob_state (k_objs k' ob)) = st_ceiling_msg_size (ob_state (k_objs k ob))"
  shows "seg_ok k' s"
  using assms(1) by (auto simp: seg_ok_def assms(3,4) intro: less_le_trans [OF _ assms(2)])

text \<open>Letting go of the mapping, as \<open>Reset\<close> does.\<close>

lemma shm_ok_detach:
  assumes "shm_ok nm B segs k"
  shows "shm_ok nm B (segs(i := Reset ((segs i)\<lparr>sg_init := False\<rparr>))) k" (is "shm_ok nm B ?segs k")
proof (rule shm_okI)
  show "finite {i. sg_map (?segs i) \<noteq> None}" by (rule map_finite_upd [OF shm_okD(1) [OF assms]])
  show "seg_ok k (?segs j)" for j
    using shm_okD(3) [OF assms, of j] by (auto simp: seg_ok_def Reset_def)
  show "ref_ok B (users ?segs ob) (ob_state (k_objs k ob))" if "ob < k_next k" for ob
    using ref_ok_mono [OF shm_okD(5) [OF assms that] order_refl] users_finite [OF shm_okD(1) [OF assms]]
    by (simp add: users_upd Reset_def)
qed (use shm_okD [OF assms] in \<open>auto simp: Reset_def split: if_splits\<close>)

text \<open>Mapping an object, by a segment that maps none: the named object, or a new one that gets the name.\<close>

lemma shm_ok_attach:
  assumes ok: "shm_ok nm B segs k" and B: "B + 1 < 4294967296" and free: "sg_map (segs i) = None"
    and ob: "k_names k nm = Some ob" "0 < ob_size (k_objs k ob)" and eq: "attach ob (segs i, k) = (s, k')"
  shows "shm_ok nm (B + 1) (segs(i := s)) k' \<and> sg_init s \<and> sg_map s = Some ob \<and> k_names k' nm = Some ob
    \<and> sg_conf s = ShmConf_Update (st_ceiling_msg_size (ob_state (k_objs k ob)))"
proof -
  define st where "st = ob_state (k_objs k ob)"
  have lt: "ob < k_next k" using shm_okD(6) [OF ok ob(1)] .
  have k': "k' = upd_state ob IncreaseReferenceCounts k" and s: "sg_map s = Some ob" "sg_init s" "sg_name s = sg_name (segs i)"
    "sg_conf s = ShmConf_Update (st_ceiling_msg_size st)" "\<And>j. j < block_num (sg_conf s) \<Longrightarrow> sg_addrs s j = Some (unat j)"
    using eq by (auto simp: attach_def Let_def st_def)
  have kf: "k_next k' = k_next k" "k_names k' = k_names k"
    "k_objs k' x = (if x = ob then (k_objs k ob)\<lparr>ob_state := IncreaseReferenceCounts st\<rparr> else k_objs k x)" for x
    by (auto simp: k' upd_state_def st_def)
  have count: "unat (reference_count (IncreaseReferenceCounts st)) = unat (reference_count st) + 1"
    using shm_okD(5) [OF ok lt] B by (simp add: IncreaseReferenceCounts_def ref_ok_def st_def unat_word_ariths)
  have "shm_ok nm (B + 1) (segs(i := s)) k'"
  proof (rule shm_okI)
    show "finite {j. sg_map ((segs(i := s)) j) \<noteq> None}" by (rule map_finite_upd [OF shm_okD(1) [OF ok]])
    show "sg_name ((segs(i := s)) j) = nm" for j using shm_okD(2) [OF ok] s by simp
    show "seg_ok k' ((segs(i := s)) j)" for j
    proof (cases "j = i")
      case True
      then show ?thesis using s lt ob(2) by (auto simp: seg_ok_def kf st_def)
    next
      case False
      then show ?thesis using seg_ok_frame [OF shm_okD(3) [OF ok, of j], of k'] by (simp add: kf st_def)
    qed
    show "obj_ok (k_objs k' x)" if "x < k_next k'" for x
      using shm_okD(4) [OF ok, of x] that by (auto simp: kf obj_ok_def st_def)
    show "ref_ok (B + 1) (users (segs(i := s)) x) (ob_state (k_objs k' x))" if "x < k_next k'" for x
    proof -
      have "i \<notin> users segs x" using free by (simp add: users_def)
      then show ?thesis
        using shm_okD(5) [OF ok, of x] that users_finite [OF shm_okD(1) [OF ok], of x] count [unfolded st_def]
        by (auto simp: users_upd s kf ref_ok_def st_def)
    qed
    show "x < k_next k'" if "k_names k' nm = Some x" for x using shm_okD(6) [OF ok, of x] that by (simp add: kf)
    show "k_names k' nm = Some x" if "sg_map ((segs(i := s)) j) = Some x" "\<not> need_remap (ob_state (k_objs k' x))" for j x
      using shm_okD(7) [OF ok, of j x] that ob(1) s by (auto simp: kf st_def split: if_splits)
  qed
  then show ?thesis using s ob(1) by (simp add: kf st_def)
qed

lemma Update_ceiling_of: "st_ceiling_msg_size st = GetCeilingMessageSize n \<Longrightarrow> ShmConf_Update (st_ceiling_msg_size st) = ShmConf_Update n"
  using Update_ceiling [of n] by simp

lemma create_ok:
  assumes "sg_conf s = ShmConf_Update n"
  shows "obj_ok (create s sz)"
  using assms buf_size_Update [of n] Update_ceiling [of n]
  by (auto simp: obj_ok_def create_def State_def Block_def simp del: Update_ceiling)

lemma shm_ok_create:
  assumes ok: "shm_ok nm B segs k" and no: "k_names k nm = None"
    and k': "k' = k\<lparr>k_names := (k_names k)(nm := Some (k_next k)), k_objs := (k_objs k)(k_next k := create (segs i) sz), k_next := k_next k + 1\<rparr>"
  shows "shm_ok nm B segs k'"
proof (rule shm_okI)
  have old: "x < k_next k" if "sg_map (segs j) = Some x" for j x
    using shm_okD(3) [OF ok, of j] that by (simp add: seg_ok_def)
  show "seg_ok k' (segs j)" for j using seg_ok_frame [OF shm_okD(3) [OF ok, of j], of k'] by (simp add: k')
  show "obj_ok (k_objs k' x)" if "x < k_next k'" for x
    using shm_okD(4) [OF ok, of x] shm_okD(3) [OF ok, of i] that create_ok by (auto simp: k' seg_ok_def less_Suc_eq)
  show "ref_ok B (users segs x) (ob_state (k_objs k' x))" if "x < k_next k'" for x
  proof (cases "x = k_next k")
    case True
    have "users segs x = {}" using old True by (auto simp: users_def)
    then show ?thesis by (simp add: True k' ref_ok_def create_def State_def)
  qed (use shm_okD(5) [OF ok, of x] that in \<open>simp add: k'\<close>)
  show "k_names k' nm = Some x" if "sg_map (segs j) = Some x" "\<not> need_remap (ob_state (k_objs k' x))" for j x
    using shm_okD(7) [OF ok that(1)] old [OF that(1)] that(2) no by (simp add: k')
qed (use shm_okD(1,2) [OF ok] shm_okD(6) [OF ok] in \<open>auto simp: k' split: if_splits\<close>)

text \<open>What an opening operation promises.\<close>

definition opened :: "string \<Rightarrow> nat \<Rightarrow> (nat \<Rightarrow> segment) \<Rightarrow> nat \<Rightarrow> bool \<times> segment \<times> shm_kernel \<Rightarrow> bool" where
  "opened nm B segs i res = (case res of (r, s, k) \<Rightarrow> shm_ok nm B (segs(i := s)) k
     \<and> (if r then \<exists>ob. sg_map s = Some ob \<and> (sg_init (segs i) \<or> k_names k nm = Some ob) else s = segs i))"

lemma opened_already:
  assumes "shm_ok nm B segs k" and "r \<longrightarrow> sg_init (segs i)"
  shows "opened nm B segs i (r, segs i, k)"
proof -
  have "\<exists>ob. sg_map (segs i) = Some ob" if r using shm_okD(3) [OF assms(1), of i] assms(2) that by (auto simp: seg_ok_def)
  then show ?thesis using assms by (auto simp: opened_def fun_upd_idem)
qed

lemma opened_mono: "opened nm B segs i res \<Longrightarrow> B \<le> C \<Longrightarrow> opened nm C segs i res"
  by (auto simp: opened_def intro: shm_ok_mono)

lemma opened_attach:
  assumes "shm_ok nm B segs k" and "B + 1 < 4294967296" and "sg_map (segs i) = None"
    and "k_names k nm = Some ob" and "0 < ob_size (k_objs k ob)"
  shows "opened nm (B + 1) segs i (True, attach ob (segs i, k))"
proof (cases "attach ob (segs i, k)")
  case (Pair s k')
  then show ?thesis using shm_ok_attach [OF assms Pair] by (simp add: opened_def)
qed

lemma opened_OpenOnly:
  assumes ok: "shm_ok nm B segs k" and B: "B + 1 < 4294967296"
  shows "opened nm (B + 1) segs i (OpenOnly os (segs i, k))"
proof (cases "sg_init (segs i) \<or> \<not> fst (OpenOnly os (segs i, k))")
  case True
  then have "OpenOnly os (segs i, k) = (fst (OpenOnly os (segs i, k)), segs i, k)"
    by (auto simp: OpenOnly_def split: option.splits)
  then show ?thesis using opened_mono [OF opened_already [OF ok, of "fst (OpenOnly os (segs i, k))" i]] True
    by (metis le_add1)
next
  case False
  then obtain ob where ob: "k_names k nm = Some ob" "0 < ob_size (k_objs k ob)" "OpenOnly os (segs i, k) = (True, attach ob (segs i, k))"
    using shm_okD(2) [OF ok, of i] by (auto simp: OpenOnly_def split: option.splits if_splits)
  moreover have "sg_map (segs i) = None" using False shm_okD(3) [OF ok, of i] by (auto simp: seg_ok_def)
  ultimately show ?thesis using opened_attach [OF ok B] by simp
qed

lemma opened_OpenOrCreate:
  assumes ok: "shm_ok nm B segs k" and B: "B + 1 < 4294967296"
  shows "opened nm (B + 1) segs i (OpenOrCreate os (segs i, k))"
proof (cases "sg_init (segs i) \<or> k_names k nm \<noteq> None")
  case True
  then have "OpenOrCreate os (segs i, k) = (True, segs i, k) \<and> sg_init (segs i) \<or> OpenOrCreate os (segs i, k) = OpenOnly os (segs i, k)"
    using shm_okD(2) [OF ok, of i] by (auto simp: OpenOrCreate_def split: option.split)
  then show ?thesis
    using opened_OpenOnly [OF ok B, of i os] opened_mono [OF opened_already [OF ok, of True i]] by (metis le_add1)
next
  case False
  then have none: "k_names k nm = None" and free: "sg_map (segs i) = None" and "\<not> sg_init (segs i)"
    using shm_okD(3) [OF ok, of i] by (auto simp: seg_ok_def)
  define mk where "mk sz = k\<lparr>k_names := (k_names k)(nm := Some (k_next k)), k_objs := (k_objs k)(k_next k := create (segs i) sz), k_next := k_next k + 1\<rparr>" for sz
  let ?sz = "unat (managed_shm_size (sg_conf (segs i)))"
  have mk: "shm_ok nm B segs (mk sz)" for sz by (rule shm_ok_create [OF ok none mk_def])
  have "0 < ?sz" using shm_okD(3) [OF ok, of i] managed_pos by (auto simp: seg_ok_def)
  then have att: "opened nm (B + 1) segs i (True, attach (k_next k) (segs i, mk ?sz))"
    using opened_attach [OF mk B free, of ?sz "k_next k"] by (simp add: mk_def create_def)
  have "OpenOrCreate os (segs i, k) \<in> {(False, segs i, k), (False, segs i, mk 0), (True, attach (k_next k) (segs i, mk ?sz))}"
    using none shm_okD(2) [OF ok, of i] \<open>\<not> sg_init (segs i)\<close> by (auto simp: OpenOrCreate_def mk_def Let_def)
  then show ?thesis
    using att opened_mono [OF opened_already [OF ok, of False i]] opened_mono [OF opened_already [OF mk [of 0], of False i]]
    by (elim insertE) auto
qed

lemma Remap_ok:
  assumes "shm_ok nm B segs k" and "B + 1 < 4294967296" and "Remap os (segs i, k) = (r, s, k')"
  shows "shm_ok nm (B + 1) (segs(i := s)) k'"
    "if r then \<exists>ob. sg_map s = Some ob \<and> k_names k' nm = Some ob else sg_map s = None"
  using opened_OpenOnly [OF shm_ok_detach [OF assms(1), of i] assms(2), of i os] assms(3)
  by (auto simp: Remap_def opened_def Reset_def split: if_splits)

lemma Recreate_begin_ok:
  assumes ok: "shm_ok nm B segs k" and ob: "sg_map (segs i) = Some ob"
    and named: "k_names k nm = Some ob"
    and eq: "Recreate_begin os n (segs i, k) = Some (s, k')"
  shows "shm_ok nm B (segs(i := s)) k'"
proof -
  define k1 where "k1 = upd_state ob (\<lambda>st. st\<lparr>need_remap := True\<rparr>) k"
  define s1 where "s1 = Reset ((segs i)\<lparr>sg_init := False\<rparr>)"
  have s: "s = s1\<lparr>sg_conf := ShmConf_Update n\<rparr>" and k': "k' = k1 \<or> k' = k1\<lparr>k_names := (k_names k1)(nm := None)\<rparr>"
    using eq ob shm_okD(2) [OF ok, of i] by (auto simp: Recreate_begin_def Let_def Remove_def k1_def s1_def Reset_def split: if_splits)
  have k1: "k_next k1 = k_next k" "k_names k1 = k_names k"
    "k_objs k1 x = (if x = ob then (k_objs k ob)\<lparr>ob_state := (ob_state (k_objs k ob))\<lparr>need_remap := True\<rparr>\<rparr> else k_objs k x)" for x
    by (simp_all add: k1_def upd_state_def)
  have kf: "k_next k' = k_next k" "k_objs k' = k_objs k1" using k' k1(1) by auto
  have names: "k_names k' nm = k_names k nm \<or> k_names k' nm = None" using k' k1(2) by auto
  have sf: "sg_map s = None" "sg_init s = False" "sg_name s = nm" "sg_conf s = ShmConf_Update n"
    using shm_okD(2) [OF ok, of i] by (simp_all add: s s1_def Reset_def)
  show ?thesis
  proof (rule shm_okI)
    show "finite {j. sg_map ((segs(i := s)) j) \<noteq> None}" by (rule map_finite_upd [OF shm_okD(1) [OF ok]])
    show "sg_name ((segs(i := s)) j) = nm" for j using shm_okD(2) [OF ok] sf by simp
    show "seg_ok k' ((segs(i := s)) j)" for j
      using seg_ok_frame [OF shm_okD(3) [OF ok, of j], of k'] sf by (auto simp: seg_ok_def [of k' s] kf k1)
    show "obj_ok (k_objs k' x)" if "x < k_next k'" for x
      using shm_okD(4) [OF ok, of x] that by (auto simp: kf k1 obj_ok_def)
    show "ref_ok B (users (segs(i := s)) x) (ob_state (k_objs k' x))" if "x < k_next k'" for x
    proof (cases "x = ob")
      case True
      have "i \<in> users segs ob" using ob by (simp add: users_def)
      then have "card (users segs ob) = Suc (card (users segs ob - {i}))"
        using card_Suc_Diff1 users_finite [OF shm_okD(1) [OF ok]] by metis
      then show ?thesis
        using shm_okD(5) [OF ok, of ob] that True by (simp add: users_upd sf kf k1 ref_ok_def)
    next
      case False
      then show ?thesis
        using ref_ok_mono [OF shm_okD(5) [OF ok, of x] order_refl] that users_finite [OF shm_okD(1) [OF ok]]
        by (simp add: users_upd sf kf k1)
    qed
    show "x < k_next k'" if "k_names k' nm = Some x" for x using names shm_okD(6) [OF ok, of x] that by (auto simp: kf)
    show "k_names k' nm = Some x" if "sg_map ((segs(i := s)) j) = Some x" "\<not> need_remap (ob_state (k_objs k' x))" for j x
      using shm_okD(7) [OF ok, of j x] named that sf by (auto simp: kf k1 split: if_splits)
  qed
qed

text \<open>Changes of the numbers and the blocks only.\<close>

lemma map_update_same:
  assumes "f y = f (xs ! j)"
  shows "map f (xs[j := y]) = map f xs"
  by (cases "j < length xs") (simp_all add: map_update assms list_update_same_conv list_update_beyond)

definition same_shape :: "shm_object \<Rightarrow> shm_object \<Rightarrow> bool" where
  "same_shape x y \<longleftrightarrow> ob_size x = ob_size y \<and> need_remap (ob_state x) = need_remap (ob_state y)
     \<and> reference_count (ob_state x) = reference_count (ob_state y)
     \<and> st_ceiling_msg_size (ob_state x) = st_ceiling_msg_size (ob_state y)
     \<and> map (\<lambda>b. buf_size (bd_buf (bl_data b))) (ob_blocks x) = map (\<lambda>b. buf_size (bd_buf (bl_data b))) (ob_blocks y)"

lemma same_shape_refl [simp]: "same_shape x x"
  by (simp add: same_shape_def)

lemma obj_ok_shape:
  assumes "same_shape x y" and "obj_ok x"
  shows "obj_ok y"
proof -
  let ?f = "\<lambda>b :: block. buf_size (bd_buf (bl_data b))"
  have m: "map ?f (ob_blocks x) = map ?f (ob_blocks y)" using assms(1) by (simp add: same_shape_def)
  then have "length (ob_blocks x) = length (ob_blocks y)" using map_eq_imp_length_eq by blast
  moreover have "?f ` set (ob_blocks x) = ?f ` set (ob_blocks y)" using m by (metis list.set_map)
  moreover have all: "(\<forall>b \<in> set (ob_blocks z). ?f b = c) \<longleftrightarrow> ?f ` set (ob_blocks z) \<subseteq> {c}" for z c
    by auto
  ultimately show ?thesis using assms unfolding obj_ok_def all same_shape_def by simp
qed

lemma shm_ok_shape:
  assumes ok: "shm_ok nm B segs k" and kf: "k_next k' = k_next k" "k_names k' = k_names k"
    and sh: "\<And>x. same_shape (k_objs k x) (k_objs k' x)"
  shows "shm_ok nm B segs k'"
proof (rule shm_okI)
  have f: "ob_size (k_objs k' x) = ob_size (k_objs k x)" "need_remap (ob_state (k_objs k' x)) = need_remap (ob_state (k_objs k x))"
    "reference_count (ob_state (k_objs k' x)) = reference_count (ob_state (k_objs k x))"
    "st_ceiling_msg_size (ob_state (k_objs k' x)) = st_ceiling_msg_size (ob_state (k_objs k x))" for x
    using sh [of x] by (simp_all add: same_shape_def)
  show "seg_ok k' (segs j)" for j using seg_ok_frame [OF shm_okD(3) [OF ok, of j], of k'] by (simp add: kf f)
  show "obj_ok (k_objs k' x)" if "x < k_next k'" for x
    using obj_ok_shape [OF sh] shm_okD(4) [OF ok] that by (simp add: kf)
  show "ref_ok B (users segs x) (ob_state (k_objs k' x))" if "x < k_next k'" for x
    using shm_okD(5) [OF ok, of x] that by (simp add: kf f ref_ok_def)
  show "k_names k' nm = Some x" if "sg_map (segs j) = Some x" "\<not> need_remap (ob_state (k_objs k' x))" for j x
    using shm_okD(7) [OF ok that(1)] that(2) by (simp add: kf f)
qed (use shm_okD(1,2) [OF ok] shm_okD(6) [OF ok] in \<open>auto simp: kf\<close>)

lemma shm_ok_upd_block:
  assumes ok: "shm_ok nm B segs k"
    and f: "buf_size (bd_buf (bl_data (f (ob_blocks (k_objs k ob) ! j)))) = buf_size (bd_buf (bl_data (ob_blocks (k_objs k ob) ! j)))"
  shows "shm_ok nm B segs (upd_block ob j f k)"
proof (rule shm_ok_shape [OF ok])
  show "same_shape (k_objs k x) (k_objs (upd_block ob j f k) x)" for x
    using map_update_same [of "\<lambda>b. buf_size (bd_buf (bl_data b))", OF f] by (simp add: same_shape_def upd_block_def)
qed (simp_all add: upd_block_def)

lemma next_writable_shape:
  assumes "next_writable num st bs = Some (idx, st', bs')"
  shows "need_remap st' = need_remap st \<and> reference_count st' = reference_count st \<and> st_ceiling_msg_size st' = st_ceiling_msg_size st
    \<and> map (\<lambda>b. buf_size (bd_buf (bl_data b))) bs' = map (\<lambda>b. buf_size (bd_buf (bl_data b))) bs"
proof -
  let ?P = "\<lambda>num st bs r. case r of (idx, st', bs') \<Rightarrow> need_remap st' = need_remap st \<and> reference_count st' = reference_count st
    \<and> st_ceiling_msg_size st' = st_ceiling_msg_size st
    \<and> map (\<lambda>b. buf_size (bd_buf (bl_data b))) bs' = map (\<lambda>b. buf_size (bd_buf (bl_data b))) (bs :: block list)"
  have "?P num st bs (idx, st', bs')"
  proof (rule next_writable.raw_induct [where P = ?P, OF _ assms])
    fix self and num :: u32 and st and bs :: "block list" and r
    assume IH: "\<And>num st bs r. self num st bs = Some r \<Longrightarrow> ?P num st bs r"
      and eq: "(let (n, st') = FetchAddSeq 1 st; try_idx = n mod num
        in if unat try_idx < length bs then
             let (locked, b) = TryLockForWrite (bs ! unat try_idx)
             in if locked then Some (try_idx, st', bs[unat try_idx := b]) else self num st' bs
           else None) = Some r"
    have upd: "map (\<lambda>b. buf_size (bd_buf (bl_data b))) (bs[j := (bs ! j)\<lparr>bl_lock_num := v\<rparr>]) = map (\<lambda>b. buf_size (bd_buf (bl_data b))) bs" for j v
      by (rule map_update_same) simp
    show "?P num st bs r"
      using eq IH [of num "st\<lparr>st_seq := st_seq st + 1\<rparr>" bs r]
      by (auto simp: TryLockForWrite_eq FetchAddSeq_def Let_def upd split: if_splits)
  qed
  then show ?thesis by simp
qed

lemma GetNextWritable_ok:
  assumes ok: "shm_ok nm B segs k" and eq: "GetNextWritableBlockIndex (s, k) = Some (idx, k')"
  shows "shm_ok nm B segs k'"
proof (rule shm_ok_shape [OF ok])
  obtain ob st bs where nw: "next_writable (block_num (sg_conf s)) (ob_state (k_objs k ob)) (ob_blocks (k_objs k ob)) = Some (idx, st, bs)"
    and k': "k' = k\<lparr>k_objs := (k_objs k)(ob := (k_objs k ob)\<lparr>ob_state := st, ob_blocks := bs\<rparr>)\<rparr>"
    using eq by (auto simp: GetNextWritableBlockIndex_def split: option.splits)
  show "k_next k' = k_next k" "k_names k' = k_names k" by (simp_all add: k')
  show "same_shape (k_objs k x) (k_objs k' x)" for x using next_writable_shape [OF nw] by (simp add: k' same_shape_def)
qed

lemma Acquire_write_ok:
  assumes ok: "shm_ok nm B segs k" and B: "B + 3 < 4294967296"
    and eq: "AcquireBlockToWrite os n (segs i, k) = Some (r, s, k')"
  shows "shm_ok nm (B + 3) (segs(i := s)) k'"
proof (cases "fst (OpenOrCreate os (segs i, k))")
  case False
  then show ?thesis
    using eq opened_OpenOrCreate [OF ok, of i os] B by (auto simp: AcquireBlockToWrite_def opened_def intro: shm_ok_mono split: prod.splits if_splits)
next
  case True
  then obtain s1 k1 where o1: "OpenOrCreate os (segs i, k) = (True, s1, k1)" by (metis prod.collapse)
  then obtain ob1 where ok1: "shm_ok nm (B + 1) (segs(i := s1)) k1" and ob1: "sg_map s1 = Some ob1"
    using opened_OpenOrCreate [OF ok, of i os] B by (auto simp: opened_def)
  obtain r2 s2 k2 where o2: "(if need_remap (ob_state (k_objs k1 ob1)) then Remap os (s1, k1) else (True, s1, k1)) = (r2, s2, k2)"
    by (metis prod.collapse)
  have ok2: "shm_ok nm (B + 2) (segs(i := s2)) k2"
    and ob2: "if r2 then \<exists>ob. sg_map s2 = Some ob \<and> k_names k2 nm = Some ob else sg_map s2 = None"
    using Remap_ok [OF ok1, of os i r2 s2 k2] o2 B shm_ok_mono [OF ok1, of "B + 2"] ob1 shm_okD(7) [OF ok1, of i ob1]
    by (auto split: if_splits)
  obtain r3 s3 k3 where o3: "(if n > ceiling_msg_size (sg_conf s2) then Recreate os n (s2, k2) else Some (r2, s2, k2)) = Some (r3, s3, k3)"
    and rest: "if r3 then \<exists>idx. GetNextWritableBlockIndex (s3, k3) = Some (idx, k') \<and> s = s3 else s = s3 \<and> k' = k3"
    using eq o1 ob1 o2 by (auto simp: AcquireBlockToWrite_def checked_state_def bind_eq_Some_conv split: if_splits)
  have ok3: "shm_ok nm (B + 3) (segs(i := s3)) k3"
  proof (cases "n > ceiling_msg_size (sg_conf s2)")
    case True
    then obtain s' kk where rb: "Recreate_begin os n (s2, k2) = Some (s', kk)" and o: "OpenOrCreate os (s', kk) = (r3, s3, k3)"
      using o3 by (auto simp: Recreate_def)
    from rb obtain ob where "sg_map s2 = Some ob" by (auto simp: Recreate_begin_def split: option.splits)
    then have "shm_ok nm (B + 2) (segs(i := s')) kk"
      using Recreate_begin_ok [OF ok2, of i ob os n s' kk] ob2 rb by (auto split: if_splits)
    from opened_OpenOrCreate [OF this, of i os] o B show ?thesis by (simp add: opened_def numeral_3_eq_3)
  qed (use o3 ok2 in \<open>auto intro: shm_ok_mono\<close>)
  then show ?thesis using rest GetNextWritable_ok by (auto split: if_splits)
qed

lemma Acquire_read_ok:
  assumes ok: "shm_ok nm B segs k" and B: "B + 3 < 4294967296"
    and eq: "AcquireBlockToRead os idx (segs i, k) = Some (r, s, k')"
  shows "shm_ok nm (B + 3) (segs(i := s)) k'"
proof -
  obtain r1 s1 k1 where o1: "OpenOnly os (segs i, k) = (r1, s1, k1)" by (metis prod.collapse)
  then have ok1: "shm_ok nm (B + 1) (segs(i := s1)) k1"
    using opened_OpenOnly [OF ok, of i os] B by (auto simp: opened_def)
  show ?thesis
  proof (cases "r1 \<and> idx < block_num (sg_conf s1)")
    case False
    then show ?thesis using eq o1 shm_ok_mono [OF ok1, of "B + 3"] by (auto simp: AcquireBlockToRead_def split: if_splits)
  next
    case True
    then have r1: r1 and nb: "(block_num (sg_conf s1) \<le> idx) = False" by (simp_all add: not_le)
    obtain ob1 where ob1: "sg_map s1 = Some ob1"
      using eq o1 r1 by (auto simp: AcquireBlockToRead_def checked_state_def bind_eq_Some_conv nb)
    obtain r2 s2 k2 where o2: "(if need_remap (ob_state (k_objs k1 ob1)) then Remap os (s1, k1) else (True, s1, k1)) = (r2, s2, k2)"
      by (metis prod.collapse)
    have "shm_ok nm (B + 2) (segs(i := s2)) k2"
      using Remap_ok [OF ok1, of os i r2 s2 k2] o2 B shm_ok_mono [OF ok1, of "B + 2"] by (auto split: if_splits)
    then have ok2: "shm_ok nm (B + 3) (segs(i := s2)) k2" by (rule shm_ok_mono) simp
    show ?thesis
      using eq o1 ob1 o2 r1 ok2
      by (auto simp: AcquireBlockToRead_def checked_state_def bind_eq_Some_conv TryLockForRead_eq nb
          intro: shm_ok_upd_block split: if_splits)
  qed
qed

lemma release_ok:
  assumes ok: "shm_ok nm B segs k" and f: "\<And>b. bl_data (f b) = bl_data b" and eq: "release_block f idx (s, k) = Some k'"
  shows "shm_ok nm B segs k'"
  using eq shm_ok_upd_block [OF ok] ok f by (auto simp: release_block_def split: if_splits option.splits)

lemma new_segment_ok: "seg_ok k (PosixSegment channel)"
  by (auto simp: seg_ok_def PosixSegment_def ShmConf_def)

lemma Destroy_ok:
  assumes ok: "shm_ok nm B segs k" and nm: "nm = nat_to_string (unat channel)"
    and eq: "Destroy os (segs i, k) = Some (r, s, k')"
  shows "shm_ok nm B (segs(i := PosixSegment channel)) k'"
proof -
  have new: "sg_map (PosixSegment channel) = None" "sg_name (PosixSegment channel) = nm"
    by (simp_all add: PosixSegment_def nm)
  have fin: "finite (users segs x)" for x by (rule users_finite [OF shm_okD(1) [OF ok]])
  show ?thesis
  proof (cases "sg_map (segs i)")
    case None
    then have "\<not> sg_init (segs i)" using shm_okD(3) [OF ok, of i] by (simp add: seg_ok_def)
    then have k': "k' = k" using eq by (simp add: Destroy_def)
    have "users (segs(i := PosixSegment channel)) x = users segs x" for x using None by (auto simp: users_upd new users_def)
    then show ?thesis
      using shm_okD [OF ok] map_finite_upd [OF shm_okD(1) [OF ok], of i] new_segment_ok
      unfolding k' by (intro shm_okI) (auto simp: new split: if_splits)
  next
    case (Some ob)
    then have init: "sg_init (segs i)" and lt: "ob < k_next k" using shm_okD(3) [OF ok, of i] by (simp_all add: seg_ok_def)
    define st where "st = ob_state (k_objs k ob)"
    define k1 where "k1 = upd_state ob DecreaseReferenceCounts k"
    have k1: "k_next k1 = k_next k" "k_names k1 = k_names k"
      "k_objs k1 x = (if x = ob then (k_objs k ob)\<lparr>ob_state := DecreaseReferenceCounts st\<rparr> else k_objs k x)" for x
      by (simp_all add: k1_def upd_state_def st_def)
    have mem: "i \<in> users segs ob" using Some by (simp add: users_def)
    have card: "card (users segs ob) = Suc (card (users segs ob - {i}))" using card_Suc_Diff1 [OF fin mem] by simp
    have ref: "ref_ok B (users segs ob) st" using shm_okD(5) [OF ok lt] by (simp add: st_def)
    then have "reference_count st \<noteq> 0" using card by (auto simp: ref_ok_def)
    then have dec: "unat (reference_count (DecreaseReferenceCounts st)) = unat (reference_count st) - 1"
      by (simp add: DecreaseReferenceCounts_def unat_minus_one)
    have k': "k' = k1 \<or> (reference_count (DecreaseReferenceCounts st) = 0 \<and> k' = k1\<lparr>k_names := (k_names k1)(nm := None)\<rparr>)"
      using eq init Some shm_okD(2) [OF ok, of i]
      by (auto simp: Destroy_def Let_def Remove_def k1_def [symmetric] k1(3) split: if_splits)
    have gone: "users segs ob = {i} \<and> \<not> need_remap st" if "reference_count (DecreaseReferenceCounts st) = 0"
    proof -
      have "unat (reference_count st) - 1 = 0" using dec that by simp
      then have "card (users segs ob) + of_bool (need_remap st) \<le> Suc 0" using ref by (simp add: ref_ok_def)
      then have "card (users segs ob - {i}) = 0" and no: "\<not> need_remap st" using card by (auto split: if_splits simp: of_bool_def)
      then have "users segs ob - {i} = {}" using fin [of ob] by (metis card_0_eq finite_Diff)
      then show ?thesis using no mem by blast
    qed
    show ?thesis
    proof (rule shm_okI)
      show "finite {j. sg_map ((segs(i := PosixSegment channel)) j) \<noteq> None}" by (rule map_finite_upd [OF shm_okD(1) [OF ok]])
      show "sg_name ((segs(i := PosixSegment channel)) j) = nm" for j using shm_okD(2) [OF ok] new by simp
      have kf: "k_next k' = k_next k" "k_objs k' = k_objs k1" using k' k1(1) by auto
      show "seg_ok k' ((segs(i := PosixSegment channel)) j)" for j
        using seg_ok_frame [OF shm_okD(3) [OF ok, of j], of k'] new_segment_ok by (simp add: kf k1 st_def)
      show "obj_ok (k_objs k' x)" if "x < k_next k'" for x
        using shm_okD(4) [OF ok, of x] that by (auto simp: kf k1 obj_ok_def st_def)
      show "ref_ok B (users (segs(i := PosixSegment channel)) x) (ob_state (k_objs k' x))" if "x < k_next k'" for x
      proof (cases "x = ob")
        case True
        then show ?thesis using ref card dec by (auto simp: users_upd new kf k1 ref_ok_def)
      next
        case False
        then show ?thesis
          using ref_ok_mono [OF shm_okD(5) [OF ok, of x] order_refl _ fin] that by (simp add: users_upd new kf k1)
      qed
      show "x < k_next k'" if "k_names k' nm = Some x" for x
        using shm_okD(6) [OF ok, of x] that k' by (auto simp: kf k1)
      show "k_names k' nm = Some x" if "sg_map ((segs(i := PosixSegment channel)) j) = Some x" "\<not> need_remap (ob_state (k_objs k' x))" for j x
      proof -
        have j: "j \<noteq> i" "sg_map (segs j) = Some x" using that(1) new by (auto split: if_splits)
        have named: "k_names k nm = Some x" using shm_okD(7) [OF ok j(2)] that(2) by (auto simp: kf k1 st_def split: if_splits)
        have "k_names k nm = Some ob" if "reference_count (DecreaseReferenceCounts st) = 0"
          using shm_okD(7) [OF ok Some] gone [OF that] by (simp add: st_def)
        then have "x = ob \<and> users segs ob = {i}" if "reference_count (DecreaseReferenceCounts st) = 0"
          using named gone that by auto
        then show ?thesis using k' named j by (auto simp: k1 users_def)
      qed
    qed
  qed
qed

definition seg_system_inv :: "u64 \<Rightarrow> shm_system \<Rightarrow> bool" where
  "seg_system_inv channel x \<longleftrightarrow>
     (3 * ss_ops x < 4294967296 \<longrightarrow> shm_ok (nat_to_string (unat channel)) (3 * ss_ops x) (ss_segs x) (ss_kernel x))"

interpretation seg_sys: invariant_system "seg_system_init channel" "seg_step channel" "seg_system_inv channel" for channel
proof
  show "seg_system_inv channel x" if "seg_system_init channel x" for x
    using that new_segment_ok [of "ss_kernel x" channel, unfolded PosixSegment_def]
    by (auto simp: seg_system_inv_def seg_system_init_def PosixSegment_def users_def intro!: shm_okI)
  show "seg_system_inv channel y" if inv: "seg_system_inv channel x" and step: "seg_step channel x y" for x y
    unfolding seg_system_inv_def
  proof
    assume bound: "3 * ss_ops y < 4294967296"
    have "ss_ops x \<le> ss_ops y" using step by cases auto
    with bound inv have ok: "shm_ok (nat_to_string (unat channel)) (3 * ss_ops x) (ss_segs x) (ss_kernel x)"
      by (simp add: seg_system_inv_def)
    show "shm_ok (nat_to_string (unat channel)) (3 * ss_ops y) (ss_segs y) (ss_kernel y)"
      using step
    proof cases
      case (sg_write os n i r s k)
      then show ?thesis using Acquire_write_ok [OF ok _ sg_write(2)] bound by (simp add: algebra_simps)
    next
      case (sg_read os idx i r s k)
      then show ?thesis using Acquire_read_ok [OF ok _ sg_read(2)] bound by (simp add: algebra_simps)
    next
      case (sg_fill d ob j)
      then show ?thesis using shm_ok_upd_block [OF ok] by simp
    next
      case (sg_release_write wb i k)
      then show ?thesis using release_ok [OF ok, of ReleaseWriteLock] by (simp add: ReleaseWrittenBlock_def ReleaseWriteLock_def)
    next
      case (sg_release_read rb i k)
      then show ?thesis using release_ok [OF ok, of ReleaseReadLock] by (simp add: ReleaseReadBlock_def ReleaseReadLock_def)
    next
      case (sg_destroy os i r s k)
      then show ?thesis using Destroy_ok [OF ok refl sg_destroy(2)] by simp
    qed
  qed
qed

section \<open>Acquiring a block when nothing fails\<close>

definition avail :: "string \<Rightarrow> shm_kernel \<Rightarrow> nat \<Rightarrow> bool" where
  "avail nm k ob \<longleftrightarrow> k_names k nm = Some ob \<and> 0 < ob_size (k_objs k ob) \<and> (\<exists>b \<in> set (ob_blocks (k_objs k ob)). is_free b)"

lemma avail_attach:
  "avail nm k ob \<Longrightarrow> avail nm (snd (attach ob' (s, k))) ob" "sg_map (fst (attach ob (s, k))) = Some ob"
  by (auto simp: avail_def attach_def upd_state_def Let_def)

lemma new_blocks_free: "is_free (Block n)"
  by (simp add: is_free_def Block_def)

lemma OpenOrCreate_avail:
  assumes ok: "shm_ok nm B segs k" and av: "\<And>ob. k_names k nm = Some ob \<Longrightarrow> avail nm k ob"
    and none: "k_names k nm = None \<Longrightarrow> sg_map (segs i) = None"
  shows "\<exists>s k' ob. OpenOrCreate no_faults (segs i, k) = (True, s, k') \<and> avail nm k' ob
    \<and> (k_names k nm = None \<longrightarrow> sg_map s = Some ob \<and> sg_conf s = sg_conf (segs i) \<and> \<not> need_remap (ob_state (k_objs k' ob)))"
proof (cases "k_names k nm")
  case (Some ob)
  show ?thesis
  proof (cases "sg_init (segs i)")
    case True
    then show ?thesis using Some av by (auto simp: OpenOrCreate_def)
  next
    case False
    then have "OpenOrCreate no_faults (segs i, k) = (True, attach ob (segs i, k))"
      using Some av [OF Some] shm_okD(2) [OF ok, of i] by (simp add: OpenOrCreate_def OpenOnly_def avail_def)
    then show ?thesis using avail_attach(1) [OF av [OF Some], of ob "segs i"] Some by (metis option.distinct(1) prod.collapse)
  qed
next
  case None
  let ?sz = "unat (managed_shm_size (sg_conf (segs i)))"
  define k1 where "k1 = k\<lparr>k_names := (k_names k)(nm := Some (k_next k)), k_objs := (k_objs k)(k_next k := create (segs i) ?sz), k_next := k_next k + 1\<rparr>"
  obtain n where n: "sg_conf (segs i) = ShmConf_Update n" using shm_okD(3) [OF ok, of i] by (auto simp: seg_ok_def)
  have "\<not> sg_init (segs i)" using none [OF None] shm_okD(3) [OF ok, of i] by (simp add: seg_ok_def)
  then have o: "OpenOrCreate no_faults (segs i, k) = (True, attach (k_next k) (segs i, k1))"
    using None shm_okD(2) [OF ok, of i] by (simp add: OpenOrCreate_def k1_def Let_def)
  have "0 < unat (block_num (sg_conf (segs i)))" using block_num_Update [of n] unfolding n by (elim insertE emptyE) simp_all
  then have "avail nm k1 (k_next k)" using managed_pos [of n] new_blocks_free by (auto simp: avail_def k1_def create_def n)
  moreover have "sg_conf (fst (attach (k_next k) (segs i, k1))) = sg_conf (segs i)"
    "\<not> need_remap (ob_state (k_objs (snd (attach (k_next k) (segs i, k1))) (k_next k)))"
    using Update_ceiling [of n] by (auto simp: attach_def k1_def create_def State_def n Let_def upd_state_def)
  ultimately show ?thesis
    using o avail_attach(1) [of nm k1 "k_next k" "k_next k" "segs i"] avail_attach(2) [of "k_next k" "segs i" k1]
    by (metis prod.collapse)
qed

lemma GetNextWritable_avail:
  assumes ok: "shm_ok nm B segs k" and ob: "sg_map (segs i) = Some ob" and av: "avail nm k ob"
  shows "\<exists>idx k'. GetNextWritableBlockIndex (segs i, k) = Some (idx, k') \<and> idx < block_num (sg_conf (segs i)) \<and> k_names k' = k_names k
    \<and> sg_addrs (segs i) idx = Some (unat idx) \<and> is_free (ob_blocks (k_objs k ob) ! unat idx)
    \<and> ob_blocks (k_objs k' ob) = (ob_blocks (k_objs k ob))[unat idx := (ob_blocks (k_objs k ob) ! unat idx)\<lparr>bl_lock_num := WRITE_EXCLUSIVE\<rparr>]
    \<and> need_remap (ob_state (k_objs k' ob)) = need_remap (ob_state (k_objs k ob))
    \<and> unat idx < length (ob_blocks (k_objs k ob))
    \<and> buf_size (bd_buf (bl_data (ob_blocks (k_objs k ob) ! unat idx))) = unat (ceiling_msg_size (sg_conf (segs i))) + 1024"
proof -
  let ?bs = "ob_blocks (k_objs k ob)" and ?st = "ob_state (k_objs k ob)" and ?conf = "sg_conf (segs i)"
  have seg: "ob < k_next k" "?conf = ShmConf_Update (st_ceiling_msg_size ?st)" "\<And>j. j < block_num ?conf \<Longrightarrow> sg_addrs (segs i) j = Some (unat j)"
    using shm_okD(3) [OF ok, of i] ob by (auto simp: seg_ok_def)
  have obj: "obj_ok (k_objs k ob)" by (rule shm_okD(4) [OF ok seg(1)])
  then have len: "length ?bs = unat (block_num ?conf)" by (simp add: obj_ok_def seg(2))
  obtain n where "st_ceiling_msg_size ?st = GetCeilingMessageSize n" using obj by (auto simp: obj_ok_def)
  then have ceil: "st_ceiling_msg_size ?st = ceiling_msg_size ?conf" by (simp add: seg(2) GetCeiling_idem)
  have num: "block_num ?conf \<in> {512, 128, 64, 32, 16, 8}" unfolding seg(2) by (rule block_num_Update)
  have "\<exists>b \<in> set ?bs. is_free b" using av by (simp add: avail_def)
  from next_writable_finds [OF num len this, of ?st] obtain idx m where idx: "unat idx = (unat (st_seq ?st) + m) mod unat (block_num ?conf)"
    and free: "is_free (?bs ! unat idx)"
    and nw: "next_writable (block_num ?conf) ?st ?bs = Some (idx, ?st\<lparr>st_seq := st_seq ?st + of_nat m + 1\<rparr>, ?bs[unat idx := (?bs ! unat idx)\<lparr>bl_lock_num := WRITE_EXCLUSIVE\<rparr>])"
    by blast
  have "0 < unat (block_num ?conf)" using num by (elim insertE emptyE) simp_all
  then have lt: "unat idx < unat (block_num ?conf)" by (simp add: idx)
  then have "idx < block_num ?conf" by (simp add: word_less_nat_alt)
  moreover have "?bs ! unat idx \<in> set ?bs" using lt len by simp
  then have "buf_size (bd_buf (bl_data (?bs ! unat idx))) = unat (ceiling_msg_size ?conf) + 1024" using obj ceil by (simp add: obj_ok_def)
  ultimately show ?thesis
    using ob nw free lt seg(3) len by (intro exI [of _ idx]) (simp add: GetNextWritableBlockIndex_def)
qed

text \<open>
  The outcome of acquiring a block: the segment maps the object of the channel's name, and the block is one of
  its blocks, newly locked, with a buffer of the size its configuration promises.
\<close>

definition acquired :: "string \<Rightarrow> used_block \<Rightarrow> segment \<Rightarrow> shm_kernel \<Rightarrow> bool" where
  "acquired nm wb s k \<longleftrightarrow> (\<exists>ob. sg_map s = Some ob \<and> k_names k nm = Some ob \<and> wb_block wb = (ob, unat (wb_index wb))
     \<and> wb_buf wb = Some (unat (wb_index wb)) \<and> wb_index wb < block_num (sg_conf s)
     \<and> unat (wb_index wb) < length (ob_blocks (k_objs k ob))
     \<and> bl_lock_num (ob_blocks (k_objs k ob) ! unat (wb_index wb)) = WRITE_EXCLUSIVE
     \<and> buf_size (bd_buf (bl_data (ob_blocks (k_objs k ob) ! unat (wb_index wb)))) = unat (ceiling_msg_size (sg_conf s)) + 1024)"

lemma acquired_GetNext:
  assumes "shm_ok nm B segs k" and "sg_map (segs i) = Some ob" and "avail nm k ob"
  shows "\<exists>idx k'. GetNextWritableBlockIndex (segs i, k) = Some (idx, k')
    \<and> acquired nm \<lparr>wb_index = idx, wb_block = (ob, unat idx), wb_buf = sg_addrs (segs i) idx\<rparr> (segs i) k'
    \<and> need_remap (ob_state (k_objs k' ob)) = need_remap (ob_state (k_objs k ob))"
proof -
  have "k_names k nm = Some ob" using assms(3) by (simp add: avail_def)
  with GetNextWritable_avail [OF assms] assms(2) show ?thesis by (fastforce simp: acquired_def)
qed

lemma OpenOrCreate_named: "k_names k (sg_name s) = Some ob \<Longrightarrow> OpenOrCreate os (s, k) = OpenOnly os (s, k)"
  by (simp add: OpenOrCreate_def OpenOnly_def)

lemma OpenOnly_frame:
  assumes "OpenOnly os (s, k) = (r, s', k')"
  shows "k_names k' = k_names k" "k_next k' = k_next k" "ob_size (k_objs k' x) = ob_size (k_objs k x)"
    "ob_blocks (k_objs k' x) = ob_blocks (k_objs k x)" "need_remap (ob_state (k_objs k' x)) = need_remap (ob_state (k_objs k x))"
    "st_ceiling_msg_size (ob_state (k_objs k' x)) = st_ceiling_msg_size (ob_state (k_objs k x))"
  using assms by (auto simp: OpenOnly_def attach_def upd_state_def Let_def split: if_splits option.splits)

lemma Acquire_write_succeeds:
  assumes ok: "shm_ok nm B segs k" and B: "B + 3 < 4294967296"
    and av: "\<And>ob. k_names k nm = Some ob \<Longrightarrow> avail nm k ob" and none: "k_names k nm = None \<Longrightarrow> sg_map (segs i) = None"
  shows "\<exists>wb s k'. AcquireBlockToWrite no_faults n (segs i, k) = Some (Some wb, s, k') \<and> acquired nm wb s k'
    \<and> (n \<le> MESSAGE_SIZE_MORE \<longrightarrow> n \<le> ceiling_msg_size (sg_conf s))
    \<and> (\<forall>ob. k_names k nm = Some ob \<longrightarrow> block_num (sg_conf s) \<le> block_num (ShmConf_Update (st_ceiling_msg_size (ob_state (k_objs k ob)))))
    \<and> (k_names k nm = None \<longrightarrow> (\<exists>ob. sg_map s = Some ob \<and> \<not> need_remap (ob_state (k_objs k' ob))))"
proof -
  have "\<exists>s k' ob. OpenOrCreate no_faults (segs i, k) = (True, s, k') \<and> avail nm k' ob
      \<and> (k_names k nm = None \<longrightarrow> sg_map s = Some ob \<and> sg_conf s = sg_conf (segs i) \<and> \<not> need_remap (ob_state (k_objs k' ob)))"
    by (rule OpenOrCreate_avail [OF ok]) (fact av none)+
  then obtain s1 k1 ob where o1: "OpenOrCreate no_faults (segs i, k) = (True, s1, k1)" and av1: "avail nm k1 ob"
    and new1: "k_names k nm = None \<longrightarrow> sg_map s1 = Some ob \<and> \<not> need_remap (ob_state (k_objs k1 ob))"
    by (elim exE conjE) (rule that, assumption+, simp)
  obtain ob1 where ok1: "shm_ok nm (B + 1) (segs(i := s1)) k1" and ob1: "sg_map s1 = Some ob1"
    using opened_OpenOrCreate [OF ok, of i no_faults] B o1 by (auto simp: opened_def)
  obtain s2 k2 where o2: "(if need_remap (ob_state (k_objs k1 ob1)) then Remap no_faults (s1, k1) else (True, s1, k1)) = (True, s2, k2)"
    and ok2: "shm_ok nm (B + 2) (segs(i := s2)) k2" and ob2: "sg_map s2 = Some ob" and av2: "avail nm k2 ob"
    and new2: "k_names k nm = None \<longrightarrow> \<not> need_remap (ob_state (k_objs k2 ob))"
  proof (cases "need_remap (ob_state (k_objs k1 ob1))")
    case True
    let ?s = "Reset (s1\<lparr>sg_init := False\<rparr>)"
    have rm: "Remap no_faults (s1, k1) = (True, attach ob (?s, k1))"
      using av1 shm_okD(2) [OF ok1, of i] by (simp add: Remap_def OpenOnly_def Reset_def avail_def)
    obtain s2 k2 where sk: "attach ob (?s, k1) = (s2, k2)" by fastforce
    show ?thesis
      using that [of s2 k2] True rm sk Remap_ok(1) [OF ok1, of no_faults i True s2 k2] B new1 ob1
        avail_attach(1) [OF av1, of ob ?s] avail_attach(2) [of ob ?s k1] by (auto simp: numeral_2_eq_2)
  next
    case False
    then have "ob1 = ob" using shm_okD(7) [OF ok1, of i ob1] ob1 av1 by (simp add: avail_def)
    then show ?thesis using that [of s1 k1] False ob1 av1 shm_ok_mono [OF ok1, of "B + 2"] by simp
  qed
  have conf2: "sg_conf s2 = ShmConf_Update (st_ceiling_msg_size (ob_state (k_objs k ob0)))" if named: "k_names k nm = Some ob0" for ob0
  proof -
    have "OpenOrCreate no_faults (segs i, k) = OpenOnly no_faults (segs i, k)"
      using named shm_okD(2) [OF ok, of i] by (simp add: OpenOrCreate_named)
    then have f1: "k_names k1 = k_names k" "st_ceiling_msg_size (ob_state (k_objs k1 y)) = st_ceiling_msg_size (ob_state (k_objs k y))" for y
      using o1 OpenOnly_frame [of no_faults "segs i" k True s1 k1] by simp_all
    have f2: "k_names k2 = k_names k1" "st_ceiling_msg_size (ob_state (k_objs k2 y)) = st_ceiling_msg_size (ob_state (k_objs k1 y))" for y
      using o2 OpenOnly_frame [of no_faults "Reset (s1\<lparr>sg_init := False\<rparr>)" k1 True s2 k2] by (simp_all add: Remap_def split: if_splits)
    have "ob = ob0" using av2 named by (simp add: avail_def f1 f2)
    then show ?thesis using shm_okD(3) [OF ok2, of i] ob2 by (simp add: seg_ok_def f1 f2)
  qed
  show ?thesis
  proof (cases "n > ceiling_msg_size (sg_conf s2)")
    case True
    obtain s' kk where rb: "Recreate_begin no_faults n (s2, k2) = Some (s', kk)" "k_names kk nm = None" "sg_map s' = None" "sg_conf s' = ShmConf_Update n"
      using ob2 av2 shm_okD(2) [OF ok2, of i] by (simp add: Recreate_begin_def Remove_def Reset_def upd_state_def avail_def Let_def)
    have okk: "shm_ok nm (B + 2) (segs(i := s')) kk"
      using Recreate_begin_ok [OF ok2 _ _, of i ob no_faults n s' kk] ob2 av2 rb(1) by (simp add: avail_def)
    obtain s3 k3 ob3 where o3: "OpenOrCreate no_faults (s', kk) = (True, s3, k3)" and av3: "avail nm k3 ob3" "sg_map s3 = Some ob3"
      "sg_conf s3 = ShmConf_Update n" "\<not> need_remap (ob_state (k_objs k3 ob3))"
      using OpenOrCreate_avail [OF okk, of i] rb by auto
    have ok3: "shm_ok nm (B + 3) (segs(i := s3)) k3"
      using opened_OpenOrCreate [OF okk, of i no_faults] o3 B by (simp add: opened_def numeral_3_eq_3)
    obtain idx k4 where g: "GetNextWritableBlockIndex (s3, k3) = Some (idx, k4)"
      "acquired nm \<lparr>wb_index = idx, wb_block = (ob3, unat idx), wb_buf = sg_addrs s3 idx\<rparr> s3 k4" "\<not> need_remap (ob_state (k_objs k4 ob3))"
      using acquired_GetNext [OF ok3, of i ob3] av3 by auto
    have "n \<le> ceiling_msg_size (sg_conf s3)" if "n \<le> MESSAGE_SIZE_MORE" using GetCeiling_room [OF that] by (simp add: av3(3))
    moreover have "block_num (sg_conf s3) \<le> block_num (ShmConf_Update (st_ceiling_msg_size (ob_state (k_objs k ob0))))"
      if "k_names k nm = Some ob0" for ob0
      using block_num_antimono True unfolding conf2 [OF that] av3(3) by blast
    ultimately show ?thesis
      using o1 ob1 o2 True rb(1) o3 g av3(2) by (simp add: AcquireBlockToWrite_def checked_state_def Recreate_def)
  next
    case False
    obtain idx k4 where g: "GetNextWritableBlockIndex (s2, k2) = Some (idx, k4)"
      "acquired nm \<lparr>wb_index = idx, wb_block = (ob, unat idx), wb_buf = sg_addrs s2 idx\<rparr> s2 k4"
      "need_remap (ob_state (k_objs k4 ob)) = need_remap (ob_state (k_objs k2 ob))"
      using acquired_GetNext [OF ok2, of i ob] ob2 av2 by auto
    then show ?thesis
      using o1 ob1 o2 False ob2 new2 conf2 by (auto simp: AcquireBlockToWrite_def checked_state_def not_less)
  qed
qed

section \<open>Properties\<close>


definition empty_kernel :: shm_kernel where
  "empty_kernel = \<lparr>k_names = (\<lambda>_. None), k_objs = (\<lambda>_. \<lparr>ob_size = 0, ob_state = State 0, ob_blocks = []\<rparr>), k_next = 0\<rparr>"

definition first_system :: shm_system where
  "first_system = \<lparr>ss_segs = (\<lambda>_. PosixSegment 9), ss_kernel = empty_kernel, ss_ops = 0\<rparr>"

lemma first_system_ok:
  "reachable_from (seg_system_init 9) (seg_step 9) first_system" "shm_ok (nat_to_string 9) 0 (ss_segs first_system) (ss_kernel first_system)"
proof -
  show r: "reachable_from (seg_system_init 9) (seg_step 9) first_system"
    by (rule reach_init) (simp add: first_system_def seg_system_init_def empty_kernel_def)
  show "shm_ok (nat_to_string 9) 0 (ss_segs first_system) (ss_kernel first_system)"
    using seg_sys.reachable_inv [OF r] by (simp add: seg_system_inv_def first_system_def)
qed

text \<open>A transmitter (place 3) has acquired a block for a message of \<open>n\<close> bytes on an unused channel.\<close>

lemma one_writer:
  assumes "n \<le> MESSAGE_SIZE_MORE"
  obtains x ob wb where "reachable_from (seg_system_init 9) (seg_step 9) x" "ss_ops x = 1" "sg_map (ss_segs x 3) = Some ob"
    "\<not> need_remap (ob_state (k_objs (ss_kernel x) ob))" "acquired (nat_to_string 9) wb (ss_segs x 3) (ss_kernel x)"
    "\<And>j. j \<noteq> 3 \<Longrightarrow> ss_segs x j = PosixSegment 9" "n \<le> ceiling_msg_size (sg_conf (ss_segs x 3))"
proof -
  have "k_names (ss_kernel first_system) nm = None" "sg_map (ss_segs first_system i) = None" for nm i
    by (simp_all add: first_system_def empty_kernel_def PosixSegment_def)
  then obtain wb s k ob where a: "AcquireBlockToWrite no_faults n (ss_segs first_system 3, ss_kernel first_system) = Some (Some wb, s, k)"
    "acquired (nat_to_string 9) wb s k" "sg_map s = Some ob" "\<not> need_remap (ob_state (k_objs k ob))" "n \<le> ceiling_msg_size (sg_conf s)"
    using Acquire_write_succeeds [OF first_system_ok(2), where i = 3 and n = n] assms by auto
  let ?x = "first_system\<lparr>ss_segs := (ss_segs first_system)(3 := s), ss_kernel := k, ss_ops := ss_ops first_system + 1\<rparr>"
  have "reachable_from (seg_system_init 9) (seg_step 9) ?x"
    using reach_step [OF first_system_ok(1) sg_write [OF a(1)]] .
  then show thesis using that [of ?x ob wb] a by (simp add: first_system_def)
qed


text \<open>
  C22: acquiring a block succeeds when the system calls do. In every reachable state, for a message of up to
  32 MiB, on an unused channel, or when the channel's object has a block that nobody holds, the call
  returns (the search for a block ends) with a block of the channel's current object, locked for this
  writer alone and with room for the message and its information, remapping or recreating the segment as
  needed.
\<close>

theorem acquire_block_succeeds:
  assumes "reachable_from (seg_system_init channel) (seg_step channel) x" and "3 * ss_ops x + 3 < 4294967296"
    and "nm = nat_to_string (unat channel)" and "unat n \<le> 33554432"
    and "case k_names (ss_kernel x) nm of
           None \<Rightarrow> sg_map (ss_segs x i) = None
         | Some ob \<Rightarrow> 0 < ob_size (k_objs (ss_kernel x) ob) \<and> (\<exists>b \<in> set (ob_blocks (k_objs (ss_kernel x) ob)). bl_lock_num b = 0)"
  shows "\<exists>wb s k ob. AcquireBlockToWrite no_faults n (ss_segs x i, ss_kernel x) = Some (Some wb, s, k)
    \<and> sg_map s = Some ob \<and> k_names k nm = Some ob \<and> wb_block wb = (ob, unat (wb_index wb)) \<and> wb_buf wb = Some (unat (wb_index wb))
    \<and> unat (wb_index wb) < length (ob_blocks (k_objs k ob))
    \<and> bl_lock_num (ob_blocks (k_objs k ob) ! unat (wb_index wb)) = - 1
    \<and> unat n + 1024 \<le> buf_size (bd_buf (bl_data (ob_blocks (k_objs k ob) ! unat (wb_index wb))))"
proof -
  have ok: "shm_ok nm (3 * ss_ops x) (ss_segs x) (ss_kernel x)"
    using seg_sys.reachable_inv [OF assms(1)] assms(2,3) by (simp add: seg_system_inv_def)
  have "n \<le> MESSAGE_SIZE_MORE" using assms(4) by (simp add: MESSAGE_SIZE_MORE_def word_le_nat_alt)
  then obtain wb s k where a: "AcquireBlockToWrite no_faults n (ss_segs x i, ss_kernel x) = Some (Some wb, s, k)"
    "acquired nm wb s k" "n \<le> ceiling_msg_size (sg_conf s)"
    using Acquire_write_succeeds [OF ok assms(2), where n = n and i = i] assms(5) by (auto simp: avail_def is_free_def split: option.splits)
  then show ?thesis by (auto simp: acquired_def word_le_nat_alt)
qed

theorem acquire_block_succeeds_witness:
  "\<exists>wb s k ob. AcquireBlockToWrite no_faults 100000 (PosixSegment 9, empty_kernel) = Some (Some wb, s, k) \<and> sg_map s = Some ob
     \<and> bl_lock_num (ob_blocks (k_objs k ob) ! unat (wb_index wb)) = - 1
     \<and> 101024 \<le> buf_size (bd_buf (bl_data (ob_blocks (k_objs k ob) ! unat (wb_index wb))))"
proof -
  have sys: "ss_segs first_system 3 = PosixSegment 9" "ss_kernel first_system = empty_kernel" "ss_ops first_system = 0"
    by (simp_all add: first_system_def)
  have "case k_names (ss_kernel first_system) (nat_to_string (unat (9 :: u64))) of
      None \<Rightarrow> sg_map (ss_segs first_system 3) = None
    | Some ob \<Rightarrow> 0 < ob_size (k_objs (ss_kernel first_system) ob) \<and> (\<exists>b \<in> set (ob_blocks (k_objs (ss_kernel first_system) ob)). bl_lock_num b = 0)"
    by (simp add: sys empty_kernel_def PosixSegment_def)
  from acquire_block_succeeds [OF first_system_ok(1) _ refl _ this, of 100000]
  obtain wb s k ob where "AcquireBlockToWrite no_faults 100000 (PosixSegment 9, empty_kernel) = Some (Some wb, s, k)" "sg_map s = Some ob"
    "bl_lock_num (ob_blocks (k_objs k ob) ! unat (wb_index wb)) = - 1"
    "unat (100000 :: u64) + 1024 \<le> buf_size (bd_buf (bl_data (ob_blocks (k_objs k ob) ! unat (wb_index wb))))"
    unfolding sys by auto
  then show ?thesis by (intro exI [of _ wb] exI [of _ s] exI [of _ k] exI [of _ ob]) simp
qed

text \<open>
  A reader checks the index of a block against the layout it knows before it remaps. When the segment
  was recreated with fewer blocks, an index that was valid passes the check, and the block of the new object
  is looked up outside its array.
\<close>

theorem stale_index_out_of_bounds:
  assumes "reachable_from (seg_system_init channel) (seg_step channel) x" and "3 * ss_ops x < 4294967296"
    and "sg_map (ss_segs x i) = Some ob" and "need_remap (ob_state (k_objs (ss_kernel x) ob))"
    and "idx < block_num (sg_conf (ss_segs x i))"
    and "k_names (ss_kernel x) (nat_to_string (unat channel)) = Some ob'" and "0 < ob_size (k_objs (ss_kernel x) ob')"
    and "length (ob_blocks (k_objs (ss_kernel x) ob')) \<le> unat idx"
  shows "AcquireBlockToRead no_faults idx (ss_segs x i, ss_kernel x) = None"
proof -
  have ok: "shm_ok (nat_to_string (unat channel)) (3 * ss_ops x) (ss_segs x) (ss_kernel x)"
    using seg_sys.reachable_inv [OF assms(1)] assms(2) by (simp add: seg_system_inv_def)
  have init: "sg_init (ss_segs x i)" using shm_okD(3) [OF ok, of i] assms(3) by (simp add: seg_ok_def)
  have "OpenOnly no_faults (Reset ((ss_segs x i)\<lparr>sg_init := False\<rparr>), ss_kernel x)
      = (True, attach ob' (Reset ((ss_segs x i)\<lparr>sg_init := False\<rparr>), ss_kernel x))"
    using shm_okD(2) [OF ok, of i] assms(6,7) by (simp add: OpenOnly_def Reset_def)
  moreover have "(block_num (sg_conf (ss_segs x i)) \<le> idx) = False" using assms(5) by (simp add: not_le)
  moreover have "OpenOnly no_faults (ss_segs x i, ss_kernel x) = (True, ss_segs x i, ss_kernel x)"
    using init by (simp add: OpenOnly_def)
  ultimately show ?thesis
    using assms(3,4,8) by (auto simp: AcquireBlockToRead_def checked_state_def Remap_def attach_def Let_def upd_state_def)
qed

text \<open>
  The situation arises when a transmitter sends a short message, a dispatcher opens the segment, and the
  transmitter then sends 100000 bytes.
\<close>

definition obj16K :: "bool \<Rightarrow> u32 \<Rightarrow> shm_object" where
  "obj16K remap refs = \<lparr>ob_size = 9442304,
     ob_state = \<lparr>need_remap = remap, st_seq = 1, reference_count = refs, st_ceiling_msg_size = 16384\<rparr>,
     ob_blocks = (replicate 512 (Block 17408))[0 := (Block 17408)\<lparr>bl_lock_num := - 1\<rparr>]\<rparr>"

definition obj128K :: shm_object where
  "obj128K = \<lparr>ob_size = 17044480, ob_state = \<lparr>need_remap = False, st_seq = 1, reference_count = 1, st_ceiling_msg_size = 131072\<rparr>,
     ob_blocks = (replicate 128 (Block 132096))[0 := (Block 132096)\<lparr>bl_lock_num := - 1\<rparr>]\<rparr>"

definition mapped :: "nat \<Rightarrow> u64 \<Rightarrow> segment" where
  "mapped ob n = \<lparr>sg_init = True, sg_conf = ShmConf_Update n, sg_name = nat_to_string 9, sg_map = Some ob,
     sg_addrs = (\<lambda>i. if i < block_num (ShmConf_Update n) then Some (unat i) else None)\<rparr>"

lemma conf16K: "ShmConf_Update 16384 = \<lparr>ceiling_msg_size = 16384, block_buf_size = 17408, block_num = 512, managed_shm_size = 9442304\<rparr>"
  "ShmConf = \<lparr>ceiling_msg_size = 16384, block_buf_size = 17408, block_num = 512, managed_shm_size = 9442304\<rparr>"
  by (simp_all add: ShmConf_def ShmConf_Update_def Let_def GetCeilingMessageSize_def GetBlockBufSize_def GetBlockNum_def shm_sizes)

lemma conf128K: "ShmConf_Update 100000 = \<lparr>ceiling_msg_size = 131072, block_buf_size = 132096, block_num = 128, managed_shm_size = 17044480\<rparr>"
  "ShmConf_Update 131072 = \<lparr>ceiling_msg_size = 131072, block_buf_size = 132096, block_num = 128, managed_shm_size = 17044480\<rparr>"
  by (simp_all add: ShmConf_Update_def Let_def GetCeilingMessageSize_def GetBlockBufSize_def GetBlockNum_def shm_sizes)

definition kern1 :: shm_kernel where
  "kern1 = \<lparr>k_names = (\<lambda>_. None)(nat_to_string 9 := Some 0), k_objs = (k_objs empty_kernel)(0 := obj16K False 1), k_next = 1\<rparr>"

definition kern2 :: shm_kernel where
  "kern2 = \<lparr>k_names = (\<lambda>_. None)(nat_to_string 9 := Some 0), k_objs = (k_objs empty_kernel)(0 := obj16K False 2), k_next = 1\<rparr>"

definition kern3 :: shm_kernel where
  "kern3 = \<lparr>k_names = (\<lambda>_. None)(nat_to_string 9 := Some 1),
     k_objs = (k_objs empty_kernel)(0 := obj16K True 2, 1 := obj128K), k_next = 2\<rparr>"

lemma next_writable_new:
  assumes "st_seq st = 0" and "0 < m" and "is_free b"
  shows "next_writable num st (replicate m b) = Some (0, st\<lparr>st_seq := 1\<rparr>, (replicate m b)[0 := b\<lparr>bl_lock_num := - 1\<rparr>])"
  using assms by (subst next_writable.simps) (simp add: FetchAddSeq_def TryLockForWrite_eq is_free_def)

lemma scene1:
  "\<exists>wb. AcquireBlockToWrite no_faults 10 (PosixSegment 9, empty_kernel) = Some (Some wb, mapped 0 16384, kern1)"
  by (simp add: AcquireBlockToWrite_def OpenOrCreate_def PosixSegment_def empty_kernel_def attach_def Let_def conf16K create_def State_def
      checked_state_def upd_state_def IncreaseReferenceCounts_def GetNextWritableBlockIndex_def next_writable_new new_blocks_free
      mapped_def kern1_def obj16K_def cong: if_cong)

lemma scene2:
  "AcquireBlockToRead no_faults 0 (PosixSegment 9, kern1) = Some (None, mapped 0 16384, kern2)"
  by (simp add: AcquireBlockToRead_def OpenOnly_def PosixSegment_def attach_def Let_def conf16K
      checked_state_def upd_state_def IncreaseReferenceCounts_def TryLockForRead_eq
      mapped_def kern1_def kern2_def obj16K_def cong: if_cong)

lemma scene3:
  "\<exists>wb. AcquireBlockToWrite no_faults 100000 (mapped 0 16384, kern2) = Some (Some wb, mapped 1 131072, kern3)"
  by (simp add: AcquireBlockToWrite_def OpenOrCreate_def mapped_def attach_def Let_def conf16K conf128K create_def State_def
      checked_state_def upd_state_def IncreaseReferenceCounts_def GetNextWritableBlockIndex_def next_writable_new new_blocks_free
      Recreate_def Recreate_begin_def Reset_def Remove_def kern2_def kern3_def obj16K_def obj128K_def empty_kernel_def cong: if_cong)

definition scene :: "nat \<Rightarrow> segment \<Rightarrow> segment \<Rightarrow> shm_kernel \<Rightarrow> shm_system" where
  "scene n writer reader k = \<lparr>ss_segs = (\<lambda>_. PosixSegment 9)(3 := writer, 4 := reader), ss_kernel = k, ss_ops = n\<rparr>"

lemma scenes_reachable:
  "reachable_from (seg_system_init 9) (seg_step 9) (scene 2 (mapped 0 16384) (mapped 0 16384) kern2)"
  "reachable_from (seg_system_init 9) (seg_step 9) (scene 3 (mapped 1 131072) (mapped 0 16384) kern3)"
proof -
  let ?new = "PosixSegment 9" and ?old = "mapped 0 16384"
  have "reachable_from (seg_system_init 9) (seg_step 9) (scene 0 ?new ?new empty_kernel)"
    by (rule reach_init) (simp add: scene_def seg_system_init_def empty_kernel_def fun_upd_idem)
  moreover have "seg_step 9 (scene 0 ?new ?new empty_kernel) (scene 1 ?old ?new kern1)"
    using sg_write [of no_faults 10 "scene 0 ?new ?new empty_kernel" 3] scene1 by (auto simp: scene_def fun_upd_twist)
  moreover have "seg_step 9 (scene 1 ?old ?new kern1) (scene 2 ?old ?old kern2)"
    using sg_read [of no_faults 0 "scene 1 ?old ?new kern1" 4] scene2 by (simp add: scene_def numeral_2_eq_2)
  ultimately show 2: "reachable_from (seg_system_init 9) (seg_step 9) (scene 2 ?old ?old kern2)" by (meson reach_step)
  have "seg_step 9 (scene 2 ?old ?old kern2) (scene 3 (mapped 1 131072) ?old kern3)"
    using sg_write [of no_faults 100000 "scene 2 ?old ?old kern2" 3] scene3 by (auto simp: scene_def fun_upd_twist)
  then show "reachable_from (seg_system_init 9) (seg_step 9) (scene 3 (mapped 1 131072) ?old kern3)"
    by (rule reach_step [OF 2])
qed

theorem stale_index_out_of_bounds_witness:
  "AcquireBlockToRead no_faults 300 (mapped 0 16384, kern3) = None"
  using stale_index_out_of_bounds [OF scenes_reachable(2), of 4 0 300 1]
  by (simp add: scene_def mapped_def conf16K kern3_def obj16K_def obj128K_def)

text \<open>
  \<open>Recreate\<close> removes the old object before the new one exists. In between, another transmitter that has to
  remap and has a message too long for its layout dereferences a null state; and when the name leads to
  an object of another size before the first transmitter creates its own, that transmitter takes it as it is,
  although its message may not fit.
\<close>

theorem recreate_window_unsafe:
  assumes "reachable_from (seg_system_init channel) (seg_step channel) x" and "3 * ss_ops x < 4294967296"
    and "sg_map (ss_segs x i) = Some ob" and "sg_map (ss_segs x j) = Some ob" and "\<not> need_remap (ob_state (k_objs (ss_kernel x) ob))"
    and "Recreate_begin no_faults n (ss_segs x i, ss_kernel x) = Some (s, k)"
    and "ceiling_msg_size (sg_conf (ss_segs x j)) < m"
  shows "AcquireBlockToWrite no_faults m (ss_segs x j, k) = None
    \<and> (\<forall>k2 ob2. k_names k2 (sg_name s) = Some ob2 \<and> 0 < ob_size (k_objs k2 ob2) \<longrightarrow>
         (\<exists>s' k'. OpenOrCreate no_faults (s, k2) = (True, s', k') \<and> sg_map s' = Some ob2
           \<and> sg_conf s' = ShmConf_Update (st_ceiling_msg_size (ob_state (k_objs k2 ob2)))))"
proof -
  let ?nm = "nat_to_string (unat channel)"
  have ok: "shm_ok ?nm (3 * ss_ops x) (ss_segs x) (ss_kernel x)"
    using seg_sys.reachable_inv [OF assms(1)] assms(2) by (simp add: seg_system_inv_def)
  have init: "sg_init (ss_segs x j)" using shm_okD(3) [OF ok, of j] assms(4) by (simp add: seg_ok_def)
  have "k_names (ss_kernel x) ?nm = Some ob" by (rule shm_okD(7) [OF ok assms(3,5)])
  then have k: "k_names k ?nm = None" "need_remap (ob_state (k_objs k ob))" and s: "sg_init s = False"
    using assms(3,6) shm_okD(2) [OF ok, of i] by (auto simp: Recreate_begin_def Remove_def Reset_def upd_state_def Let_def)
  have "OpenOrCreate no_faults (ss_segs x j, k) = (True, ss_segs x j, k)" using init by (simp add: OpenOrCreate_def)
  moreover have "Remap no_faults (ss_segs x j, k) = (False, Reset ((ss_segs x j)\<lparr>sg_init := False\<rparr>), k)"
    using k(1) shm_okD(2) [OF ok, of j] by (simp add: Remap_def OpenOnly_def Reset_def)
  ultimately have "AcquireBlockToWrite no_faults m (ss_segs x j, k) = None"
    using assms(4,7) k(2) by (simp add: AcquireBlockToWrite_def checked_state_def Recreate_def Recreate_begin_def Reset_def)
  moreover have "OpenOrCreate no_faults (s, k2) = (True, attach ob2 (s, k2))"
    if "k_names k2 (sg_name s) = Some ob2" "0 < ob_size (k_objs k2 ob2)" for k2 ob2
    using that s by (simp add: OpenOrCreate_def OpenOnly_def)
  ultimately show ?thesis by (auto simp: attach_def Let_def)
qed

theorem recreate_window_unsafe_witness:
  "\<exists>s k. Recreate_begin no_faults 100000 (mapped 0 16384, kern2) = Some (s, k)
     \<and> AcquireBlockToWrite no_faults 20000 (mapped 0 16384, k) = None
     \<and> ceiling_msg_size (sg_conf (fst (snd (OpenOrCreate no_faults (s, kern2))))) = 16384"
proof -
  obtain s k where rb: "Recreate_begin no_faults 100000 (mapped 0 16384, kern2) = Some (s, k)" "sg_name s = nat_to_string 9"
    by (simp add: Recreate_begin_def mapped_def Remove_def Reset_def kern2_def upd_state_def Let_def)
  have x: "ss_segs (scene 2 (mapped 0 16384) (mapped 0 16384) kern2) 3 = mapped 0 16384"
    "ss_segs (scene 2 (mapped 0 16384) (mapped 0 16384) kern2) 4 = mapped 0 16384"
    "ss_kernel (scene 2 (mapped 0 16384) (mapped 0 16384) kern2) = kern2" "ss_ops (scene 2 (mapped 0 16384) (mapped 0 16384) kern2) = 2"
    by (simp_all add: scene_def)
  have m: "sg_map (mapped 0 16384) = Some 0" "ceiling_msg_size (sg_conf (mapped 0 16384)) = 16384"
    by (simp_all add: mapped_def conf16K)
  have k2: "k_names kern2 (sg_name s) = Some 0" "0 < ob_size (k_objs kern2 0)" "\<not> need_remap (ob_state (k_objs kern2 0))"
    "st_ceiling_msg_size (ob_state (k_objs kern2 0)) = 16384"
    by (simp_all add: kern2_def obj16K_def rb(2))
  note all = recreate_window_unsafe [OF scenes_reachable(1), of 3 0 4 100000 s k 20000, unfolded x m, OF _ refl refl k2(3) rb(1)]
  have "AcquireBlockToWrite no_faults 20000 (mapped 0 16384, k) = None" using all by simp
  moreover have "\<exists>s' k'. OpenOrCreate no_faults (s, kern2) = (True, s', k') \<and> sg_conf s' = ShmConf_Update 16384"
    using conjunct2 [OF all, rule_format, of kern2 0] k2 by auto
  ultimately show ?thesis using rb(1) by (auto simp: conf16K)
qed

end
