(* ===== verification/Shm_Notifier.thy ===== *)
theory Shm_Notifier
  imports Message_Codec
begin

text \<open>
  \<open>transport/shm/condition_notifier\<close>: processes tell each other through a ring in shared memory which block
  of which channel has a new message.

  Every access to the shared indicator is one step of a process and any number of processes interleave. A
  process is constructed at some time, shut down at some time, and in between notifies and listens; how
  often \<open>Listen\<close> retries before it gives up depends on the clock and is left open. \<open>ns_sent\<close> lists the
  notifications in the order of their numbers, \<open>ns_start\<close> and \<open>ns_got\<close> record where a process began to
  listen and what it received.
\<close>

definition kBufLength :: nat where
  "kBufLength = 4096"

record indicator =
  in_next_seq :: u64
  in_infos :: "nat \<Rightarrow> readable_info"
  in_seqs :: "nat \<Rightarrow> u64"

definition Indicator :: indicator where
  "Indicator = \<lparr>in_next_seq = 0, in_infos = (\<lambda>_. ReadableInfo), in_seqs = (\<lambda>_. 0)\<rparr>"

definition slot_of :: "u64 \<Rightarrow> nat" where
  "slot_of n = unat n mod kBufLength"

datatype nt_pc = NT_Off | NT_Idle
  | N_Fetch readable_info | N_Info readable_info u64 | N_Seq u64
  | L_Load | L_Seq | L_Info nat | L_Wait

record notifier =
  np_pc :: nt_pc
  np_next_seq :: u64
  np_shutdown :: bool

definition ConditionNotifier :: "indicator \<Rightarrow> notifier" where
  "ConditionNotifier ind = \<lparr>np_pc = NT_Idle, np_next_seq = in_next_seq ind, np_shutdown = False\<rparr>"

definition Notify :: "readable_info \<Rightarrow> notifier \<Rightarrow> notifier" where
  "Notify info p = (if np_shutdown p then p else p\<lparr>np_pc := N_Fetch info\<rparr>)"

definition Listen :: "notifier \<Rightarrow> notifier" where
  "Listen p = (if np_shutdown p then p else p\<lparr>np_pc := L_Load\<rparr>)"

fun Notify_step :: "nt_pc \<Rightarrow> indicator \<Rightarrow> nt_pc \<times> indicator" where
  "Notify_step (N_Fetch info) ind = (N_Info info (in_next_seq ind), ind\<lparr>in_next_seq := in_next_seq ind + 1\<rparr>)"
| "Notify_step (N_Info info n) ind = (N_Seq n, ind\<lparr>in_infos := (in_infos ind)(slot_of n := info)\<rparr>)"
| "Notify_step (N_Seq n) ind = (NT_Idle, ind\<lparr>in_seqs := (in_seqs ind)(slot_of n := n)\<rparr>)"
| "Notify_step pc ind = (pc, ind)"

definition Listen_step :: "notifier \<Rightarrow> indicator \<Rightarrow> notifier \<times> readable_info option" where
  "Listen_step p ind =
     (case np_pc p of
        L_Load \<Rightarrow> (p\<lparr>np_pc := (if in_next_seq ind \<noteq> np_next_seq p then L_Seq else L_Wait)\<rparr>, None)
      | L_Seq \<Rightarrow>
          (let idx = slot_of (np_next_seq p); actual_seq = in_seqs ind idx
           in if actual_seq \<ge> np_next_seq p then (p\<lparr>np_next_seq := actual_seq, np_pc := L_Info idx\<rparr>, None)
              else (p\<lparr>np_pc := L_Wait\<rparr>, None))
      | L_Info idx \<Rightarrow> (p\<lparr>np_next_seq := np_next_seq p + 1, np_pc := NT_Idle\<rparr>, Some (in_infos ind idx))
      | _ \<Rightarrow> (p, None))"

definition NT_Shutdown :: "notifier \<Rightarrow> notifier" where
  "NT_Shutdown p = p\<lparr>np_shutdown := True\<rparr>"

record nt_system =
  ns_ind :: indicator
  ns_proc :: "nat \<Rightarrow> notifier"
  ns_sent :: "readable_info list"
  ns_start :: "nat \<Rightarrow> nat"
  ns_got :: "nat \<Rightarrow> readable_info list"

fun fetched :: "nt_pc \<Rightarrow> readable_info list" where
  "fetched (N_Fetch info) = [info]"
| "fetched _ = []"

inductive nt_step :: "nt_system \<Rightarrow> nt_system \<Rightarrow> bool" where
  nt_new: "np_pc (ns_proc s i) = NT_Off
    \<Longrightarrow> nt_step s (s\<lparr>ns_proc := (ns_proc s)(i := ConditionNotifier (ns_ind s)),
                     ns_start := (ns_start s)(i := length (ns_sent s)), ns_got := (ns_got s)(i := [])\<rparr>)"
| nt_call: "np_pc (ns_proc s i) = NT_Idle \<Longrightarrow> p = Notify info (ns_proc s i) \<or> p = Listen (ns_proc s i) \<or> p = NT_Shutdown (ns_proc s i)
    \<Longrightarrow> nt_step s (s\<lparr>ns_proc := (ns_proc s)(i := p)\<rparr>)"
| nt_notify: "Notify_step (np_pc (ns_proc s i)) (ns_ind s) = (pc, ind)
    \<Longrightarrow> nt_step s (s\<lparr>ns_ind := ind, ns_proc := (ns_proc s)(i := (ns_proc s i)\<lparr>np_pc := pc\<rparr>),
                     ns_sent := ns_sent s @ fetched (np_pc (ns_proc s i))\<rparr>)"
| nt_listen: "Listen_step (ns_proc s i) (ns_ind s) = (p, r)
    \<Longrightarrow> nt_step s (s\<lparr>ns_proc := (ns_proc s)(i := p),
                     ns_got := (ns_got s)(i := ns_got s i @ (case r of None \<Rightarrow> [] | Some info \<Rightarrow> [info]))\<rparr>)"
| nt_retry: "np_pc (ns_proc s i) = L_Wait \<Longrightarrow> pc = (if np_shutdown (ns_proc s i) then NT_Idle else L_Load) \<or> pc = NT_Idle
    \<Longrightarrow> nt_step s (s\<lparr>ns_proc := (ns_proc s)(i := (ns_proc s i)\<lparr>np_pc := pc\<rparr>)\<rparr>)"

text \<open>
  The earliest notification a process still works on: a notifying process its own, a listening one the next it
  expects. A run keeps up when nobody works on a notification that is more than a ring behind. \<open>nt_init ind\<close>
  is an indicator on which every earlier notification is complete.
\<close>

fun writing :: "nt_pc \<Rightarrow> u64 option" where
  "writing (N_Info info n) = Some n"
| "writing (N_Seq n) = Some n"
| "writing _ = None"

definition behind :: "nt_system \<Rightarrow> nat \<Rightarrow> u64 \<Rightarrow> bool" where
  "behind s i n \<longleftrightarrow> writing (np_pc (ns_proc s i)) = Some n
     \<or> (np_pc (ns_proc s i) \<noteq> NT_Off \<and> np_next_seq (ns_proc s i) = n)"

definition keeps_up :: "nt_system \<Rightarrow> bool" where
  "keeps_up s \<longleftrightarrow> length (ns_sent s) < 18446744073709551616 - kBufLength
     \<and> (\<forall>i n. behind s i n \<longrightarrow> length (ns_sent s) \<le> unat n + kBufLength)"

definition complete :: "nt_system \<Rightarrow> nat \<Rightarrow> bool" where
  "complete s n \<longleftrightarrow> in_seqs (ns_ind s) (n mod kBufLength) = of_nat n \<and> in_infos (ns_ind s) (n mod kBufLength) = ns_sent s ! n"

definition nt_init :: "nt_system \<Rightarrow> bool" where
  "nt_init s \<longleftrightarrow> in_next_seq (ns_ind s) = of_nat (length (ns_sent s)) \<and> (\<forall>i. np_pc (ns_proc s i) = NT_Off)
     \<and> (\<forall>idx < kBufLength. in_seqs (ns_ind s) idx = 0 \<or> unat (in_seqs (ns_ind s) idx) mod kBufLength = idx)
     \<and> (\<forall>idx < kBufLength. unat (in_seqs (ns_ind s) idx) < length (ns_sent s))
     \<and> (\<forall>n < length (ns_sent s). length (ns_sent s) \<le> n + kBufLength \<longrightarrow> complete s n) \<and> keeps_up s"

section \<open>The invariant of runs that keep up\<close>

lemma window_unique:
  fixes a b N :: nat
  assumes "a mod kBufLength = b mod kBufLength" and "a < N" "b < N" "N \<le> a + kBufLength" "N \<le> b + kBufLength"
  shows "a = b"
proof -
  have gap: "d = 0" if "d mod 4096 = 0" "d < 4096" for d :: nat using that by simp
  show ?thesis
  proof (cases "a \<le> b")
    case True
    then have "(b - a) mod 4096 = 0" using assms(1) by (metis kBufLength_def mod_eq_dvd_iff_nat mod_eq_0_iff_dvd)
    moreover have "b - a < 4096" using assms(3,4) unfolding kBufLength_def by linarith
    ultimately show ?thesis using gap [of "b - a"] True by linarith
  next
    case False
    then have "(a - b) mod 4096 = 0" using assms(1) by (metis kBufLength_def mod_eq_dvd_iff_nat mod_eq_0_iff_dvd nle_le)
    moreover have "a - b < 4096" using assms(2,5) unfolding kBufLength_def by linarith
    ultimately show ?thesis using gap [of "a - b"] False by linarith
  qed
qed

definition slots_ok :: "nt_system \<Rightarrow> bool" where
  "slots_ok s \<longleftrightarrow> in_next_seq (ns_ind s) = of_nat (length (ns_sent s))
     \<and> (\<forall>idx < kBufLength. (in_seqs (ns_ind s) idx = 0 \<or> unat (in_seqs (ns_ind s) idx) mod kBufLength = idx)
          \<and> unat (in_seqs (ns_ind s) idx) < length (ns_sent s))"

definition writers_ok :: "nt_system \<Rightarrow> bool" where
  "writers_ok s \<longleftrightarrow>
     (\<forall>i n. writing (np_pc (ns_proc s i)) = Some n \<longrightarrow> unat n < length (ns_sent s) \<and> in_seqs (ns_ind s) (slot_of n) < n)
     \<and> (\<forall>i j n. writing (np_pc (ns_proc s i)) = Some n \<and> writing (np_pc (ns_proc s j)) = Some n \<longrightarrow> i = j)
     \<and> (\<forall>i info n. np_pc (ns_proc s i) = N_Info info n \<longrightarrow> info = ns_sent s ! unat n)
     \<and> (\<forall>i n. np_pc (ns_proc s i) = N_Seq n \<longrightarrow> in_infos (ns_ind s) (slot_of n) = ns_sent s ! unat n)"

definition written :: "nt_system \<Rightarrow> nat \<Rightarrow> bool" where
  "written s n \<longleftrightarrow> n < length (ns_sent s) \<and> (\<forall>i. writing (np_pc (ns_proc s i)) \<noteq> Some (of_nat n))"

definition done_ok :: "nt_system \<Rightarrow> bool" where
  "done_ok s \<longleftrightarrow> (\<forall>n. written s n \<and> length (ns_sent s) \<le> n + kBufLength \<longrightarrow> complete s n)"

definition listener_ok :: "nt_system \<Rightarrow> nat \<Rightarrow> bool" where
  "listener_ok s i \<longleftrightarrow> (np_pc (ns_proc s i) \<noteq> NT_Off \<longrightarrow>
     (let m = unat (np_next_seq (ns_proc s i)) in
       0 < ns_start s i \<and> ns_start s i \<le> m \<and> m \<le> length (ns_sent s)
       \<and> ns_got s i = map ((!) (ns_sent s)) [ns_start s i..<m]
       \<and> (np_pc (ns_proc s i) = L_Seq \<longrightarrow> m < length (ns_sent s))
       \<and> (\<forall>idx. np_pc (ns_proc s i) = L_Info idx \<longrightarrow> idx = m mod kBufLength \<and> written s m)))"

definition nt_inv :: "nt_system \<Rightarrow> bool" where
  "nt_inv s \<longleftrightarrow> keeps_up s \<and> 0 < length (ns_sent s) \<and> slots_ok s \<and> writers_ok s \<and> done_ok s \<and> (\<forall>i. listener_ok s i)"

lemma keeps_upD:
  assumes "keeps_up s"
  shows "length (ns_sent s) < 18446744073709551616" "writing (np_pc (ns_proc s i)) = Some n \<Longrightarrow> length (ns_sent s) \<le> unat n + kBufLength"
    "np_pc (ns_proc s i) \<noteq> NT_Off \<Longrightarrow> length (ns_sent s) \<le> unat (np_next_seq (ns_proc s i)) + kBufLength"
  using assms by (auto simp: keeps_up_def behind_def kBufLength_def)

lemma nt_invD:
  assumes "nt_inv s"
  shows "keeps_up s" "0 < length (ns_sent s)" "slots_ok s" "writers_ok s" "done_ok s" "listener_ok s i"
  using assms by (auto simp: nt_inv_def)

lemma slot_lt [simp]: "slot_of n < kBufLength" "m mod kBufLength < kBufLength"
  by (simp_all add: slot_of_def kBufLength_def)

lemma slots_okD:
  assumes "slots_ok s" and "idx < kBufLength"
  shows "in_seqs (ns_ind s) idx = 0 \<or> unat (in_seqs (ns_ind s) idx) mod kBufLength = idx"
    "unat (in_seqs (ns_ind s) idx) < length (ns_sent s)"
  using assms by (simp_all add: slots_ok_def)

lemma writers_okD:
  assumes "writers_ok s"
  shows "writing (np_pc (ns_proc s i)) = Some n \<Longrightarrow> unat n < length (ns_sent s)"
    "writing (np_pc (ns_proc s i)) = Some n \<Longrightarrow> in_seqs (ns_ind s) (slot_of n) < n"
    "writing (np_pc (ns_proc s i)) = Some n \<Longrightarrow> writing (np_pc (ns_proc s j)) = Some n \<Longrightarrow> i = j"
    "np_pc (ns_proc s i) = N_Info info n \<Longrightarrow> info = ns_sent s ! unat n"
    "np_pc (ns_proc s i) = N_Seq n \<Longrightarrow> in_infos (ns_ind s) (slot_of n) = ns_sent s ! unat n"
  using assms unfolding writers_ok_def by blast+

text \<open>A step of the process \<open>i\<close> that touches neither the indicator nor the list of notifications.\<close>

lemma nt_inv_local:
  assumes inv: "nt_inv s" and ku: "keeps_up t"
    and t: "t = s\<lparr>ns_proc := (ns_proc s)(i := p), ns_start := st, ns_got := g\<rparr>"
    and st: "\<And>j. j \<noteq> i \<Longrightarrow> st j = ns_start s j \<and> g j = ns_got s j"
    and w: "writing (np_pc p) = None" "writing (np_pc (ns_proc s i)) = None"
    and l: "listener_ok t i"
  shows "nt_inv t"
proof -
  have same: "writing (np_pc (ns_proc t j)) = writing (np_pc (ns_proc s j))" for j using w by (simp add: t)
  have pcs: "np_pc (ns_proc t j) = N_Info info n \<Longrightarrow> np_pc (ns_proc s j) = N_Info info n"
    "np_pc (ns_proc t j) = N_Seq n \<Longrightarrow> np_pc (ns_proc s j) = N_Seq n" for j info n
    using w by (auto simp: t split: if_splits)
  have f: "ns_ind t = ns_ind s" "ns_sent t = ns_sent s" by (simp_all add: t)
  have "writers_ok t" using nt_invD(4) [OF inv] unfolding writers_ok_def same f using pcs by blast
  moreover have wr: "written t n = written s n" for n by (simp add: written_def same f)
  have "done_ok t" using nt_invD(5) [OF inv] by (simp add: done_ok_def wr f complete_def)
  moreover have "listener_ok t j" for j
    using l nt_invD(6) [OF inv, of j] st [of j] by (cases "j = i") (simp_all add: listener_ok_def wr [unfolded t] t)
  ultimately show ?thesis using ku nt_invD(2,3) [OF inv] by (simp add: nt_inv_def f slots_ok_def)
qed

lemma nt_inv_listen:
  assumes inv: "nt_inv s" and eq: "Listen_step (ns_proc s i) (ns_ind s) = (p, r)"
    and t: "t = s\<lparr>ns_proc := (ns_proc s)(i := p), ns_got := (ns_got s)(i := ns_got s i @ (case r of None \<Rightarrow> [] | Some info \<Rightarrow> [info]))\<rparr>"
    and ku: "keeps_up t"
  shows "nt_inv t"
proof -
  let ?p = "ns_proc s i" and ?N = "length (ns_sent s)"
  define m where "m = unat (np_next_seq ?p)"
  have loc: "nt_inv t" if "writing (np_pc p) = None" "writing (np_pc ?p) = None" "listener_ok t i"
    by (rule nt_inv_local [OF inv ku, where i = i and p = p and st = "ns_start s"
          and g = "(ns_got s)(i := ns_got s i @ (case r of None \<Rightarrow> [] | Some info \<Rightarrow> [info]))"]) (use that in \<open>simp_all add: t\<close>)
  have N: "?N < 18446744073709551616" using keeps_upD(1) [OF nt_invD(1) [OF inv]] .
  have sl: "in_next_seq (ns_ind s) = of_nat ?N" using nt_invD(3) [OF inv] by (simp add: slots_ok_def)
  have li: "0 < ns_start s i" "ns_start s i \<le> m" "m \<le> ?N" "ns_got s i = map ((!) (ns_sent s)) [ns_start s i..<m]"
    "np_pc ?p = L_Seq \<longrightarrow> m < ?N" "\<And>idx. np_pc ?p = L_Info idx \<Longrightarrow> idx = m mod kBufLength \<and> written s m"
    if "np_pc ?p \<noteq> NT_Off"
    using nt_invD(6) [OF inv, of i] that by (auto simp: listener_ok_def m_def Let_def)
  show ?thesis
  proof (cases "np_pc ?p")
    case L_Load
    then have p: "p = ?p\<lparr>np_pc := (if in_next_seq (ns_ind s) \<noteq> np_next_seq ?p then L_Seq else L_Wait)\<rparr>" "r = None"
      using eq by (auto simp: Listen_step_def)
    have "np_next_seq ?p = of_nat m" by (simp add: m_def)
    then have "in_next_seq (ns_ind s) \<noteq> np_next_seq ?p \<Longrightarrow> m \<noteq> ?N" using sl by auto
    then have "in_next_seq (ns_ind s) \<noteq> np_next_seq ?p \<Longrightarrow> m < ?N" using li(3) L_Load by (simp add: le_less)
    then show ?thesis using loc li L_Load p by (auto simp: listener_ok_def t m_def Let_def)
  next
    case L_Seq
    let ?a = "in_seqs (ns_ind s) (slot_of (np_next_seq ?p))"
    show ?thesis
    proof (cases "?a \<ge> np_next_seq ?p")
      case True
      have mN: "m < ?N" "0 < m" "?N \<le> m + kBufLength"
        using li L_Seq keeps_upD(3) [OF nt_invD(1) [OF inv], of i] by (auto simp: m_def)
      have a: "m \<le> unat ?a" "unat ?a < ?N" "unat ?a mod kBufLength = m mod kBufLength"
      proof -
        show "m \<le> unat ?a" using True by (simp add: m_def word_le_nat_alt)
        then have "?a \<noteq> 0" using mN(2) by auto
        then show "unat ?a < ?N" "unat ?a mod kBufLength = m mod kBufLength"
          using slots_okD [OF nt_invD(3) [OF inv] slot_lt(1) [of "np_next_seq ?p"]] by (auto simp: slot_of_def m_def)
      qed
      then have am: "unat ?a = m" using window_unique [OF a(3,2) mN(1) _ mN(3)] mN(3) a(1) by linarith
      then have an: "?a = np_next_seq ?p" by (simp add: m_def word_unat_eq_iff)
      have "written s m"
        unfolding written_def
      proof (intro conjI mN(1) allI notI)
        fix j assume "writing (np_pc (ns_proc s j)) = Some (of_nat m)"
        then have "writing (np_pc (ns_proc s j)) = Some (np_next_seq ?p)" by (simp add: m_def)
        then have "?a < np_next_seq ?p" using nt_invD(4) [OF inv] by (auto simp: writers_ok_def)
        then show False using an by simp
      qed
      moreover have p: "p = ?p\<lparr>np_pc := L_Info (m mod kBufLength)\<rparr>" "r = None"
        using eq L_Seq True an by (auto simp: Listen_step_def Let_def slot_of_def m_def)
      ultimately have "listener_ok t i"
        using li L_Seq by (auto simp: listener_ok_def t m_def Let_def written_def split: if_splits)
      then show ?thesis using loc p L_Seq by simp
    next
      case False
      then have "p = ?p\<lparr>np_pc := L_Wait\<rparr>" "r = None" using eq L_Seq by (auto simp: Listen_step_def Let_def)
      then show ?thesis using loc li L_Seq by (auto simp: listener_ok_def t m_def Let_def)
    qed
  next
    case (L_Info idx)
    then have idx: "idx = m mod kBufLength" and w: "written s m" using li by auto
    have p: "p = ?p\<lparr>np_next_seq := np_next_seq ?p + 1, np_pc := NT_Idle\<rparr>" "r = Some (in_infos (ns_ind s) idx)"
      using eq L_Info by (auto simp: Listen_step_def)
    have "?N \<le> m + kBufLength" using keeps_upD(3) [OF nt_invD(1) [OF inv], of i] L_Info by (simp add: m_def)
    then have "in_infos (ns_ind s) idx = ns_sent s ! m"
      using nt_invD(5) [OF inv] w by (auto simp: done_ok_def complete_def idx)
    moreover have "m < ?N" using w by (simp add: written_def)
    then have "unat (np_next_seq ?p + 1) = Suc m" using N by (simp add: m_def unat_u64_inc)
    ultimately have "listener_ok t i" using li L_Info p \<open>m < ?N\<close> by (auto simp: listener_ok_def t Let_def)
    then show ?thesis using loc p L_Info by simp
  qed (use eq inv in \<open>auto simp: Listen_step_def t fun_upd_idem\<close>)
qed

lemma listener_ok_frame:
  assumes "listener_ok s j" and "ns_start t j = ns_start s j" "ns_got t j = ns_got s j"
    and "np_next_seq (ns_proc t j) = np_next_seq (ns_proc s j)"
    and pc: "np_pc (ns_proc t j) = np_pc (ns_proc s j)
      \<or> np_pc (ns_proc s j) \<noteq> NT_Off \<and> np_pc (ns_proc t j) \<noteq> L_Seq \<and> (\<forall>idx. np_pc (ns_proc t j) \<noteq> L_Info idx)"
    and sent: "\<exists>xs. ns_sent t = ns_sent s @ xs" and wr: "\<And>m. written s m \<Longrightarrow> written t m"
  shows "listener_ok t j"
proof (cases "np_pc (ns_proc t j) = NT_Off")
  case False
  obtain xs where xs: "ns_sent t = ns_sent s @ xs" using sent by blast
  define m where "m = unat (np_next_seq (ns_proc s j))"
  have "np_pc (ns_proc s j) \<noteq> NT_Off" using pc False by auto
  with assms(1) have old: "0 < ns_start s j" "ns_start s j \<le> m" "m \<le> length (ns_sent s)" "ns_got s j = map ((!) (ns_sent s)) [ns_start s j..<m]"
    "np_pc (ns_proc s j) = L_Seq \<Longrightarrow> m < length (ns_sent s)"
    "\<And>idx. np_pc (ns_proc s j) = L_Info idx \<Longrightarrow> idx = m mod kBufLength \<and> written s m"
    by (simp_all add: listener_ok_def Let_def m_def)
  have "map ((!) (ns_sent s @ xs)) [ns_start s j..<m] = map ((!) (ns_sent s)) [ns_start s j..<m]"
    using old(3) by (intro map_cong refl) (simp add: nth_append)
  moreover have "np_pc (ns_proc t j) = L_Seq \<longrightarrow> m < length (ns_sent s @ xs)" using pc old(5) by auto
  moreover have "\<forall>idx. np_pc (ns_proc t j) = L_Info idx \<longrightarrow> idx = m mod kBufLength \<and> written t m" using pc old(6) wr by auto
  ultimately show ?thesis
    using old(1-4) assms(2-4) unfolding listener_ok_def Let_def xs by (simp add: m_def)
qed (simp add: listener_ok_def)

lemma nt_inv_fetch:
  assumes inv: "nt_inv s" and pc: "np_pc (ns_proc s i) = N_Fetch info"
    and t: "t = s\<lparr>ns_ind := (ns_ind s)\<lparr>in_next_seq := in_next_seq (ns_ind s) + 1\<rparr>,
      ns_proc := (ns_proc s)(i := (ns_proc s i)\<lparr>np_pc := N_Info info (in_next_seq (ns_ind s))\<rparr>), ns_sent := ns_sent s @ [info]\<rparr>"
    and ku: "keeps_up t"
  shows "nt_inv t"
proof -
  let ?N = "length (ns_sent s)"
  have N: "?N < 18446744073709551616" using keeps_upD(1) [OF nt_invD(1) [OF inv]] .
  have nx: "in_next_seq (ns_ind s) = of_nat ?N" "unat (of_nat ?N :: u64) = ?N"
    using nt_invD(3) [OF inv] N by (simp_all add: slots_ok_def unat_u64_of_nat)
  have wt: "writing (np_pc (ns_proc t j)) = (if j = i then Some (of_nat ?N) else writing (np_pc (ns_proc s j)))" for j
    by (simp add: t nx(1))
  note sl = nt_invD(3) [OF inv] and wr = nt_invD(4) [OF inv]
  have old: "unat n < ?N" "n \<noteq> of_nat ?N" if "writing (np_pc (ns_proc s j)) = Some n" for j n
    using writers_okD(1) [OF wr that] nx(2) by auto
  have "slots_ok t" using sl by (auto simp: slots_ok_def t less_Suc_eq)
  moreover have "writers_ok t"
    unfolding writers_ok_def
  proof (intro conjI allI impI)
    fix j n assume w: "writing (np_pc (ns_proc t j)) = Some n"
    have "unat (in_seqs (ns_ind s) (slot_of (of_nat ?N))) < ?N" using slots_okD(2) [OF sl slot_lt(1)] .
    then have "in_seqs (ns_ind s) (slot_of (of_nat ?N)) < of_nat ?N" by (simp add: word_less_nat_alt nx(2))
    then show "unat n < length (ns_sent t)" "in_seqs (ns_ind t) (slot_of n) < n"
      using w writers_okD(2) [OF wr, of j n] old(1) [of j n] nx(2) by (auto simp: wt t nx(1) split: if_splits)
  next
    fix j k n assume "writing (np_pc (ns_proc t j)) = Some n \<and> writing (np_pc (ns_proc t k)) = Some n"
    then show "j = k" using writers_okD(3) [OF wr, of j n k] old(2) [of j n] old(2) [of k n] by (auto simp: wt split: if_splits)
  next
    fix j info' n assume "np_pc (ns_proc t j) = N_Info info' n"
    then show "info' = ns_sent t ! unat n"
      using writers_okD(4) [OF wr, of j info' n] old(1) [of j n] nx by (auto simp: t nth_append split: if_splits)
  next
    fix j n assume "np_pc (ns_proc t j) = N_Seq n"
    then show "in_infos (ns_ind t) (slot_of n) = ns_sent t ! unat n"
      using writers_okD(5) [OF wr, of j n] old(1) [of j n] by (auto simp: t nth_append split: if_splits)
  qed
  moreover have wri: "written s n" if "written t n" for n
  proof -
    have "n \<noteq> ?N" using that wt [of i] unfolding written_def by (metis (full_types))
    moreover have "writing (np_pc (ns_proc s j)) \<noteq> Some (of_nat n)" for j
      using that wt [of j] pc unfolding written_def by (metis option.distinct(1) writing.simps(5))
    ultimately show ?thesis using that by (auto simp: written_def t less_Suc_eq)
  qed
  have "done_ok t"
    unfolding done_ok_def
  proof (intro allI impI)
    fix n assume n: "written t n \<and> length (ns_sent t) \<le> n + kBufLength"
    then have "complete s n" using nt_invD(5) [OF inv] wri [of n] by (simp add: done_ok_def t)
    moreover have "n < ?N" using wri [of n] n by (simp add: written_def)
    ultimately show "complete t n" by (simp add: complete_def t nth_append)
  qed
  moreover have wrt: "written t n" if "written s n" for n
  proof -
    have "n < ?N" using that by (simp add: written_def)
    then have "unat (of_nat n :: u64) \<noteq> unat (of_nat ?N :: u64)" using N nx(2) by (simp add: unat_u64_of_nat)
    then have "(of_nat n :: u64) \<noteq> of_nat ?N" by auto
    then show ?thesis using that by (auto simp: written_def wt t nx(1))
  qed
  have "listener_ok t j" for j
  proof -
    show ?thesis using pc wrt by (intro listener_ok_frame [OF nt_invD(6) [OF inv]]) (auto simp: t)
  qed
  ultimately show ?thesis using ku by (simp add: nt_inv_def t)
qed

text \<open>Two notifications in work or complete within the window never share a slot.\<close>

lemma own_slot:
  assumes inv: "nt_inv s" and w: "writing (np_pc (ns_proc s i)) = Some n" and k: "k < length (ns_sent s)" "length (ns_sent s) \<le> k + kBufLength"
    and "k mod kBufLength = slot_of n"
  shows "k = unat n"
  by (rule window_unique [OF assms(5) [unfolded slot_of_def] k(1) writers_okD(1) [OF nt_invD(4) [OF inv] w] k(2)
        keeps_upD(2) [OF nt_invD(1) [OF inv] w]])

lemma nt_inv_write:
  assumes inv: "nt_inv s" and w: "writing (np_pc (ns_proc s i)) = Some n" and ku: "keeps_up t"
    and t: "t = s\<lparr>ns_ind := ind, ns_proc := (ns_proc s)(i := (ns_proc s i)\<lparr>np_pc := pc\<rparr>)\<rparr>"
    and eq: "Notify_step (np_pc (ns_proc s i)) (ns_ind s) = (pc, ind)"
  shows "nt_inv t"
proof -
  let ?N = "length (ns_sent s)"
  have N: "?N < 18446744073709551616" using keeps_upD(1) [OF nt_invD(1) [OF inv]] .
  note sl = nt_invD(3) [OF inv] and wr = nt_invD(4) [OF inv]
  note nN = writers_okD(1) [OF wr w] and own = own_slot [OF inv w]
  have cases: "(\<exists>info. np_pc (ns_proc s i) = N_Info info n \<and> pc = N_Seq n \<and> ind = (ns_ind s)\<lparr>in_infos := (in_infos (ns_ind s))(slot_of n := info)\<rparr>)
      \<or> np_pc (ns_proc s i) = N_Seq n \<and> pc = NT_Idle \<and> ind = (ns_ind s)\<lparr>in_seqs := (in_seqs (ns_ind s))(slot_of n := n)\<rparr>"
    using w eq by (cases "np_pc (ns_proc s i)") auto
  have other: "slot_of m \<noteq> slot_of n" if "writing (np_pc (ns_proc s j)) = Some m" "j \<noteq> i" for j m
  proof
    assume "slot_of m = slot_of n"
    then have "unat m mod kBufLength = slot_of n" by (simp only: slot_of_def [of m, symmetric])
    then have "unat m = unat n" by (rule own [OF writers_okD(1) [OF wr that(1)] keeps_upD(2) [OF nt_invD(1) [OF inv] that(1)]])
    then have "m = n" by (simp only: word_unat_eq_iff)
    then show False using writers_okD(3) [OF wr w, of j] that by simp
  qed
  have wt: "writing (np_pc (ns_proc t j)) = Some m \<Longrightarrow> writing (np_pc (ns_proc s j)) = Some m" for j m
    using cases by (auto simp: t w split: if_splits)
  have "in_seqs (ns_ind t) idx = 0 \<or> unat (in_seqs (ns_ind t) idx) mod kBufLength = idx"
    "unat (in_seqs (ns_ind t) idx) < length (ns_sent t)" if "idx < kBufLength" for idx
    using cases slots_okD [OF sl that] nN by (auto simp: t slot_of_def)
  moreover have "in_next_seq (ns_ind t) = of_nat (length (ns_sent t))" using cases sl by (auto simp: slots_ok_def t)
  ultimately have "slots_ok t" by (simp add: slots_ok_def)
  moreover have "writers_ok t"
    unfolding writers_ok_def
  proof (intro conjI allI impI)
    fix j m assume "writing (np_pc (ns_proc t j)) = Some m"
    note this and wt [OF this]
    then show "unat m < length (ns_sent t)" "in_seqs (ns_ind t) (slot_of m) < m"
      using cases writers_okD(1,2) [OF wr, of j m] other [of j m] by (auto simp: t split: if_splits)
  next
    fix j k m assume "writing (np_pc (ns_proc t j)) = Some m \<and> writing (np_pc (ns_proc t k)) = Some m"
    then show "j = k" using writers_okD(3) [OF wr, of j m k] wt by blast
  next
    fix j info m assume "np_pc (ns_proc t j) = N_Info info m"
    then show "info = ns_sent t ! unat m" using cases writers_okD(4) [OF wr, of j info m] by (auto simp: t split: if_splits)
  next
    fix j m assume j: "np_pc (ns_proc t j) = N_Seq m"
    show "in_infos (ns_ind t) (slot_of m) = ns_sent t ! unat m"
    proof (cases "j = i")
      case True
      then show ?thesis using j cases writers_okD(4) [OF wr, of i] by (auto simp: t)
    next
      case False
      then show ?thesis using j cases writers_okD(5) [OF wr, of j m] other [of j m] by (auto simp: t)
    qed
  qed
  moreover have keep: "complete t k" if "complete s k" "k < ?N" "?N \<le> k + kBufLength" "k \<noteq> unat n" for k
  proof -
    have "k mod kBufLength \<noteq> slot_of n" using own [OF that(2,3)] that(4) by blast
    then show ?thesis using that(1) cases by (auto simp: complete_def t)
  qed
  have "done_ok t"
    unfolding done_ok_def
  proof (intro allI impI)
    fix k assume k: "written t k \<and> length (ns_sent t) \<le> k + kBufLength"
    show "complete t k"
    proof (cases "k = unat n")
      case True
      have "writing (np_pc (ns_proc t i)) \<noteq> Some (of_nat k)" using k unfolding written_def by blast
      then have "writing pc \<noteq> Some n" by (simp add: t True)
      then have "np_pc (ns_proc s i) = N_Seq n" "ind = (ns_ind s)\<lparr>in_seqs := (in_seqs (ns_ind s))(slot_of n := n)\<rparr>"
        using cases by auto
      then show ?thesis using writers_okD(5) [OF wr, of i n] by (simp add: complete_def t True slot_of_def)
    next
      case False
      have "k < ?N" using k by (simp add: written_def t)
      then have "n \<noteq> of_nat k" using False N by (auto simp: unat_u64_of_nat)
      then have "writing (np_pc (ns_proc s j)) \<noteq> Some (of_nat k)" for j
        using k w unfolding written_def t by (cases "j = i") (auto dest: spec [of _ j])
      then have "written s k" using \<open>k < ?N\<close> by (simp add: written_def)
      then show ?thesis using keep [of k] k False nt_invD(5) [OF inv] by (simp add: done_ok_def written_def t)
    qed
  qed
  moreover have "listener_ok t j" for j
  proof -
    have len: "length (ns_sent t) = ?N" by (simp add: t)
    have "written t m" if "written s m" for m
      using that wt unfolding written_def len by blast
    then show ?thesis using cases by (intro listener_ok_frame [OF nt_invD(6) [OF inv]]) (auto simp: t)
  qed
  ultimately show ?thesis using ku nt_invD(2) [OF inv] by (simp add: nt_inv_def t)
qed

definition nt_run :: "nt_system \<Rightarrow> nt_system \<Rightarrow> bool" where
  "nt_run s t \<longleftrightarrow> nt_step s t \<and> keeps_up t"

interpretation nt_sys: invariant_system nt_init nt_run nt_inv
proof
  show "nt_inv s" if "nt_init s" for s
  proof -
    have pos: "0 < length (ns_sent s)" using that unfolding nt_init_def kBufLength_def by (metis gr_zeroI not_less_zero zero_less_numeral)
    then show ?thesis
      using that by (auto simp: nt_inv_def nt_init_def slots_ok_def writers_ok_def done_ok_def listener_ok_def written_def)
  qed
  show "nt_inv t" if inv: "nt_inv s" and run: "nt_run s t" for s t
  proof -
    have step: "nt_step s t" and ku: "keeps_up t" using run by (simp_all add: nt_run_def)
    show ?thesis
      using step
    proof cases
      case (nt_new i)
      have "unat (of_nat (length (ns_sent s)) :: u64) = length (ns_sent s)"
        using keeps_upD(1) [OF nt_invD(1) [OF inv]] by (simp add: unat_u64_of_nat)
      then have "listener_ok t i"
        using nt_new nt_invD(2,3) [OF inv] by (simp add: listener_ok_def ConditionNotifier_def slots_ok_def)
      then show ?thesis
        using nt_inv_local [OF inv ku nt_new(1)] nt_new by (simp add: ConditionNotifier_def)
    next
      case (nt_call i p info)
      then have "listener_ok t i" "writing (np_pc p) = None"
        using nt_invD(6) [OF inv, of i] by (auto simp: listener_ok_def Notify_def Listen_def NT_Shutdown_def Let_def split: if_splits)
      then show ?thesis
        using nt_inv_local [OF inv ku, where i = i and p = p and st = "ns_start s" and g = "ns_got s"] nt_call by simp
    next
      case (nt_notify i pc ind)
      show ?thesis
      proof (cases "np_pc (ns_proc s i)")
        case (N_Fetch info)
        then show ?thesis using nt_inv_fetch [OF inv N_Fetch _ ku] nt_notify by simp
      next
        case (N_Info info n)
        then show ?thesis using nt_inv_write [OF inv _ ku, where i = i and n = n and ind = ind and pc = pc] nt_notify by simp
      next
        case (N_Seq n)
        then show ?thesis using nt_inv_write [OF inv _ ku, where i = i and n = n and ind = ind and pc = pc] nt_notify by simp
      qed (use nt_notify inv in \<open>auto simp: fun_upd_idem\<close>)
    next
      case (nt_listen i p r)
      then show ?thesis using nt_inv_listen [OF inv _ _ ku] by blast
    next
      case (nt_retry i pc)
      then have "listener_ok t i" "writing pc = None"
        using nt_invD(6) [OF inv, of i] by (auto simp: listener_ok_def Let_def split: if_splits)
      then show ?thesis
        using nt_inv_local [OF inv ku, where i = i and p = "(ns_proc s i)\<lparr>np_pc := pc\<rparr>" and st = "ns_start s" and g = "ns_got s"] nt_retry by simp
    qed
  qed
qed

section \<open>Properties\<close>


definition info_of :: "u32 \<Rightarrow> readable_info" where
  "info_of n = \<lparr>ri_host_id = 1, ri_block_index = n, ri_channel_id = 9\<rparr>"

text \<open>Process 5 notifies, process 2 listens, after one earlier notification.\<close>

definition nt_demo :: "u64 \<Rightarrow> readable_info \<Rightarrow> u64 \<Rightarrow> notifier \<Rightarrow> notifier \<Rightarrow> readable_info list \<Rightarrow> readable_info list \<Rightarrow> nt_system" where
  "nt_demo next i1 s1 p q sent got =
     \<lparr>ns_ind = \<lparr>in_next_seq = next, in_infos = (\<lambda>_. ReadableInfo)(0 := info_of 4, 1 := i1), in_seqs = (\<lambda>_. 0)(1 := s1)\<rparr>,
      ns_proc = (\<lambda>_. \<lparr>np_pc = NT_Off, np_next_seq = 0, np_shutdown = False\<rparr>)(5 := p, 2 := q),
      ns_sent = sent, ns_start = (\<lambda>_. 0)(5 := if np_pc p = NT_Off then 0 else 1, 2 := if np_pc q = NT_Off then 0 else 1),
      ns_got = (\<lambda>_. [])(2 := got)\<rparr>"

definition at :: "nt_pc \<Rightarrow> u64 \<Rightarrow> notifier" where
  "at pc n = \<lparr>np_pc = pc, np_next_seq = n, np_shutdown = False\<rparr>"

lemma at_simps [simp]: "np_pc (at pc n) = pc" "np_next_seq (at pc n) = n" "np_shutdown (at pc n) = False"
  "(at pc n)\<lparr>np_pc := pc'\<rparr> = at pc' n" "(at pc n)\<lparr>np_next_seq := n'\<rparr> = at pc n'"
  by (simp_all add: at_def)

lemma short_keeps_up: "length (ns_sent s) \<le> kBufLength \<Longrightarrow> keeps_up s"
  by (auto simp: keeps_up_def kBufLength_def)


definition nt_fresh :: "nt_system \<Rightarrow> bool" where
  "nt_fresh s \<longleftrightarrow> ns_ind s = Indicator \<and> (\<forall>i. np_pc (ns_proc s i) = NT_Off) \<and> ns_sent s = []"

definition nt_first :: "u64 \<Rightarrow> nt_pc \<Rightarrow> notifier \<Rightarrow> readable_info list \<Rightarrow> readable_info list \<Rightarrow> nt_system" where
  "nt_first next p q sent got =
     \<lparr>ns_ind = Indicator\<lparr>in_next_seq := next\<rparr>, ns_proc = (\<lambda>_. at NT_Off 0)(5 := at p 0, 2 := q),
      ns_sent = sent, ns_start = (\<lambda>_. 0), ns_got = (\<lambda>_. [])(2 := got)\<rparr>"

text \<open>
  On a new indicator a process can receive the first notification before it is written. All numbers in the
  ring start as 0, which is also the number of the first notification: once that number is taken, a listener
  finds it in the ring and returns the default information instead of the one being sent.
\<close>

theorem first_notification_race:
  "\<exists>s. reachable_from nt_fresh nt_step s \<and> ns_sent s = [info] \<and> ns_got s 2 = [ReadableInfo]"
proof -
  let ?d = nt_first and ?off = "at NT_Off 0" and ?idle = "at NT_Idle 0" and ?w = "N_Info info 0"
  have "nt_fresh (?d 0 NT_Off ?off [] [])" by (simp add: nt_fresh_def nt_first_def Indicator_def)
  then have "reachable_from nt_fresh nt_step (?d 0 NT_Off ?off [] [])" by (rule reach_init)
  moreover have "nt_step (?d 0 NT_Off ?off [] []) (?d 0 NT_Idle ?off [] [])"
    using nt_new [of "?d 0 NT_Off ?off [] []" 5] by (simp add: nt_first_def ConditionNotifier_def at_def Indicator_def fun_upd_twist fun_upd_idem)
  moreover have "nt_step (?d 0 NT_Idle ?off [] []) (?d 0 NT_Idle ?idle [] [])"
    using nt_new [of "?d 0 NT_Idle ?off [] []" 2] by (simp add: nt_first_def ConditionNotifier_def at_def Indicator_def fun_upd_idem)
  moreover have "nt_step (?d 0 NT_Idle ?idle [] []) (?d 0 (N_Fetch info) ?idle [] [])"
    using nt_call [of "?d 0 NT_Idle ?idle [] []" 5 "at (N_Fetch info) 0" info] by (simp add: nt_first_def Notify_def fun_upd_twist)
  moreover have "nt_step (?d 0 (N_Fetch info) ?idle [] []) (?d 1 ?w ?idle [info] [])"
    using nt_notify [of "?d 0 (N_Fetch info) ?idle [] []" 5] by (simp add: nt_first_def Indicator_def fun_upd_twist)
  moreover have "nt_step (?d 1 ?w ?idle [info] []) (?d 1 ?w (at L_Load 0) [info] [])"
    using nt_call [of "?d 1 ?w ?idle [info] []" 2 "at L_Load 0"] by (simp add: nt_first_def Listen_def)
  moreover have "nt_step (?d 1 ?w (at L_Load 0) [info] []) (?d 1 ?w (at L_Seq 0) [info] [])"
    using nt_listen [of "?d 1 ?w (at L_Load 0) [info] []" 2] by (simp add: nt_first_def Listen_step_def)
  moreover have "nt_step (?d 1 ?w (at L_Seq 0) [info] []) (?d 1 ?w (at (L_Info 0) 0) [info] [])"
    using nt_listen [of "?d 1 ?w (at L_Seq 0) [info] []" 2] by (simp add: nt_first_def Listen_step_def Indicator_def slot_of_def)
  moreover have "nt_step (?d 1 ?w (at (L_Info 0) 0) [info] []) (?d 1 ?w (at NT_Idle 1) [info] [ReadableInfo])"
    using nt_listen [of "?d 1 ?w (at (L_Info 0) 0) [info] []" 2] by (simp add: nt_first_def Listen_step_def Indicator_def)
  ultimately have "reachable_from nt_fresh nt_step (?d 1 ?w (at NT_Idle 1) [info] [ReadableInfo])" by (meson reach_step)
  then show ?thesis by (intro exI conjI) (assumption, simp_all add: nt_first_def)
qed

end
