(* ===== verification/Listener_Dispatch.thy ===== *)
theory Listener_Dispatch
  imports Signal_Slots Message_Codec Atomic_Hash_Map
begin

text \<open>
  \<open>transport/message/listener_handler.h\<close> and \<open>transport/dispatcher/dispatcher\<close>: who is called when a
  message of a channel arrives.

  Listeners are identified by a value and calling one appends it, with the message and its information, to
  a log. A handler is shared between the table of its dispatcher and the calls that use it, so handlers live
  in a store. The dynamic type of a handler, which \<open>dynamic_pointer_cast\<close> tests, is a string.
  \<open>AddListener\<close> is split between its lookup and its insertion, which no lock holds together.
\<close>

section \<open>Signals whose callbacks only record calls\<close>

definition record_call :: "'cb \<Rightarrow> 'a \<Rightarrow> 'cb signal \<times> ('cb \<times> 'a) list \<Rightarrow> 'cb signal \<times> ('cb \<times> 'a) list" where
  "record_call cb a sw = (fst sw, snd sw @ [(cb, a)])"

lemma emit_loop:
  "fold (Slot_call record_call a) ps (s, log) = (s, log @ map (\<lambda>cb. (cb, a)) (concat (map (slot_calls s) ps)))"
  by (induction ps arbitrary: log) (auto simp: Slot_call_def record_call_def slot_calls_def split: option.split)

lemma emit: "Signal_call record_call a (s, log) = (ClearDisconnectedSlots s, log @ map (\<lambda>cb. (cb, a)) (callbacks s))"
  by (simp add: Signal_call_def emit_loop callbacks_def)

lemma callbacks_live: "callbacks s = concat (map (slot_calls s) (live_slots s))"
  using callbacks_Clear [of s] by (simp add: callbacks_def)

lemma Connect_live:
  assumes "signal_ok s"
  shows "live_slots (snd (Connect cb s)) = live_slots s @ [next_slot s]"
    "p < next_slot s \<Longrightarrow> slot_store (snd (Connect cb s)) p = slot_store s p"
    "slot_cb (slot_store (snd (Connect cb s)) (next_slot s)) = cb"
    "IsConnected (snd (Connect cb s)) (fst (Connect cb s))"
    "fst (Connect cb s) = \<lparr>conn_slot = Some (next_slot s), conn_signal = True\<rparr>"
proof -
  have "filter (Slot_connected (snd (Connect cb s))) (slots s) = filter (Slot_connected s) (slots s)"
    using assms by (intro filter_cong refl) (auto simp: signal_ok_def Connect_def Slot_connected_def)
  moreover have "slots (snd (Connect cb s)) = slots s @ [next_slot s]" "Slot_connected (snd (Connect cb s)) (next_slot s)"
    by (simp_all add: Connect_def Slot_def)
  ultimately show "live_slots (snd (Connect cb s)) = live_slots s @ [next_slot s]" by (simp add: live_slots_def)
qed (simp_all add: Connect_def Slot_def IsConnected_def Slot_connected_def)

lemma filter_single: "distinct xs \<Longrightarrow> p \<in> set xs \<Longrightarrow> filter (\<lambda>q. q = p) xs = [p]"
  by (induction xs) (auto simp: filter_empty_conv)

lemma Disconnect_live:
  assumes "signal_ok s" and "p \<in> set (live_slots s)" and "conn = \<lparr>conn_slot = Some p, conn_signal = True\<rparr>"
  shows "live_slots (snd (Connection_Disconnect conn s)) = filter (\<lambda>q. q \<noteq> p) (live_slots s)"
    "slot_cb (slot_store (snd (Connection_Disconnect conn s)) q) = slot_cb (slot_store s q)"
proof -
  have has: "HasSlot conn = (\<lambda>q. q = p)" by (auto simp: HasSlot_def assms(3))
  have p: "p \<in> set (slots s)" using assms(2) by (simp add: live_slots_def)
  have only: "filter (HasSlot conn) (slots s) = [p]" using assms(1) p unfolding has by (simp add: signal_ok_def filter_single)
  have ex: "\<exists>q \<in> set (slots s). HasSlot conn q" using p by (simp add: has)
  have "Signal_Disconnect conn s = (True, ClearDisconnectedSlots (Slot_Disconnect p s))"
    using ex by (simp only: Signal_Disconnect_def Disconnect_loop Let_def only) simp
  then have "snd (Connection_Disconnect conn s) = ClearDisconnectedSlots (Slot_Disconnect p s)"
    by (simp add: Connection_Disconnect_def assms(3))
  then show "live_slots (snd (Connection_Disconnect conn s)) = filter (\<lambda>q. q \<noteq> p) (live_slots s)"
    "slot_cb (slot_store (snd (Connection_Disconnect conn s)) q) = slot_cb (slot_store s q)"
    by (auto simp: live_slots_def intro: filter_cong)
qed

section \<open>Listener handlers\<close>

record 'cb listener_handler =
  lh_type :: string
  lh_signal :: "'cb signal"
  lh_signal_conns :: "(u64, connection) umap"
  lh_signals :: "(u64, 'cb signal) umap"
  lh_signals_conns :: "(u64, (u64, connection) umap) umap"

definition ListenerHandler :: "string \<Rightarrow> 'cb listener_handler" where
  "ListenerHandler ty = \<lparr>lh_type = ty, lh_signal = Signal_new, lh_signal_conns = [], lh_signals = [], lh_signals_conns = []\<rparr>"

definition LH_Connect :: "u64 \<Rightarrow> 'cb \<Rightarrow> 'cb listener_handler \<Rightarrow> 'cb listener_handler" where
  "LH_Connect self_id listener h =
     (let (conn, s) = Connect (Some listener) (lh_signal h); h1 = h\<lparr>lh_signal := s\<rparr>
      in if \<not> IsConnected s conn then h1 else h1\<lparr>lh_signal_conns := um_put self_id conn (lh_signal_conns h1)\<rparr>)"

definition LH_Connect_from :: "u64 \<Rightarrow> u64 \<Rightarrow> 'cb \<Rightarrow> 'cb listener_handler \<Rightarrow> 'cb listener_handler" where
  "LH_Connect_from self_id oppo_id listener h =
     (let sigs = (if um_find (lh_signals h) oppo_id = None then um_put oppo_id Signal_new (lh_signals h) else lh_signals h);
          (conn, s) = Connect (Some listener) (um_at Signal_new sigs oppo_id);
          h1 = h\<lparr>lh_signals := um_put oppo_id s sigs\<rparr>
      in if \<not> IsConnected s conn then h1
         else
           let conns = (if um_find (lh_signals_conns h1) oppo_id = None then um_put oppo_id [] (lh_signals_conns h1) else lh_signals_conns h1)
           in h1\<lparr>lh_signals_conns := um_put oppo_id (um_put self_id conn (um_at [] conns oppo_id)) conns\<rparr>)"

definition LH_Disconnect :: "u64 \<Rightarrow> 'cb listener_handler \<Rightarrow> 'cb listener_handler" where
  "LH_Disconnect self_id h =
     (case um_find (lh_signal_conns h) self_id of
        None \<Rightarrow> h
      | Some conn \<Rightarrow> h\<lparr>lh_signal := snd (Connection_Disconnect conn (lh_signal h)),
                      lh_signal_conns := um_erase self_id (lh_signal_conns h)\<rparr>)"

definition LH_Disconnect_from :: "u64 \<Rightarrow> u64 \<Rightarrow> 'cb listener_handler \<Rightarrow> 'cb listener_handler" where
  "LH_Disconnect_from self_id oppo_id h =
     (case um_find (lh_signals_conns h) oppo_id of
        None \<Rightarrow> h
      | Some conns \<Rightarrow>
          (case um_find conns self_id of
             None \<Rightarrow> h
           | Some conn \<Rightarrow>
               h\<lparr>lh_signals := um_put oppo_id (snd (Connection_Disconnect conn (um_at Signal_new (lh_signals h) oppo_id))) (lh_signals h),
                 lh_signals_conns := um_put oppo_id (um_erase self_id conns) (lh_signals_conns h)\<rparr>))"

type_synonym ('cb, 'm) call_log = "('cb \<times> 'm \<times> message_info) list"

definition LH_Run :: "'m \<Rightarrow> message_info \<Rightarrow> 'cb listener_handler \<times> ('cb, 'm) call_log \<Rightarrow> 'cb listener_handler \<times> ('cb, 'm) call_log" where
  "LH_Run msg info = (\<lambda>(h, log).
     let (s, log1) = Signal_call record_call (msg, info) (lh_signal h, log);
         h1 = h\<lparr>lh_signal := s\<rparr>;
         oppo_id = id_hash (sender_id info)
     in case um_find (lh_signals h1) oppo_id of
          None \<Rightarrow> (h1, log1)
        | Some sig \<Rightarrow>
            let (s', log2) = Signal_call record_call (msg, info) (sig, log1)
            in (h1\<lparr>lh_signals := um_put oppo_id s' (lh_signals h1)\<rparr>, log2))"

definition LH_RunFromString ::
  "(byte list \<Rightarrow> 'm option) \<Rightarrow> byte list \<Rightarrow> message_info \<Rightarrow> 'cb listener_handler \<times> ('cb, 'm) call_log \<Rightarrow> 'cb listener_handler \<times> ('cb, 'm) call_log" where
  "LH_RunFromString ParseFromHC str info hl = (case ParseFromHC str of Some msg \<Rightarrow> LH_Run msg info hl | None \<Rightarrow> hl)"

section \<open>Which listeners a handler calls\<close>

text \<open>A signal and its table of connections stand for the list of connected readers and their listeners.\<close>

definition rep :: "'cb signal \<Rightarrow> (u64, connection) umap \<Rightarrow> (u64 \<times> 'cb) list \<Rightarrow> bool" where
  "rep s conns L \<longleftrightarrow> signal_ok s \<and> distinct (map fst L) \<and> um_keys conns = fst ` set L
     \<and> list_all2 (\<lambda>p x. um_find conns (fst x) = Some \<lparr>conn_slot = Some p, conn_signal = True\<rparr> \<and> slot_cb (slot_store s p) = Some (snd x))
         (live_slots s) L"

lemma rep_new: "rep Signal_new [] []"
  by (simp add: rep_def) (simp add: Signal_new_def live_slots_def)

lemma live_slots_lt: "signal_ok s \<Longrightarrow> p \<in> set (live_slots s) \<Longrightarrow> p < next_slot s"
  by (auto simp: signal_ok_def live_slots_def)

lemma rep_connect:
  assumes r: "rep s conns L" and new: "self \<notin> fst ` set L"
  shows "rep (snd (Connect (Some cb) s)) (um_put self (fst (Connect (Some cb) s)) conns) (L @ [(self, cb)])"
proof -
  have ok: "signal_ok s" using r by (simp add: rep_def)
  note C = Connect_live [OF ok, where cb = "Some cb"]
  have "list_all2 (\<lambda>p x. um_find (um_put self (fst (Connect (Some cb) s)) conns) (fst x) = Some \<lparr>conn_slot = Some p, conn_signal = True\<rparr>
      \<and> slot_cb (slot_store (snd (Connect (Some cb) s)) p) = Some (snd x)) (live_slots s) L"
  proof (rule list.rel_mono_strong [OF conjunct2 [OF conjunct2 [OF conjunct2 [OF r [unfolded rep_def]]]]])
    fix p x assume px: "p \<in> set (live_slots s)" "x \<in> set L"
      "um_find conns (fst x) = Some \<lparr>conn_slot = Some p, conn_signal = True\<rparr> \<and> slot_cb (slot_store s p) = Some (snd x)"
    then have "fst x \<noteq> self" "p < next_slot s" using new live_slots_lt [OF ok] by auto
    then show "um_find (um_put self (fst (Connect (Some cb) s)) conns) (fst x) = Some \<lparr>conn_slot = Some p, conn_signal = True\<rparr>
      \<and> slot_cb (slot_store (snd (Connect (Some cb) s)) p) = Some (snd x)"
      using px(3) C(2) by (simp add: um_find_put)
  qed
  then show ?thesis
    using r new C(1,3,5) by (auto simp: rep_def signal_ok_Connect list_all2_appendI um_find_put)
qed

lemma list_all2_filter:
  assumes "list_all2 R xs ys" and "\<And>i. i < length xs \<Longrightarrow> P (xs ! i) \<longleftrightarrow> Q (ys ! i)"
  shows "list_all2 R (filter P xs) (filter Q ys)"
  using assms
proof (induction rule: list_all2_induct)
  case (Cons x xs y ys)
  have "P x \<longleftrightarrow> Q y" using Cons.prems [of 0] by simp
  moreover have "list_all2 R (filter P xs) (filter Q ys)" using Cons.IH Cons.prems [of "Suc i" for i] by simp
  ultimately show ?case using Cons.hyps by simp
qed simp

lemma rep_disconnect:
  assumes r: "rep s conns L" and found: "um_find conns self = Some conn"
  shows "rep (snd (Connection_Disconnect conn s)) (um_erase self conns) (filter (\<lambda>x. fst x \<noteq> self) L)"
proof -
  let ?R = "\<lambda>p x. um_find conns (fst x) = Some \<lparr>conn_slot = Some p, conn_signal = True\<rparr> \<and> slot_cb (slot_store s p) = Some (snd x)"
  have ok: "signal_ok s" and d: "distinct (map fst L)" and keys: "um_keys conns = fst ` set L" and all: "list_all2 ?R (live_slots s) L"
    using r by (simp_all add: rep_def)
  have dl: "distinct (live_slots s)" using ok by (simp add: signal_ok_def live_slots_def)
  have "self \<in> fst ` set L" using found keys um_keys_find [of self conns] by auto
  then obtain i where i: "i < length L" "fst (L ! i) = self" by (auto simp: in_set_conv_nth image_iff)
  define p where "p = live_slots s ! i"
  have len: "length (live_slots s) = length L" using all by (rule list_all2_lengthD)
  have conn: "conn = \<lparr>conn_slot = Some p, conn_signal = True\<rparr>"
    using list_all2_nthD2 [OF all i(1)] i(2) found by (simp add: p_def)
  have p: "p \<in> set (live_slots s)" using i(1) len by (simp add: p_def)
  note D = Disconnect_live [OF ok p conn]
  have "list_all2 ?R (filter (\<lambda>q. q \<noteq> p) (live_slots s)) (filter (\<lambda>x. fst x \<noteq> self) L)"
  proof (rule list_all2_filter [OF all])
    fix j assume j: "j < length (live_slots s)"
    have "live_slots s ! j = p \<longleftrightarrow> j = i" using dl j i(1) len by (simp add: p_def nth_eq_iff_index_eq)
    moreover have "fst (L ! j) = self \<longleftrightarrow> j = i"
      using d j i len nth_eq_iff_index_eq [of "map fst L" j i] by simp
    ultimately show "live_slots s ! j \<noteq> p \<longleftrightarrow> fst (L ! j) \<noteq> self" by simp
  qed
  then have "list_all2 (\<lambda>q x. um_find (um_erase self conns) (fst x) = Some \<lparr>conn_slot = Some q, conn_signal = True\<rparr>
      \<and> slot_cb (slot_store (snd (Connection_Disconnect conn s)) q) = Some (snd x))
      (live_slots (snd (Connection_Disconnect conn s))) (filter (\<lambda>x. fst x \<noteq> self) L)"
    unfolding D(1) by (rule list.rel_mono_strong) (auto simp: um_find_erase D(2))
  moreover have "distinct (map fst (filter (\<lambda>x. fst x \<noteq> self) L))" using d by (rule distinct_map_filter)
  ultimately show ?thesis
    using ok keys by (auto simp: rep_def signal_ok_Disconnect)
qed

lemma rep_callbacks:
  assumes "rep s conns L"
  shows "callbacks s = map snd L"
proof -
  have "list_all2 (\<lambda>p x. slot_cb (slot_store s p) = Some (snd x)) ps L \<Longrightarrow> \<forall>p \<in> set ps. Slot_connected s p
      \<Longrightarrow> concat (map (slot_calls s) ps) = map snd L" for ps
    by (induction rule: list_all2_induct) (auto simp: slot_calls_def)
  moreover have "list_all2 (\<lambda>p x. slot_cb (slot_store s p) = Some (snd x)) (live_slots s) L"
    using assms by (auto simp: rep_def elim: list_all2_mono)
  ultimately show ?thesis by (simp add: callbacks_live live_slots_def)
qed

lemma rep_Clear: "rep s conns L \<Longrightarrow> rep (ClearDisconnectedSlots s) conns L"
  by (simp add: rep_def signal_ok_Clear)

lemma rep_emit:
  assumes "rep s conns L" and "Signal_call record_call a (s, log) = (s', log')"
  shows "rep s' conns L" "log' = log @ map (\<lambda>x. (snd x, a)) L"
  using assms rep_Clear [OF assms(1)] by (auto simp: emit rep_callbacks [OF assms(1)])

text \<open>
  The specification of a handler: the readers of all senders and, for each sender, the readers of that
  sender, each with its listener, in the order of connection.
\<close>

type_synonym 'cb handler_spec = "(u64 \<times> 'cb) list \<times> (u64 \<Rightarrow> (u64 \<times> 'cb) list)"

definition handler_rep :: "'cb listener_handler \<Rightarrow> 'cb handler_spec \<Rightarrow> bool" where
  "handler_rep h = (\<lambda>(A, F). rep (lh_signal h) (lh_signal_conns h) A
     \<and> (\<forall>oppo. rep (um_at Signal_new (lh_signals h) oppo) (um_at [] (lh_signals_conns h) oppo) (F oppo)))"

datatype 'cb lh_op = Op_Connect u64 'cb | Op_Connect_from u64 u64 'cb | Op_Disconnect u64 | Op_Disconnect_from u64 u64

fun lh_exec :: "'cb lh_op \<Rightarrow> 'cb listener_handler \<Rightarrow> 'cb listener_handler" where
  "lh_exec (Op_Connect self cb) h = LH_Connect self cb h"
| "lh_exec (Op_Connect_from self oppo cb) h = LH_Connect_from self oppo cb h"
| "lh_exec (Op_Disconnect self) h = LH_Disconnect self h"
| "lh_exec (Op_Disconnect_from self oppo) h = LH_Disconnect_from self oppo h"

fun lh_spec :: "'cb lh_op \<Rightarrow> 'cb handler_spec \<Rightarrow> 'cb handler_spec" where
  "lh_spec (Op_Connect self cb) (A, F) = (A @ [(self, cb)], F)"
| "lh_spec (Op_Connect_from self oppo cb) (A, F) = (A, F(oppo := F oppo @ [(self, cb)]))"
| "lh_spec (Op_Disconnect self) (A, F) = (filter (\<lambda>x. fst x \<noteq> self) A, F)"
| "lh_spec (Op_Disconnect_from self oppo) (A, F) = (A, F(oppo := filter (\<lambda>x. fst x \<noteq> self) (F oppo)))"

text \<open>A reader connects only when it is not connected.\<close>

fun lh_orderly :: "'cb lh_op \<Rightarrow> 'cb handler_spec \<Rightarrow> bool" where
  "lh_orderly (Op_Connect self cb) (A, F) \<longleftrightarrow> self \<notin> fst ` set A"
| "lh_orderly (Op_Connect_from self oppo cb) (A, F) \<longleftrightarrow> self \<notin> fst ` set (F oppo)"
| "lh_orderly _ _ \<longleftrightarrow> True"

lemma um_at_None: "um_find m k = None \<Longrightarrow> um_at d m k = d"
  by (simp add: um_at_def)

lemma lh_exec_rep:
  assumes r: "handler_rep h (A, F)" and o: "lh_orderly op (A, F)"
  shows "handler_rep (lh_exec op h) (lh_spec op (A, F))"
proof -
  have rA: "rep (lh_signal h) (lh_signal_conns h) A"
    and rF: "rep (um_at Signal_new (lh_signals h) oppo) (um_at [] (lh_signals_conns h) oppo) (F oppo)" for oppo
    using r by (simp_all add: handler_rep_def)
  show ?thesis
  proof (cases op)
    case (Op_Connect self cb)
    have "IsConnected (snd (Connect (Some cb) (lh_signal h))) (fst (Connect (Some cb) (lh_signal h)))"
      using rA Connect_live(4) by (auto simp: rep_def)
    then show ?thesis
      using rep_connect [OF rA, of self cb] o rF Op_Connect by (simp add: handler_rep_def LH_Connect_def split_beta Let_def)
  next
    case (Op_Connect_from self oppo cb)
    let ?s = "um_at Signal_new (lh_signals h) oppo"
    have "IsConnected (snd (Connect (Some cb) ?s)) (fst (Connect (Some cb) ?s))"
      using rF [of oppo] Connect_live(4) by (auto simp: rep_def)
    then show ?thesis
      using rep_connect [OF rF [of oppo], of self cb] o rA rF Op_Connect_from
      by (auto simp: handler_rep_def LH_Connect_from_def split_beta Let_def um_simps um_at_None split: if_splits)
  next
    case (Op_Disconnect self)
    show ?thesis
    proof (cases "um_find (lh_signal_conns h) self")
      case None
      then have "self \<notin> fst ` set A" using rA um_keys_find [of self "lh_signal_conns h"] by (auto simp: rep_def)
      then have "filter (\<lambda>x. fst x \<noteq> self) A = A" by (auto simp: filter_id_conv)
      then show ?thesis using r Op_Disconnect None by (simp add: LH_Disconnect_def)
    next
      case (Some conn)
      then show ?thesis using rep_disconnect [OF rA Some] rF Op_Disconnect by (simp add: handler_rep_def LH_Disconnect_def)
    qed
  next
    case (Op_Disconnect_from self oppo)
    show ?thesis
    proof (cases "um_find (um_at [] (lh_signals_conns h) oppo) self")
      case None
      then have "self \<notin> fst ` set (F oppo)" using rF [of oppo] um_keys_find [of self "um_at [] (lh_signals_conns h) oppo"] by (auto simp: rep_def)
      then have "filter (\<lambda>x. fst x \<noteq> self) (F oppo) = F oppo" by (auto simp: filter_id_conv)
      moreover have "LH_Disconnect_from self oppo h = h"
        using None by (auto simp: LH_Disconnect_from_def um_at_def split: option.splits)
      ultimately show ?thesis using r Op_Disconnect_from by simp
    next
      case (Some conn)
      then obtain conns where c: "um_find (lh_signals_conns h) oppo = Some conns" "um_find conns self = Some conn"
        by (auto simp: um_at_def split: option.splits)
      then show ?thesis
        using rep_disconnect [OF rF [of oppo] Some] rA rF Op_Disconnect_from
        by (auto simp: handler_rep_def LH_Disconnect_from_def um_simps) (simp add: um_at_def)
    qed
  qed
qed

lemma LH_Run_rep:
  assumes r: "handler_rep h (A, F)" and run: "LH_Run msg info (h, log) = (h', log')"
  shows "handler_rep h' (A, F) \<and> lh_type h' = lh_type h
    \<and> log' = log @ map (\<lambda>x. (snd x, msg, info)) (A @ F (id_hash (sender_id info)))"
proof -
  let ?o = "id_hash (sender_id info)"
  have rA: "rep (lh_signal h) (lh_signal_conns h) A"
    and rF: "rep (um_at Signal_new (lh_signals h) oppo) (um_at [] (lh_signals_conns h) oppo) (F oppo)" for oppo
    using r by (simp_all add: handler_rep_def)
  obtain s log1 where e1: "Signal_call record_call (msg, info) (lh_signal h, log) = (s, log1)" by fastforce
  note E1 = rep_emit [OF rA e1]
  show ?thesis
  proof (cases "um_find (lh_signals h) ?o")
    case None
    then have "F ?o = []" using rF [of ?o] by (simp add: um_at_def rep_def) (simp add: Signal_new_def live_slots_def)
    then show ?thesis using run None e1 E1 rF by (auto simp: LH_Run_def handler_rep_def)
  next
    case (Some sig)
    obtain s2 log2 where e2: "Signal_call record_call (msg, info) (sig, log1) = (s2, log2)" by fastforce
    have "rep sig (um_at [] (lh_signals_conns h) ?o) (F ?o)" using rF [of ?o] Some by (simp add: um_at_def)
    note E2 = rep_emit [OF this e2]
    have "h' = h\<lparr>lh_signal := s, lh_signals := um_put ?o s2 (lh_signals h)\<rparr>" "log' = log2"
      using run Some e1 e2 by (simp_all add: LH_Run_def Let_def)
    then show ?thesis using E1 E2 rF by (auto simp: handler_rep_def um_at_put)
  qed
qed

section \<open>The dispatcher\<close>

record 'cb dispatcher =
  dp_is_shutdown :: bool
  dp_msg_listeners :: "nat atomic_hash_map"
  dp_handlers :: "nat \<Rightarrow> 'cb listener_handler"
  dp_next :: nat

definition Dispatcher :: "'cb dispatcher" where
  "Dispatcher = \<lparr>dp_is_shutdown = False, dp_msg_listeners = AtomicHashMap 128, dp_handlers = (\<lambda>_. ListenerHandler []), dp_next = 0\<rparr>"

definition DP_Shutdown :: "'cb dispatcher \<Rightarrow> 'cb dispatcher" where
  "DP_Shutdown d = d\<lparr>dp_is_shutdown := True\<rparr>"

definition HasChannel :: "'cb dispatcher \<Rightarrow> u64 \<Rightarrow> bool" where
  "HasChannel d ch = AHM_Has (dp_msg_listeners d) ch"

datatype lookup = Refused | Missing | Found nat

definition AddListener_lookup :: "string \<Rightarrow> u64 \<Rightarrow> 'cb dispatcher \<Rightarrow> lookup" where
  "AddListener_lookup ty ch d =
     (if dp_is_shutdown d then Refused
      else case AHM_Get (dp_msg_listeners d) ch of
        None \<Rightarrow> Missing
      | Some h \<Rightarrow> if lh_type (dp_handlers d h) = ty then Found h else Refused)"

definition AddListener_finish :: "string \<Rightarrow> u64 \<Rightarrow> ('cb listener_handler \<Rightarrow> 'cb listener_handler) \<Rightarrow> lookup \<Rightarrow> 'cb dispatcher \<Rightarrow> 'cb dispatcher" where
  "AddListener_finish ty ch connect r d =
     (case r of
        Refused \<Rightarrow> d
      | Found h \<Rightarrow> d\<lparr>dp_handlers := (dp_handlers d)(h := connect (dp_handlers d h))\<rparr>
      | Missing \<Rightarrow>
          let h = dp_next d
          in d\<lparr>dp_msg_listeners := AHM_Set (dp_msg_listeners d) ch h, dp_handlers := (dp_handlers d)(h := connect (ListenerHandler ty)),
               dp_next := h + 1\<rparr>)"

definition AddListener :: "string \<Rightarrow> role_attributes \<Rightarrow> 'cb \<Rightarrow> 'cb dispatcher \<Rightarrow> 'cb dispatcher" where
  "AddListener ty self_attr listener d =
     AddListener_finish ty (channel_id self_attr) (LH_Connect (role_id self_attr) listener) (AddListener_lookup ty (channel_id self_attr) d) d"

definition AddListener_from :: "string \<Rightarrow> role_attributes \<Rightarrow> role_attributes \<Rightarrow> 'cb \<Rightarrow> 'cb dispatcher \<Rightarrow> 'cb dispatcher" where
  "AddListener_from ty self_attr opposite_attr listener d =
     AddListener_finish ty (channel_id self_attr) (LH_Connect_from (role_id self_attr) (role_id opposite_attr) listener)
       (AddListener_lookup ty (channel_id self_attr) d) d"

definition remove_listener :: "u64 \<Rightarrow> ('cb listener_handler \<Rightarrow> 'cb listener_handler) \<Rightarrow> 'cb dispatcher \<Rightarrow> 'cb dispatcher" where
  "remove_listener ch disconnect d =
     (if dp_is_shutdown d then d
      else case AHM_Get (dp_msg_listeners d) ch of
        None \<Rightarrow> d
      | Some h \<Rightarrow> d\<lparr>dp_handlers := (dp_handlers d)(h := disconnect (dp_handlers d h))\<rparr>)"

definition RemoveListener :: "role_attributes \<Rightarrow> 'cb dispatcher \<Rightarrow> 'cb dispatcher" where
  "RemoveListener self_attr = remove_listener (channel_id self_attr) (LH_Disconnect (role_id self_attr))"

definition RemoveListener_from :: "role_attributes \<Rightarrow> role_attributes \<Rightarrow> 'cb dispatcher \<Rightarrow> 'cb dispatcher" where
  "RemoveListener_from self_attr opposite_attr =
     remove_listener (channel_id self_attr) (LH_Disconnect_from (role_id self_attr) (role_id opposite_attr))"

text \<open>
  What the dispatchers of shared memory and of RTPS do with a message that has arrived, where \<open>ty\<close> is the type
  of message all their listeners take; the result is \<^const>\<open>None\<close> when a handler of another type is
  dereferenced after a failed cast.
\<close>

definition OnMessage ::
  "string \<Rightarrow> u64 \<Rightarrow> 'm \<Rightarrow> message_info \<Rightarrow> 'cb dispatcher \<times> ('cb, 'm) call_log \<Rightarrow> ('cb dispatcher \<times> ('cb, 'm) call_log) option" where
  "OnMessage ty ch msg info = (\<lambda>(d, log).
     if dp_is_shutdown d then Some (d, log)
     else case AHM_Get (dp_msg_listeners d) ch of
       None \<Rightarrow> Some (d, log)
     | Some h \<Rightarrow>
         if lh_type (dp_handlers d h) \<noteq> ty then None
         else
           let (h', log') = LH_Run msg info (dp_handlers d h, log)
           in Some (d\<lparr>dp_handlers := (dp_handlers d)(h := h')\<rparr>, log'))"

type_synonym 'cb dispatch_spec = "u64 \<Rightarrow> (string \<times> 'cb handler_spec) option"

definition dispatch_rep :: "'cb dispatcher \<Rightarrow> 'cb dispatch_spec \<Rightarrow> bool" where
  "dispatch_rep d S \<longleftrightarrow> \<not> dp_is_shutdown d \<and> ahm_ok (dp_msg_listeners d)
     \<and> (\<forall>ch h. AHM_Get (dp_msg_listeners d) ch = Some h \<longrightarrow> h < dp_next d)
     \<and> (\<forall>ch ch' h. AHM_Get (dp_msg_listeners d) ch = Some h \<and> AHM_Get (dp_msg_listeners d) ch' = Some h \<longrightarrow> ch = ch')
     \<and> (\<forall>ch. case AHM_Get (dp_msg_listeners d) ch of
           None \<Rightarrow> S ch = None
         | Some h \<Rightarrow> \<exists>sp. S ch = Some (lh_type (dp_handlers d h), sp) \<and> handler_rep (dp_handlers d h) sp)"

lemma dispatch_repD:
  assumes "dispatch_rep d S"
  shows "\<not> dp_is_shutdown d" "ahm_ok (dp_msg_listeners d)" "AHM_Get (dp_msg_listeners d) ch = Some h \<Longrightarrow> h < dp_next d"
    "AHM_Get (dp_msg_listeners d) ch = Some h \<Longrightarrow> AHM_Get (dp_msg_listeners d) ch' = Some h \<Longrightarrow> ch = ch'"
    "AHM_Get (dp_msg_listeners d) ch = None \<Longrightarrow> S ch = None"
    "AHM_Get (dp_msg_listeners d) ch = Some h \<Longrightarrow> \<exists>sp. S ch = Some (lh_type (dp_handlers d h), sp) \<and> handler_rep (dp_handlers d h) sp"
proof -
  have all: "case AHM_Get (dp_msg_listeners d) c of None \<Rightarrow> S c = None
      | Some h \<Rightarrow> \<exists>sp. S c = Some (lh_type (dp_handlers d h), sp) \<and> handler_rep (dp_handlers d h) sp" for c
    using assms by (simp add: dispatch_rep_def)
  show "AHM_Get (dp_msg_listeners d) ch = None \<Longrightarrow> S ch = None"
    "AHM_Get (dp_msg_listeners d) ch = Some h \<Longrightarrow> \<exists>sp. S ch = Some (lh_type (dp_handlers d h), sp) \<and> handler_rep (dp_handlers d h) sp"
    using all [of ch] by simp_all
qed (use assms in \<open>auto simp: dispatch_rep_def\<close>)

lemma dispatch_rep_new: "dispatch_rep Dispatcher (\<lambda>_. None)"
  by (simp add: dispatch_rep_def Dispatcher_def AtomicHashMap_ok AtomicHashMap_empty)

lemma dispatch_repI:
  assumes "\<not> dp_is_shutdown d" and "ahm_ok (dp_msg_listeners d)"
    and "\<And>ch h. AHM_Get (dp_msg_listeners d) ch = Some h \<Longrightarrow> h < dp_next d"
    and "\<And>ch ch' h. AHM_Get (dp_msg_listeners d) ch = Some h \<Longrightarrow> AHM_Get (dp_msg_listeners d) ch' = Some h \<Longrightarrow> ch = ch'"
    and "\<And>ch. AHM_Get (dp_msg_listeners d) ch = None \<Longrightarrow> S ch = None"
    and "\<And>ch h. AHM_Get (dp_msg_listeners d) ch = Some h \<Longrightarrow> \<exists>sp. S ch = Some (lh_type (dp_handlers d h), sp) \<and> handler_rep (dp_handlers d h) sp"
  shows "dispatch_rep d S"
  unfolding dispatch_rep_def
proof (intro conjI allI impI)
  show "case AHM_Get (dp_msg_listeners d) ch of None \<Rightarrow> S ch = None
      | Some h \<Rightarrow> \<exists>sp. S ch = Some (lh_type (dp_handlers d h), sp) \<and> handler_rep (dp_handlers d h) sp" for ch
    by (cases "AHM_Get (dp_msg_listeners d) ch") (use assms(5,6) in auto)
qed (use assms(1-4) in auto)

lemma dispatch_rep_change:
  assumes r: "dispatch_rep d S" and h: "AHM_Get (dp_msg_listeners d) ch = Some h"
    and f: "lh_type h' = lh_type (dp_handlers d h)" "handler_rep h' sp"
  shows "dispatch_rep (d\<lparr>dp_handlers := (dp_handlers d)(h := h')\<rparr>) (S(ch := Some (lh_type (dp_handlers d h), sp)))"
proof -
  note D = dispatch_repD [OF r]
  have none: "(S(ch := Some (lh_type (dp_handlers d h), sp))) c = None" if c: "AHM_Get (dp_msg_listeners d) c = None" for c
  proof -
    have "c \<noteq> ch" using h c by auto
    then show ?thesis using D(5) [OF c] by simp
  qed
  have some: "\<exists>sp'. (S(ch := Some (lh_type (dp_handlers d h), sp))) c = Some (lh_type (((dp_handlers d)(h := h')) k), sp')
      \<and> handler_rep (((dp_handlers d)(h := h')) k) sp'" if c: "AHM_Get (dp_msg_listeners d) c = Some k" for c k
  proof (cases "c = ch")
    case True
    then show ?thesis using c h f by simp
  next
    case False
    then have "k \<noteq> h" using D(4) [OF h, of c] c by auto
    then show ?thesis using False c D(6) [OF c] by simp
  qed
  have d: "dp_is_shutdown (d\<lparr>dp_handlers := x\<rparr>) = dp_is_shutdown d" "dp_msg_listeners (d\<lparr>dp_handlers := x\<rparr>) = dp_msg_listeners d"
    "dp_next (d\<lparr>dp_handlers := x\<rparr>) = dp_next d" "dp_handlers (d\<lparr>dp_handlers := x\<rparr>) = x" for x by simp_all
  show ?thesis by (rule dispatch_repI, unfold d) (fact D(1), fact D(2), erule D(3), erule (1) D(4), erule none, erule some)
qed

lemma dispatch_rep_insert:
  assumes r: "dispatch_rep d S" and no: "AHM_Get (dp_msg_listeners d) ch = None" and f: "lh_type h' = ty" "handler_rep h' sp"
  shows "dispatch_rep (d\<lparr>dp_msg_listeners := AHM_Set (dp_msg_listeners d) ch (dp_next d), dp_handlers := (dp_handlers d)(dp_next d := h'),
      dp_next := dp_next d + 1\<rparr>) (S(ch := Some (ty, sp)))" (is "dispatch_rep ?d ?S")
proof -
  note D = dispatch_repD [OF r]
  have get: "AHM_Get (dp_msg_listeners ?d) c = (if c = ch then Some (dp_next d) else AHM_Get (dp_msg_listeners d) c)" for c
    using AHM_Get_Set [OF D(2)] by simp
  have h: "dp_handlers ?d = (dp_handlers d)(dp_next d := h')" by simp
  show ?thesis
  proof (rule dispatch_repI)
    show "\<not> dp_is_shutdown ?d" "ahm_ok (dp_msg_listeners ?d)" using D(1,2) by (simp_all add: AHM_Set_ok)
    show "k < dp_next ?d" if "AHM_Get (dp_msg_listeners ?d) c = Some k" for c k
      using that D(3) [of c k] unfolding get by (auto split: if_splits)
    show "c = c'" if "AHM_Get (dp_msg_listeners ?d) c = Some k" "AHM_Get (dp_msg_listeners ?d) c' = Some k" for c c' k
      using that D(3) [of c k] D(3) [of c' k] D(4) [of c k c'] unfolding get by (auto split: if_splits)
    show "?S c = None" if "AHM_Get (dp_msg_listeners ?d) c = None" for c
      using that D(5) [of c] unfolding get by (auto split: if_splits)
    show "\<exists>sp. ?S c = Some (lh_type (dp_handlers ?d k), sp) \<and> handler_rep (dp_handlers ?d k) sp"
      if "AHM_Get (dp_msg_listeners ?d) c = Some k" for c k
      using that D(3) [of c k] D(6) [of c k] f unfolding get h by (cases sp) (auto split: if_splits)
  qed
qed

datatype 'cb dp_op = Dp_Add string role_attributes "role_attributes option" 'cb | Dp_Remove role_attributes "role_attributes option"

fun dp_exec :: "'cb dp_op \<Rightarrow> 'cb dispatcher \<Rightarrow> 'cb dispatcher" where
  "dp_exec (Dp_Add ty self None cb) d = AddListener ty self cb d"
| "dp_exec (Dp_Add ty self (Some oppo) cb) d = AddListener_from ty self oppo cb d"
| "dp_exec (Dp_Remove self None) d = RemoveListener self d"
| "dp_exec (Dp_Remove self (Some oppo)) d = RemoveListener_from self oppo d"

fun dp_lh_op :: "'cb dp_op \<Rightarrow> 'cb lh_op" where
  "dp_lh_op (Dp_Add ty self None cb) = Op_Connect (role_id self) cb"
| "dp_lh_op (Dp_Add ty self (Some oppo) cb) = Op_Connect_from (role_id self) (role_id oppo) cb"
| "dp_lh_op (Dp_Remove self None) = Op_Disconnect (role_id self)"
| "dp_lh_op (Dp_Remove self (Some oppo)) = Op_Disconnect_from (role_id self) (role_id oppo)"

fun dp_channel :: "'cb dp_op \<Rightarrow> u64" where
  "dp_channel (Dp_Add ty self oppo cb) = channel_id self"
| "dp_channel (Dp_Remove self oppo) = channel_id self"

definition no_readers :: "'cb handler_spec" where
  "no_readers = ([], \<lambda>_. [])"

definition dp_spec :: "'cb dp_op \<Rightarrow> 'cb dispatch_spec \<Rightarrow> 'cb dispatch_spec" where
  "dp_spec op S =
     (case (op, S (dp_channel op)) of
        (Dp_Add ty _ _ _, None) \<Rightarrow> S(dp_channel op := Some (ty, lh_spec (dp_lh_op op) no_readers))
      | (Dp_Add ty _ _ _, Some (ty', sp)) \<Rightarrow> if ty' = ty then S(dp_channel op := Some (ty', lh_spec (dp_lh_op op) sp)) else S
      | (Dp_Remove _ _, None) \<Rightarrow> S
      | (Dp_Remove _ _, Some (ty', sp)) \<Rightarrow> S(dp_channel op := Some (ty', lh_spec (dp_lh_op op) sp)))"

definition dp_orderly :: "'cb dp_op \<Rightarrow> 'cb dispatch_spec \<Rightarrow> bool" where
  "dp_orderly op S = (case S (dp_channel op) of None \<Rightarrow> True | Some (ty, sp) \<Rightarrow> lh_orderly (dp_lh_op op) sp)"

fun dp_orderly_all :: "'cb dp_op list \<Rightarrow> 'cb dispatch_spec \<Rightarrow> bool" where
  "dp_orderly_all [] S = True"
| "dp_orderly_all (op # ops) S = (dp_orderly op S \<and> dp_orderly_all ops (dp_spec op S))"

lemma lh_type_exec [simp]: "lh_type (lh_exec op h) = lh_type h"
  by (cases op) (auto simp: LH_Connect_def LH_Connect_from_def LH_Disconnect_def LH_Disconnect_from_def Let_def split_beta split: option.split)

lemma handler_rep_new: "handler_rep (ListenerHandler ty) no_readers"
  by (simp add: handler_rep_def ListenerHandler_def no_readers_def um_at_def rep_new)

lemma dp_exec_as:
  "dp_exec op d = (case op of
     Dp_Add ty _ _ _ \<Rightarrow> AddListener_finish ty (dp_channel op) (lh_exec (dp_lh_op op)) (AddListener_lookup ty (dp_channel op) d) d
   | Dp_Remove _ _ \<Rightarrow> remove_listener (dp_channel op) (lh_exec (dp_lh_op op)) d)"
proof (cases op)
  case (Dp_Add ty self oppo cb)
  have "lh_exec (dp_lh_op op) = (case oppo of None \<Rightarrow> LH_Connect (role_id self) cb | Some x \<Rightarrow> LH_Connect_from (role_id self) (role_id x) cb)"
    by (auto simp: Dp_Add fun_eq_iff split: option.split)
  then show ?thesis by (cases oppo) (simp_all add: Dp_Add AddListener_def AddListener_from_def)
next
  case (Dp_Remove self oppo)
  have "lh_exec (dp_lh_op op) = (case oppo of None \<Rightarrow> LH_Disconnect (role_id self) | Some x \<Rightarrow> LH_Disconnect_from (role_id self) (role_id x))"
    by (auto simp: Dp_Remove fun_eq_iff split: option.split)
  then show ?thesis by (cases oppo) (simp_all add: Dp_Remove RemoveListener_def RemoveListener_from_def)
qed

lemma dp_exec_rep:
  assumes r: "dispatch_rep d S" and o: "dp_orderly op S"
  shows "dispatch_rep (dp_exec op d) (dp_spec op S)"
proof (cases "AHM_Get (dp_msg_listeners d) (dp_channel op)")
  case None
  note S = dispatch_repD(5) [OF r None]
  have new: "handler_rep (lh_exec (dp_lh_op op) (ListenerHandler ty)) (lh_spec (dp_lh_op op) no_readers)" for ty
    using lh_exec_rep [of "ListenerHandler ty" "[]" "\<lambda>_. []" "dp_lh_op op"] handler_rep_new [of ty]
    by (cases "dp_lh_op op") (simp_all add: no_readers_def)
  show ?thesis
    using dispatch_rep_insert [OF r None _ new] r S None dispatch_repD(1) [OF r]
    by (auto simp: dp_exec_as dp_spec_def AddListener_lookup_def AddListener_finish_def remove_listener_def ListenerHandler_def Let_def split: dp_op.split)
next
  case (Some h)
  obtain A F where S: "S (dp_channel op) = Some (lh_type (dp_handlers d h), A, F)" "handler_rep (dp_handlers d h) (A, F)"
    using dispatch_repD(6) [OF r Some] by auto
  have "handler_rep (lh_exec (dp_lh_op op) (dp_handlers d h)) (lh_spec (dp_lh_op op) (A, F))"
    using lh_exec_rep [OF S(2)] o S(1) by (simp add: dp_orderly_def)
  note ch = dispatch_rep_change [OF r Some lh_type_exec this]
  show ?thesis
    using ch r S(1) Some dispatch_repD(1) [OF r]
    by (auto simp: dp_exec_as dp_spec_def AddListener_lookup_def AddListener_finish_def remove_listener_def split: dp_op.split)
qed

lemma dp_exec_all_rep:
  "dispatch_rep d S \<Longrightarrow> dp_orderly_all ops S \<Longrightarrow> dispatch_rep (fold dp_exec ops d) (fold dp_spec ops S)"
  by (induction ops arbitrary: d S) (auto intro: dp_exec_rep)

definition readers_of :: "'cb dispatch_spec \<Rightarrow> u64 \<Rightarrow> u64 \<Rightarrow> 'cb list" where
  "readers_of S ch sender = (case S ch of None \<Rightarrow> [] | Some (ty, A, F) \<Rightarrow> map snd A @ map snd (F sender))"

definition channel_type :: "'cb dispatch_spec \<Rightarrow> u64 \<Rightarrow> string option" where
  "channel_type S ch = map_option fst (S ch)"

lemma OnMessage_rep:
  assumes r: "dispatch_rep d S" and ty: "channel_type S ch \<in> {None, Some ty}"
  shows "\<exists>d'. OnMessage ty ch msg info (d, log) = Some (d', log @ map (\<lambda>cb. (cb, msg, info)) (readers_of S ch (id_hash (sender_id info)))) \<and> dispatch_rep d' S"
proof (cases "AHM_Get (dp_msg_listeners d) ch")
  case None
  then show ?thesis using r dispatch_repD(1,5) [OF r] by (simp add: OnMessage_def readers_of_def)
next
  case (Some h)
  obtain A F where S: "S ch = Some (lh_type (dp_handlers d h), A, F)" "handler_rep (dp_handlers d h) (A, F)"
    using dispatch_repD(6) [OF r Some] by auto
  obtain h' log' where run: "LH_Run msg info (dp_handlers d h, log) = (h', log')" by fastforce
  note R = LH_Run_rep [OF S(2) run]
  have "S(ch := Some (lh_type (dp_handlers d h), A, F)) = S" using S(1) by (simp add: fun_upd_idem)
  then have "dispatch_rep (d\<lparr>dp_handlers := (dp_handlers d)(h := h')\<rparr>) S"
    using dispatch_rep_change [OF r Some, of h' "(A, F)"] R by simp
  then show ?thesis
    using run R S(1) Some dispatch_repD(1) [OF r] ty by (simp add: OnMessage_def readers_of_def channel_type_def o_def)
qed

lemma OnMessage_wrong_type:
  assumes r: "dispatch_rep d S" and ty: "channel_type S ch \<notin> {None, Some ty}"
  shows "OnMessage ty ch msg info (d, log) = None"
proof -
  obtain h where h: "AHM_Get (dp_msg_listeners d) ch = Some h"
    using ty dispatch_repD(5) [OF r, of ch] by (cases "AHM_Get (dp_msg_listeners d) ch") (auto simp: channel_type_def)
  then show ?thesis using ty dispatch_repD(1) [OF r] dispatch_repD(6) [OF r h] by (auto simp: OnMessage_def channel_type_def)
qed

section \<open>Properties\<close>

text \<open>
  C17: a message reaches exactly its readers. After any sequence of \<open>AddListener\<close> and \<open>RemoveListener\<close>, with
  one call at a time and no reader added twice, a message of a channel calls each listener of that channel
  once: first those for all senders, then those for the sender of the message, in the order they were added.
  Readers of another message type than the channel's first were refused, and a dispatcher that delivers
  messages of another type than that dereferences a null pointer.
\<close>

theorem dispatcher_calls_readers:
  assumes "dp_orderly_all ops (\<lambda>_. None)" and "S = fold dp_spec ops (\<lambda>_. None)"
  shows "map_option snd (OnMessage ty ch msg info (fold dp_exec ops Dispatcher, [])) =
    (if channel_type S ch \<in> {None, Some ty} then Some (map (\<lambda>cb. (cb, msg, info)) (readers_of S ch (id_hash (sender_id info)))) else None)"
proof -
  have r: "dispatch_rep (fold dp_exec ops Dispatcher) S"
    unfolding assms(2) by (rule dp_exec_all_rep [OF dispatch_rep_new assms(1)])
  show ?thesis
  proof (cases "channel_type S ch \<in> {None, Some ty}")
    case True
    then show ?thesis using OnMessage_rep [OF r True, of msg info "[]"] by auto
  next
    case False
    then show ?thesis using OnMessage_wrong_type [OF r False, of msg info "[]"] by simp
  qed
qed

definition reader_attr :: "u64 \<Rightarrow> u64 \<Rightarrow> role_attributes" where
  "reader_attr ch i = RoleAttributes\<lparr>channel_id_opt := Some ch, id_opt := Some i\<rparr>"

definition demo_ops :: "nat dp_op list" where
  "demo_ops = [Dp_Add ''t'' (reader_attr 9 1) None 11, Dp_Add ''t'' (reader_attr 9 2) (Some (reader_attr 0 77)) 22,
     Dp_Add ''u'' (reader_attr 9 3) None 33, Dp_Add ''t'' (reader_attr 9 4) None 44, Dp_Remove (reader_attr 9 1) None]"

theorem dispatcher_calls_readers_witness:
  "map_option snd (OnMessage ''t'' 9 ''m'' demo_info (fold dp_exec demo_ops Dispatcher, [])) = Some [(44, ''m'', demo_info), (22, ''m'', demo_info)]"
proof -
  let ?S = "fold dp_spec demo_ops (\<lambda>_. None)"
  have ok: "dp_orderly_all demo_ops (\<lambda>_. None)"
    by (simp add: demo_ops_def dp_orderly_def dp_spec_def reader_attr_def no_readers_def)
  have "readers_of ?S 9 (id_hash (sender_id demo_info)) = [44, 22]" "channel_type ?S 9 = Some ''t''"
    by (simp_all add: demo_ops_def readers_of_def channel_type_def dp_spec_def reader_attr_def no_readers_def demo_info_def MessageInfo_seq_def
        Identity_def id_Update_def Let_def)
  then show ?thesis using dispatcher_calls_readers [OF ok refl, of "''t''" 9 "''m''" demo_info] by simp
qed

text \<open>
  C40: two readers that add their listeners to a new channel at the same time can lose one. When both look the
  channel up before either inserts its handler, the second insertion replaces the handler of the first, whose
  listener is then never called although \<open>AddListener\<close> returned normally.
\<close>

theorem concurrent_add_loses_listener:
  assumes "dispatch_rep d S" and "AHM_Get (dp_msg_listeners d) ch = None"
    and "r1 = AddListener_lookup ty ch d" and "r2 = AddListener_lookup ty ch d"
    and "d1 = AddListener_finish ty ch (LH_Connect i x) r1 d" and "d2 = AddListener_finish ty ch (LH_Connect j y) r2 d1"
  shows "map_option snd (OnMessage ty ch msg info (d2, [])) = Some [(y, msg, info)]"
proof -
  note D = dispatch_repD [OF assms(1)]
  have r: "r1 = Missing" "r2 = Missing" using assms(2-4) D(1) by (simp_all add: AddListener_lookup_def)
  have h: "handler_rep (LH_Connect j y (ListenerHandler ty)) ([(j, y)], \<lambda>_. [])"
    using lh_exec_rep [of "ListenerHandler ty" "[]" "\<lambda>_. []" "Op_Connect j y"] handler_rep_new [of ty] by (simp add: no_readers_def)
  obtain h' log' where run: "LH_Run msg info (LH_Connect j y (ListenerHandler ty), []) = (h', log')" by fastforce
  have "AHM_Get (AHM_Set (AHM_Set (dp_msg_listeners d) ch (dp_next d)) ch (dp_next d + 1)) ch = Some (dp_next d + 1)"
    using D(2) by (simp add: AHM_Get_Set AHM_Set_ok)
  then show ?thesis
    using LH_Run_rep [OF h run] run D(1) lh_type_exec [of "Op_Connect j y" "ListenerHandler ty"] unfolding assms(5,6) r
    by (simp add: AddListener_finish_def OnMessage_def Let_def ListenerHandler_def)
qed

theorem concurrent_add_loses_listener_witness:
  "map_option snd (OnMessage ''t'' 9 ''m'' demo_info
     (AddListener_finish ''t'' 9 (LH_Connect 2 22) (AddListener_lookup ''t'' 9 (Dispatcher :: nat dispatcher))
        (AddListener_finish ''t'' 9 (LH_Connect 1 (11 :: nat)) (AddListener_lookup ''t'' 9 (Dispatcher :: nat dispatcher)) Dispatcher), [])) = Some [(22, ''m'', demo_info)]"
proof -
  have "AHM_Get (dp_msg_listeners (Dispatcher :: nat dispatcher)) 9 = None" by (simp add: Dispatcher_def AtomicHashMap_empty)
  from concurrent_add_loses_listener [OF dispatch_rep_new this refl refl refl refl] show ?thesis .
qed

end
