(* ===== verification/Rtps_Transport.thy ===== *)
theory Rtps_Transport
  imports Listener_Dispatch Global_Data
begin

unbundle bit_operations_syntax

text \<open>
  \<open>transport/rtps\<close>, \<open>transport/transmitter/rtps_transmitter.h\<close>, \<open>transport/dispatcher/rtps_dispatcher\<close> and
  \<open>transport/qos\<close>: messages between hosts.

  The Fast-RTPS library is a parameter, a record of the functions the sources call on it, over a state \<open>'n\<close>
  of its own: default attributes, creation of participants, publishers and subscribers (\<^const>\<open>None\<close> when it
  returns a null pointer), writing and taking samples. Objects of the library are numbers. Environment
  variables, the configuration, hashing and serialization are parameters too. \<^const>\<open>None\<close> as the result of
  an operation is a null dereference.
\<close>

section \<open>Quality of service\<close>

definition QosProfile :: qos_profile where
  "QosProfile = \<lparr>qos_history_opt = None, qos_depth_opt = None, qos_mps_opt = None, qos_reliability_opt = None, qos_durability_opt = None\<rparr>"

abbreviation "qos_history_of q \<equiv> pb_get HISTORY_KEEP_LAST (qos_history_opt q)"
abbreviation "qos_depth q \<equiv> pb_get 1 (qos_depth_opt q)"
abbreviation "qos_mps q \<equiv> pb_get 0 (qos_mps_opt q)"
abbreviation "qos_reliability_of q \<equiv> pb_get RELIABILITY_RELIABLE (qos_reliability_opt q)"
abbreviation "qos_durability_of q \<equiv> pb_get DURABILITY_VOLATILE (qos_durability_opt q)"
abbreviation "attr_qos a \<equiv> pb_get QosProfile (qos_profile_opt a)"

definition CreateQosProfile :: "qos_history \<Rightarrow> u32 \<Rightarrow> u32 \<Rightarrow> qos_reliability \<Rightarrow> qos_durability \<Rightarrow> qos_profile" where
  "CreateQosProfile history depth mps reliability durability =
     \<lparr>qos_history_opt = Some history, qos_depth_opt = Some depth, qos_mps_opt = Some mps,
      qos_reliability_opt = Some reliability, qos_durability_opt = Some durability\<rparr>"

definition QOS_HISTORY_DEPTH_SYSTEM_DEFAULT :: u32 where
  "QOS_HISTORY_DEPTH_SYSTEM_DEFAULT = 0"

definition QOS_PROFILE_DEFAULT :: qos_profile where
  "QOS_PROFILE_DEFAULT = CreateQosProfile HISTORY_KEEP_LAST 1 0 RELIABILITY_RELIABLE DURABILITY_VOLATILE"

section \<open>What the library is told\<close>

datatype history_kind = KEEP_LAST_HISTORY_QOS | KEEP_ALL_HISTORY_QOS
datatype durability_kind = VOLATILE_DURABILITY_QOS | TRANSIENT_LOCAL_DURABILITY_QOS | TRANSIENT_DURABILITY_QOS | PERSISTENT_DURABILITY_QOS
datatype reliability_kind = BEST_EFFORT_RELIABILITY_QOS | RELIABLE_RELIABILITY_QOS
datatype topic_kind = NO_KEY | WITH_KEY
datatype publish_mode = SYNCHRONOUS_PUBLISH_MODE | ASYNCHRONOUS_PUBLISH_MODE
datatype memory_policy = PREALLOCATED_MEMORY_MODE | PREALLOCATED_WITH_REALLOC_MEMORY_MODE | DYNAMIC_RESERVE_MEMORY_MODE

record topic_attributes =
  topicName :: string
  topicDataType :: string
  topicKind :: topic_kind
  historyQos_kind :: history_kind
  historyQos_depth :: int
  max_samples :: int
  m_durability :: durability_kind
  m_reliability :: reliability_kind
  historyMemoryPolicy :: memory_policy

record publisher_attributes = topic_attributes +
  heartbeat_seconds :: int
  heartbeat_fraction :: u32
  m_publishMode :: publish_mode

text \<open>The statements that filling in publishers and subscribers have in common, and the refusal of a negative depth.\<close>

definition fill_topic :: "string \<Rightarrow> qos_profile \<Rightarrow> 'a topic_attributes_scheme \<Rightarrow> 'a topic_attributes_scheme" where
  "fill_topic channel qos a = a\<lparr>
     topicName := channel, topicDataType := ''UnderlayMessage'', topicKind := NO_KEY,
     historyQos_kind := (case qos_history_of qos of HISTORY_KEEP_LAST \<Rightarrow> KEEP_LAST_HISTORY_QOS | HISTORY_KEEP_ALL \<Rightarrow> KEEP_ALL_HISTORY_QOS
       | HISTORY_SYSTEM_DEFAULT \<Rightarrow> historyQos_kind a),
     m_durability := (case qos_durability_of qos of DURABILITY_TRANSIENT_LOCAL \<Rightarrow> TRANSIENT_LOCAL_DURABILITY_QOS
       | DURABILITY_VOLATILE \<Rightarrow> VOLATILE_DURABILITY_QOS | DURABILITY_SYSTEM_DEFAULT \<Rightarrow> m_durability a),
     m_reliability := (case qos_reliability_of qos of RELIABILITY_BEST_EFFORT \<Rightarrow> BEST_EFFORT_RELIABILITY_QOS
       | RELIABILITY_RELIABLE \<Rightarrow> RELIABLE_RELIABILITY_QOS | RELIABILITY_SYSTEM_DEFAULT \<Rightarrow> m_reliability a),
     historyQos_depth := (if qos_depth qos \<noteq> QOS_HISTORY_DEPTH_SYSTEM_DEFAULT then sint (qos_depth qos) else historyQos_depth a)\<rparr>"

definition heartbeat_fractions :: "u32 \<Rightarrow> u64" where
  "heartbeat_fractions m =
     (let mps = (ucast m :: u64);
          mps' = (if mps > 1024 then 1024 else if mps < 64 then 64 else mps)
      in push_bit 32 256 div mps')"

definition FillInPubAttr :: "string \<Rightarrow> qos_profile \<Rightarrow> publisher_attributes option \<Rightarrow> bool \<times> publisher_attributes option" where
  "FillInPubAttr channel qos pub_attr =
     (case pub_attr of
        None \<Rightarrow> (False, None)
      | Some a \<Rightarrow>
          let a1 = fill_topic channel qos a
          in if historyQos_depth a1 < 0 then (False, Some a1)
             else
               let a2 = a1\<lparr>heartbeat_seconds := 1, heartbeat_fraction := 0\<rparr>;
                   a3 = (if qos_mps qos \<noteq> 0
                         then
                           let fractions = heartbeat_fractions (qos_mps qos)
                           in a2\<lparr>heartbeat_seconds := sint (ucast (drop_bit 32 fractions) :: 32 word),
                                 heartbeat_fraction := ucast (fractions AND 0xffffffff)\<rparr>
                         else a2)
               in (True, Some (a3\<lparr>m_publishMode := ASYNCHRONOUS_PUBLISH_MODE, historyMemoryPolicy := DYNAMIC_RESERVE_MEMORY_MODE,
                                  max_samples := 10000\<rparr>)))"

definition FillInSubAttr :: "string \<Rightarrow> qos_profile \<Rightarrow> topic_attributes option \<Rightarrow> bool \<times> topic_attributes option" where
  "FillInSubAttr channel qos sub_attr =
     (case sub_attr of
        None \<Rightarrow> (False, None)
      | Some a \<Rightarrow>
          let a1 = fill_topic channel qos a
          in if historyQos_depth a1 < 0 then (False, Some a1)
             else (True, Some (a1\<lparr>historyMemoryPolicy := DYNAMIC_RESERVE_MEMORY_MODE, max_samples := 10000\<rparr>)))"

record underlay_message =
  ul_timestamp :: int
  ul_seq :: int
  ul_data :: "byte list"
  ul_datatype :: "byte list"

definition UnderlayMessage :: underlay_message where
  "UnderlayMessage = \<lparr>ul_timestamp = 0, ul_seq = 0, ul_data = [], ul_datatype = []\<rparr>"

text \<open>The related sample identity: sixteen bytes of a writer guid and a sequence number in two halves.\<close>

record sample_identity =
  si_guid :: "byte list"
  si_high :: "32 word"
  si_low :: u32

text \<open>\<open>RtpsParticipantAttr\<close> of the configuration, with the defaults of its fields; \<open>TransportConf\<close>.\<close>

record rtps_participant_attr =
  lease_duration_opt :: "int option"
  announcement_period_opt :: "int option"
  domain_id_gain_opt :: "u32 option"
  port_base_opt :: "u32 option"

datatype optional_mode = HYBRID | INTRA | SHM | RTPS

record communication_mode =
  same_proc_opt :: "optional_mode option"
  diff_proc_opt :: "optional_mode option"
  diff_host_opt :: "optional_mode option"

record transport_conf =
  participant_attr_opt :: "rtps_participant_attr option"
  communication_mode_opt :: "communication_mode option"
  resource_limit_opt :: "u32 option option"

record participant_attributes =
  rp_defaultSendPort :: int
  rp_domainIDGain :: "16 word"
  rp_portBase :: "16 word"
  rp_use_IP6_to_send :: bool
  rp_simple_participant_discovery :: bool
  rp_simple_endpoint_discovery :: bool
  rp_publication_reader :: bool
  rp_publication_writer :: bool
  rp_domainId :: u32
  rp_leaseDuration :: int
  rp_announcementperiod :: int
  rp_name :: string
  rp_unicast :: "nat list"
  rp_out :: "nat list"
  rp_metatraffic_unicast :: "nat list"
  rp_metatraffic_multicast :: "nat list"

record 'n fastrtps =
  default_publisher_attributes :: publisher_attributes
  default_subscriber_attributes :: topic_attributes
  set_IP4_address :: "string \<Rightarrow> nat list option"
  createParticipant :: "participant_attributes \<Rightarrow> bool \<Rightarrow> 'n \<Rightarrow> nat option \<times> 'n"
  registerType :: "nat \<Rightarrow> 'n \<Rightarrow> 'n"
  removeParticipant :: "nat \<Rightarrow> 'n \<Rightarrow> 'n"
  createPublisher :: "nat option \<Rightarrow> publisher_attributes \<Rightarrow> 'n \<Rightarrow> nat option \<times> 'n"
  rtps_write :: "nat \<Rightarrow> underlay_message \<Rightarrow> sample_identity \<Rightarrow> 'n \<Rightarrow> bool \<times> 'n"
  createSubscriber :: "nat option \<Rightarrow> topic_attributes \<Rightarrow> 'n \<Rightarrow> nat option \<times> 'n"
  getTopicName :: "nat \<Rightarrow> 'n \<Rightarrow> string"
  takeNextData :: "nat \<Rightarrow> 'n \<Rightarrow> (underlay_message \<times> bool \<times> sample_identity) option \<times> 'n"


section \<open>Participants\<close>

record participant =
  pt_shutdown :: bool
  pt_name :: string
  pt_send_port :: int
  pt_listener :: bool
  pt_fastrtps :: "nat option"

definition Participant :: "string \<Rightarrow> int \<Rightarrow> bool \<Rightarrow> participant" where
  "Participant name send_port listener =
     \<lparr>pt_shutdown = False, pt_name = name, pt_send_port = send_port, pt_listener = listener, pt_fastrtps = None\<rparr>"

definition participant_attr_conf :: "transport_conf option \<Rightarrow> rtps_participant_attr" where
  "participant_attr_conf conf =
     (case conf of
        Some tc \<Rightarrow> (case participant_attr_opt tc of Some a \<Rightarrow> a
                    | None \<Rightarrow> \<lparr>lease_duration_opt = None, announcement_period_opt = None, domain_id_gain_opt = None, port_base_opt = None\<rparr>)
      | None \<Rightarrow> \<lparr>lease_duration_opt = None, announcement_period_opt = None, domain_id_gain_opt = None, port_base_opt = None\<rparr>)"

definition cyber_domain_id :: "(string \<Rightarrow> string option) \<Rightarrow> u32 option" where
  "cyber_domain_id env = (case env ''CYBER_DOMAIN_ID'' of None \<Rightarrow> Some 80 | Some val \<Rightarrow> map_option word_of_int (stoi val))"

definition cyber_ip :: "(string \<Rightarrow> string option) \<Rightarrow> string option" where
  "cyber_ip env = (case env ''CYBER_IP'' of None \<Rightarrow> Some ''127.0.0.1'' | Some ip \<Rightarrow> if ip = [] then None else Some ip)"

definition CreateFastRtpsParticipant ::
  "'n fastrtps \<Rightarrow> (string \<Rightarrow> string option) \<Rightarrow> transport_conf option \<Rightarrow> string \<Rightarrow> int \<Rightarrow> bool \<Rightarrow> participant \<times> 'n \<Rightarrow> participant \<times> 'n" where
  "CreateFastRtpsParticipant lib env conf name send_port listener = (\<lambda>(p, n).
     case cyber_domain_id env of
       None \<Rightarrow> (p, n)
     | Some domain_id \<Rightarrow>
         (case Option.bind (cyber_ip env) (set_IP4_address lib) of
            None \<Rightarrow> (p, n)
          | Some locator \<Rightarrow>
              let c = participant_attr_conf conf;
                  attr = \<lparr>rp_defaultSendPort = send_port, rp_domainIDGain = ucast (pb_get 200 (domain_id_gain_opt c)),
                    rp_portBase = ucast (pb_get 10000 (port_base_opt c)), rp_use_IP6_to_send = False,
                    rp_simple_participant_discovery = True, rp_simple_endpoint_discovery = True,
                    rp_publication_reader = True, rp_publication_writer = True, rp_domainId = domain_id,
                    rp_leaseDuration = pb_get 12 (lease_duration_opt c), rp_announcementperiod = pb_get 3 (announcement_period_opt c),
                    rp_name = name, rp_unicast = locator, rp_out = locator, rp_metatraffic_unicast = locator,
                    rp_metatraffic_multicast = [239, 255, 0, 1]\<rparr>;
                  (part, n1) = createParticipant lib attr listener n;
                  p1 = p\<lparr>pt_fastrtps := part\<rparr>
              in (case part of None \<Rightarrow> (p1, n1) | Some x \<Rightarrow> (p1, registerType lib x n1))))"

definition fastrtps_participant ::
  "'n fastrtps \<Rightarrow> (string \<Rightarrow> string option) \<Rightarrow> transport_conf option \<Rightarrow> participant \<times> 'n \<Rightarrow> nat option \<times> participant \<times> 'n" where
  "fastrtps_participant lib env conf = (\<lambda>(p, n).
     if pt_shutdown p then (None, p, n)
     else case pt_fastrtps p of
       Some x \<Rightarrow> (Some x, p, n)
     | None \<Rightarrow>
         let (p1, n1) = CreateFastRtpsParticipant lib env conf (pt_name p) (pt_send_port p) (pt_listener p) (p, n)
         in (pt_fastrtps p1, p1, n1))"

definition Participant_Shutdown :: "'n fastrtps \<Rightarrow> participant \<times> 'n \<Rightarrow> participant \<times> 'n" where
  "Participant_Shutdown lib = (\<lambda>(p, n).
     if pt_shutdown p then (p, n)
     else
       let p1 = p\<lparr>pt_shutdown := True\<rparr>
       in case pt_fastrtps p1 of
            None \<Rightarrow> (p1, n)
          | Some x \<Rightarrow> (p1\<lparr>pt_fastrtps := None, pt_listener := False\<rparr>, removeParticipant lib x n))"

text \<open>The participants are shared objects, which transmitters and dispatchers point to.\<close>

record 'n rtps_world =
  rw_net :: 'n
  rw_participants :: "nat \<Rightarrow> participant"

definition participant_of ::
  "'n fastrtps \<Rightarrow> (string \<Rightarrow> string option) \<Rightarrow> transport_conf option \<Rightarrow> nat \<Rightarrow> 'n rtps_world \<Rightarrow> nat option \<times> 'n rtps_world" where
  "participant_of lib env conf i w =
     (let (r, p, n) = fastrtps_participant lib env conf (rw_participants w i, rw_net w)
      in (r, w\<lparr>rw_net := n, rw_participants := (rw_participants w)(i := p)\<rparr>))"

section \<open>The transmitter\<close>

record rtps_transmitter = transmitter +
  rt_participant :: "nat option"
  rt_publisher :: "nat option"

definition RtpsTransmitter :: "(byte list \<Rightarrow> u64) \<Rightarrow> byte list \<Rightarrow> string \<Rightarrow> int \<Rightarrow> role_attributes \<Rightarrow> nat option \<Rightarrow> rtps_transmitter" where
  "RtpsTransmitter H uuid host pid attr part =
     transmitter.extend (Transmitter H uuid host pid attr) \<lparr>rt_participant = part, rt_publisher = None\<rparr>"

definition RT_Enable ::
  "'n fastrtps \<Rightarrow> (string \<Rightarrow> string option) \<Rightarrow> transport_conf option \<Rightarrow> rtps_transmitter \<times> 'n rtps_world \<Rightarrow> rtps_transmitter \<times> 'n rtps_world" where
  "RT_Enable lib env conf = (\<lambda>(t, w).
     if enabled t then (t, w)
     else case rt_participant t of
       None \<Rightarrow> (t, w)
     | Some i \<Rightarrow>
         (case FillInPubAttr (channel_name (ep_attr t)) (attr_qos (ep_attr t)) (Some (default_publisher_attributes lib)) of
            (True, Some pub_attr) \<Rightarrow>
              let (part, w1) = participant_of lib env conf i w;
                  (pub, n) = createPublisher lib part pub_attr (rw_net w1);
                  t1 = t\<lparr>rt_publisher := pub\<rparr>;
                  w2 = w1\<lparr>rw_net := n\<rparr>
              in if pub = None then (t1, w2) else (t1\<lparr>enabled := True\<rparr>, w2)
          | _ \<Rightarrow> (t, w)))"

definition RT_Disable :: "rtps_transmitter \<Rightarrow> rtps_transmitter" where
  "RT_Disable t = (if enabled t then t\<lparr>rt_publisher := None, enabled := False\<rparr> else t)"

text \<open>The two \<open>memcpy\<close> into the guid, and the halves of the sequence number.\<close>

definition write_params :: "byte list \<Rightarrow> message_info \<Rightarrow> sample_identity" where
  "write_params guid info =
     (let g1 = id_data (sender_id info) @ drop ID_SIZE guid;
          g2 = take ID_SIZE g1 @ id_data (spare_id info) @ drop (ID_SIZE + ID_SIZE) g1
      in \<lparr>si_guid = g2,
          si_high = ucast (drop_bit 32 (seq_num info AND 0xFFFFFFFF00000000)),
          si_low = ucast (seq_num info AND 0xFFFFFFFF)\<rparr>)"

definition RT_Transmit ::
  "'n fastrtps \<Rightarrow> byte list \<Rightarrow> ('m \<Rightarrow> byte list option) \<Rightarrow> rtps_transmitter \<Rightarrow> 'm \<Rightarrow> message_info \<Rightarrow> 'n rtps_world \<Rightarrow> (bool \<times> 'n rtps_world) option" where
  "RT_Transmit lib guid ser t msg info w =
     (if \<not> enabled t then Some (False, w)
      else case ser msg of
        None \<Rightarrow> Some (False, w)
      | Some bytes \<Rightarrow> do {
          i \<leftarrow> rt_participant t;
          if pt_shutdown (rw_participants w i) then Some (False, w)
          else do {
            pub \<leftarrow> rt_publisher t;
            let (ok, n) = rtps_write lib pub (UnderlayMessage\<lparr>ul_data := bytes\<rparr>) (write_params guid info) (rw_net w);
            Some (ok, w\<lparr>rw_net := n\<rparr>)
          }
        })"

section \<open>The dispatcher\<close>

record sub_listener =
  sl_callback :: bool
  sl_msg_info :: message_info

definition SubListener :: "(byte list \<Rightarrow> u64) \<Rightarrow> sub_listener" where
  "SubListener H = \<lparr>sl_callback = True, sl_msg_info = MessageInfo H\<rparr>"

definition sample_seq_num :: "sample_identity \<Rightarrow> u64" where
  "sample_seq_num si = push_bit 32 (scast (si_high si)) OR ucast (si_low si)"

text \<open>The arguments of the callback, when it is called.\<close>

definition onNewDataMessage ::
  "'n fastrtps \<Rightarrow> (byte list \<Rightarrow> u64) \<Rightarrow> (string \<Rightarrow> u64) \<Rightarrow> nat option \<Rightarrow> sub_listener \<times> 'n
     \<Rightarrow> (u64 \<times> byte list \<times> message_info) option \<times> sub_listener \<times> 'n" where
  "onNewDataMessage lib H hash sub = (\<lambda>(l, n).
     case sub of
       None \<Rightarrow> (None, l, n)
     | Some s \<Rightarrow>
         if \<not> sl_callback l then (None, l, n)
         else
           let ch = hash (getTopicName lib s n)
           in case takeNextData lib s n of
                (None, n1) \<Rightarrow> (None, l, n1)
              | (Some (m, alive, si), n1) \<Rightarrow>
                  if \<not> alive then (None, l, n1)
                  else
                    let info = (sl_msg_info l)\<lparr>
                          sender_id := set_data H (Some (take ID_SIZE (si_guid si))) (Identity H None),
                          spare_id := set_data H (Some (take ID_SIZE (drop ID_SIZE (si_guid si)))) (Identity H None),
                          seq_num := sample_seq_num si\<rparr>
                    in (Some (ch, ul_data m, info), l\<lparr>sl_msg_info := info\<rparr>, n1))"

record subscriber =
  sub_sub :: "nat option"
  sub_listener_of :: sub_listener

record 'cb rtps_dispatcher =
  rd_base :: "'cb dispatcher"
  rd_subs :: "(u64, subscriber) umap"
  rd_participant :: "nat option"

definition RtpsDispatcher :: "'cb rtps_dispatcher" where
  "RtpsDispatcher = \<lparr>rd_base = Dispatcher, rd_subs = [], rd_participant = None\<rparr>"

definition set_participant :: "nat option \<Rightarrow> 'cb rtps_dispatcher \<Rightarrow> 'cb rtps_dispatcher" where
  "set_participant p d = d\<lparr>rd_participant := p\<rparr>"

definition RD_Shutdown :: "'cb rtps_dispatcher \<Rightarrow> 'cb rtps_dispatcher" where
  "RD_Shutdown d =
     (if dp_is_shutdown (rd_base d) then d
      else d\<lparr>rd_base := (rd_base d)\<lparr>dp_is_shutdown := True\<rparr>, rd_subs := map (\<lambda>(ch, s). (ch, s\<lparr>sub_sub := None\<rparr>)) (rd_subs d),
             rd_participant := None\<rparr>)"

definition AddSubscriber ::
  "'n fastrtps \<Rightarrow> (byte list \<Rightarrow> u64) \<Rightarrow> (string \<Rightarrow> string option) \<Rightarrow> transport_conf option \<Rightarrow> role_attributes
     \<Rightarrow> 'cb rtps_dispatcher \<times> 'n rtps_world \<Rightarrow> 'cb rtps_dispatcher \<times> 'n rtps_world" where
  "AddSubscriber lib H env conf self_attr = (\<lambda>(d, w).
     case rd_participant d of
       None \<Rightarrow> (d, w)
     | Some i \<Rightarrow>
         let ch = channel_id self_attr
         in if um_find (rd_subs d) ch \<noteq> None then (d, w)
            else case FillInSubAttr (channel_name self_attr) (attr_qos self_attr) (Some (default_subscriber_attributes lib)) of
              (True, Some sub_attr) \<Rightarrow>
                let (part, w1) = participant_of lib env conf i w;
                    (s, n) = createSubscriber lib part sub_attr (rw_net w1);
                    w2 = w1\<lparr>rw_net := n\<rparr>
                in if s = None then (d, w2)
                   else (d\<lparr>rd_subs := um_put ch \<lparr>sub_sub = s, sub_listener_of = SubListener H\<rparr> (rd_subs d)\<rparr>, w2)
            | _ \<Rightarrow> (d, w))"

definition STD_STRING :: string where
  "STD_STRING = ''std::string''"

definition RD_AddListener ::
  "'n fastrtps \<Rightarrow> (byte list \<Rightarrow> u64) \<Rightarrow> (string \<Rightarrow> string option) \<Rightarrow> transport_conf option \<Rightarrow> role_attributes \<Rightarrow> 'cb
     \<Rightarrow> 'cb rtps_dispatcher \<times> 'n rtps_world \<Rightarrow> 'cb rtps_dispatcher \<times> 'n rtps_world" where
  "RD_AddListener lib H env conf self_attr listener = (\<lambda>(d, w).
     AddSubscriber lib H env conf self_attr (d\<lparr>rd_base := AddListener STD_STRING self_attr listener (rd_base d)\<rparr>, w))"

definition RD_AddListener_from ::
  "'n fastrtps \<Rightarrow> (byte list \<Rightarrow> u64) \<Rightarrow> (string \<Rightarrow> string option) \<Rightarrow> transport_conf option \<Rightarrow> role_attributes \<Rightarrow> role_attributes \<Rightarrow> 'cb
     \<Rightarrow> 'cb rtps_dispatcher \<times> 'n rtps_world \<Rightarrow> 'cb rtps_dispatcher \<times> 'n rtps_world" where
  "RD_AddListener_from lib H env conf self_attr opposite_attr listener = (\<lambda>(d, w).
     AddSubscriber lib H env conf self_attr (d\<lparr>rd_base := AddListener_from STD_STRING self_attr opposite_attr listener (rd_base d)\<rparr>, w))"

definition RD_OnMessage ::
  "u64 \<Rightarrow> byte list \<Rightarrow> message_info \<Rightarrow> 'cb rtps_dispatcher \<times> ('cb, byte list) call_log \<Rightarrow> ('cb rtps_dispatcher \<times> ('cb, byte list) call_log) option" where
  "RD_OnMessage ch bytes info = (\<lambda>(d, log).
     map_option (\<lambda>(b, log1). (d\<lparr>rd_base := b\<rparr>, log1)) (OnMessage STD_STRING ch bytes info (rd_base d, log)))"

text \<open>
  The library calls the listener that was registered for channel \<open>ch\<close> with its subscriber \<open>s\<close>; the callback
  is bound to \<open>OnMessage\<close>.
\<close>

definition new_data ::
  "'n fastrtps \<Rightarrow> (byte list \<Rightarrow> u64) \<Rightarrow> (string \<Rightarrow> u64) \<Rightarrow> u64 \<Rightarrow> nat option \<Rightarrow> 'cb rtps_dispatcher \<times> 'n \<times> ('cb, byte list) call_log
     \<Rightarrow> ('cb rtps_dispatcher \<times> 'n \<times> ('cb, byte list) call_log) option" where
  "new_data lib H hash ch s = (\<lambda>(d, n, log). do {
     sb \<leftarrow> um_find (rd_subs d) ch;
     let (call, l, n1) = onNewDataMessage lib H hash s (sub_listener_of sb, n);
     let d1 = d\<lparr>rd_subs := um_put ch (sb\<lparr>sub_listener_of := l\<rparr>) (rd_subs d)\<rparr>;
     case call of
       None \<Rightarrow> Some (d1, n1, log)
     | Some (c, bytes, info) \<Rightarrow> map_option (\<lambda>(d2, log2). (d2, n1, log2)) (RD_OnMessage c bytes info (d1, log))
   })"


section \<open>Message information over RTPS\<close>

lemma high_mask: "(0xFFFFFFFF00000000 :: u64) = push_bit 32 (mask 32)"
  by (simp add: mask_eq_exp_minus_1 push_bit_eq_mult)

lemma low_mask: "(0xFFFFFFFF :: u64) = mask 32"
  by (simp add: mask_eq_exp_minus_1)

lemma sample_seq_num_write_params: "sample_seq_num (write_params guid info) = seq_num info"
proof (rule bit_word_eqI)
  fix k assume k: "k < LENGTH(64)"
  have high: "bit (si_high (write_params guid info)) j \<longleftrightarrow> bit (seq_num info) (j + 32)" if "j < 32" for j
    using that unfolding write_params_def high_mask
    by (simp add: Let_def bit_simps) (simp add: add.commute)
  have low: "bit (si_low (write_params guid info)) j \<longleftrightarrow> bit (seq_num info) j" if "j < 32" for j
    using that unfolding write_params_def low_mask by (simp add: Let_def bit_simps)
  show "bit (sample_seq_num (write_params guid info)) k = bit (seq_num info) k"
  proof (cases "k < 32")
    case True
    then show ?thesis using low [of k] k by (simp add: sample_seq_num_def bit_simps)
  next
    case False
    then have "\<not> bit (si_low (write_params guid info)) k" using bit_imp_le_length [of "si_low (write_params guid info)" k] by auto
    moreover have "k - 32 = 31" if "31 \<le> k - 32" using that k False by simp
    ultimately show ?thesis using high [of "k - 32"] k False by (auto simp: sample_seq_num_def bit_simps min_def)
  qed
qed

lemma write_params_guid:
  assumes "mi_ok H info"
  shows "take ID_SIZE (si_guid (write_params guid info)) = id_data (sender_id info)"
    "take ID_SIZE (drop ID_SIZE (si_guid (write_params guid info))) = id_data (spare_id info)"
  using assms by (simp_all add: write_params_def Let_def mi_ok_def identity_ok_def)

lemma set_data_None: "set_data H (Some (id_data i)) (Identity H None) = id_Update H i"
  by (cases i) (simp add: set_data_def id_Update_def Identity_def Let_def)

text \<open>A sample whose identity holds \<open>info\<close> is passed on to the readers of the channel with the hash of the topic name.\<close>

lemma onNewDataMessage_calls:
  assumes "mi_ok H info" and "takeNextData lib s n = (Some (m, True, write_params guid info), n1)" and "sl_callback l"
  shows "onNewDataMessage lib H hash (Some s) (l, n) =
    (Some (hash (getTopicName lib s n), ul_data m, mi_received H (sl_msg_info l) info), l\<lparr>sl_msg_info := mi_received H (sl_msg_info l) info\<rparr>, n1)"
  using assms
  by (simp add: onNewDataMessage_def Let_def write_params_guid [OF assms(1)] sample_seq_num_write_params set_data_None mi_received_def)

lemma new_data_calls:
  assumes "mi_ok H info" and "takeNextData lib s n = (Some (m, True, write_params guid info), n1)"
    and sb: "um_find (rd_subs d) ch = Some sb" "sl_callback (sub_listener_of sb)"
    and r: "dispatch_rep (rd_base d) S" and c: "c = hash (getTopicName lib s n)" and ty: "channel_type S c \<in> {None, Some STD_STRING}"
  shows "\<exists>d'. new_data lib H hash ch (Some s) (d, n, log) = Some (d', n1, log @ map (\<lambda>cb. (cb, ul_data m, mi_received H (sl_msg_info (sub_listener_of sb)) info))
      (readers_of S c (H (id_data (sender_id info))))) \<and> dispatch_rep (rd_base d') S"
proof -
  let ?i = "mi_received H (sl_msg_info (sub_listener_of sb)) info"
  have h: "id_hash (sender_id ?i) = H (id_data (sender_id info))" by (simp add: mi_received_def id_Update_def)
  obtain b where "OnMessage STD_STRING c (ul_data m) ?i (rd_base d, log) =
      Some (b, log @ map (\<lambda>cb. (cb, ul_data m, ?i)) (readers_of S c (H (id_data (sender_id info)))))" "dispatch_rep b S"
    using OnMessage_rep [OF r ty, of "ul_data m" ?i log] unfolding h by blast
  then show ?thesis
    using sb by (simp add: new_data_def onNewDataMessage_calls [OF assms(1,2) sb(2)] RD_OnMessage_def c)
qed

lemma RT_Transmit_written:
  assumes "RT_Transmit lib guid ser t msg info w = Some (True, w1)"
  shows "\<exists>pub bytes. ser msg = Some bytes
    \<and> rtps_write lib pub (UnderlayMessage\<lparr>ul_data := bytes\<rparr>) (write_params guid info) (rw_net w) = (True, rw_net w1)"
proof -
  obtain bytes i pub where b: "enabled t" "ser msg = Some bytes" "rt_participant t = Some i" "rt_publisher t = Some pub"
      "\<not> pt_shutdown (rw_participants w i)"
    using assms by (auto simp: RT_Transmit_def bind_eq_Some_conv split: if_splits option.splits)
  obtain ok n where wr: "rtps_write lib pub (UnderlayMessage\<lparr>ul_data := bytes\<rparr>) (write_params guid info) (rw_net w) = (ok, n)"
    by fastforce
  have "ok" "w1 = w\<lparr>rw_net := n\<rparr>" using assms by (simp_all add: RT_Transmit_def b wr)
  then show ?thesis using b(2) wr by auto
qed

section \<open>Bounds of the attributes\<close>

lemma uint_heartbeat_fractions:
  "uint (heartbeat_fractions m) = 2 ^ 40 div max 64 (min 1024 (uint m))"
proof -
  have "uint m < 2 ^ 64" using uint_lt2p [of m] by simp
  then have u: "uint (ucast m :: u64) = uint m" by (simp add: unsigned_ucast_eq take_bit_int_eq_self)
  have p: "(push_bit 32 256 :: u64) = 2 ^ 40" by (simp add: push_bit_eq_mult)
  define c :: u64 where "c = (if (ucast m :: u64) > 1024 then 1024 else if (ucast m :: u64) < 64 then 64 else ucast m)"
  have "uint c = max 64 (min 1024 (uint m))"
    unfolding c_def by (simp add: word_less_alt u max_def min_def)
  then show ?thesis
    unfolding heartbeat_fractions_def Let_def p c_def [symmetric] by (simp add: uint_div)
qed

lemma heartbeat_split:
  assumes "uint (f :: u64) < 2 ^ 63"
  shows "sint (ucast (drop_bit 32 f) :: 32 word) * 2 ^ 32 + uint (ucast (f AND 0xffffffff) :: u32) = uint f"
proof -
  have q: "uint f div 4294967296 < 2147483648" "0 \<le> uint f div 4294967296"
    using assms mult_div_mod_eq [of 4294967296 "uint f"] pos_mod_sign [of 4294967296 "uint f"] uint_ge_0 [of f]
    by (simp_all add: pos_imp_zdiv_nonneg_iff)
  then have u: "uint (ucast (drop_bit 32 f) :: 32 word) = uint f div 2 ^ 32"
    by (simp add: unsigned_ucast_eq drop_bit_eq_div uint_div take_bit_int_eq_self)
  then have "sint (ucast (drop_bit 32 f) :: 32 word) = uint f div 2 ^ 32"
    using q unfolding sint_uint u by (simp add: signed_take_bit_int_eq_self)
  moreover have "uint (ucast (f AND 0xffffffff) :: u32) = uint f mod 2 ^ 32"
    unfolding low_mask by (simp add: unsigned_ucast_eq take_bit_eq_mask [symmetric] take_bit_eq_mod uint_mod)
  ultimately show ?thesis by simp
qed


lemma FillInPubAttr_cases:
  "FillInPubAttr ch qos (Some a) = (ok, Some b) \<Longrightarrow>
     (ok \<longleftrightarrow> 0 \<le> historyQos_depth (fill_topic ch qos a)) \<and> historyQos_depth b = historyQos_depth (fill_topic ch qos a)
     \<and> (ok \<and> qos_mps qos \<noteq> 0 \<longrightarrow>
          heartbeat_seconds b = sint (ucast (drop_bit 32 (heartbeat_fractions (qos_mps qos))) :: 32 word)
          \<and> heartbeat_fraction b = ucast (heartbeat_fractions (qos_mps qos) AND 0xffffffff))
     \<and> (ok \<and> qos_mps qos = 0 \<longrightarrow> heartbeat_seconds b = 1 \<and> heartbeat_fraction b = 0)"
  by (auto simp: FillInPubAttr_def Let_def split: if_splits)

lemma FillInPubAttr_Some: "\<exists>ok b. FillInPubAttr ch qos (Some a) = (ok, Some b)"
  by (simp add: FillInPubAttr_def Let_def) blast

lemma fill_topic_depth:
  "historyQos_depth (fill_topic ch qos a) = (if qos_depth qos = 0 then historyQos_depth a else sint (qos_depth qos))"
  by (simp add: fill_topic_def QOS_HISTORY_DEPTH_SYSTEM_DEFAULT_def)

lemma sint_u32: "sint (x :: u32) = (if uint x < 2 ^ 31 then uint x else uint x - 2 ^ 32)"
proof (cases "uint x < 2 ^ 31")
  case True
  moreover have "- 2147483648 \<le> uint x" using uint_ge_0 [of x] by linarith
  ultimately show ?thesis by (simp add: sint_uint signed_take_bit_int_eq_self)
next
  case False
  have lt: "uint x < 2 ^ 32" using uint_lt2p [of x] by simp
  have "uint x div 2147483648 = 1" using False lt by (intro int_div_pos_eq [where r = "uint x - 2147483648"]) simp_all
  then have "bit (uint x) 31" by (simp add: bit_iff_odd)
  then show ?thesis using False lt by (simp add: sint_uint signed_take_bit_eq_take_bit_minus take_bit_int_eq_self)
qed

section \<open>Properties\<close>


definition demo_lib :: "(underlay_message \<times> sample_identity) list fastrtps" where
  "demo_lib = \<lparr>
     default_publisher_attributes = \<lparr>topicName = [], topicDataType = [], topicKind = NO_KEY, historyQos_kind = KEEP_LAST_HISTORY_QOS,
       historyQos_depth = 1, max_samples = 5000, m_durability = VOLATILE_DURABILITY_QOS, m_reliability = RELIABLE_RELIABILITY_QOS,
       historyMemoryPolicy = PREALLOCATED_MEMORY_MODE, heartbeat_seconds = 3, heartbeat_fraction = 0, m_publishMode = SYNCHRONOUS_PUBLISH_MODE\<rparr>,
     default_subscriber_attributes = \<lparr>topicName = [], topicDataType = [], topicKind = NO_KEY, historyQos_kind = KEEP_LAST_HISTORY_QOS,
       historyQos_depth = 1, max_samples = 5000, m_durability = VOLATILE_DURABILITY_QOS, m_reliability = RELIABLE_RELIABILITY_QOS,
       historyMemoryPolicy = PREALLOCATED_MEMORY_MODE\<rparr>,
     set_IP4_address = (\<lambda>_. Some [127, 0, 0, 1]), createParticipant = (\<lambda>_ _ n. (Some 1, n)), registerType = (\<lambda>_ n. n),
     removeParticipant = (\<lambda>_ n. n), createPublisher = (\<lambda>_ _ n. (Some 2, n)), rtps_write = (\<lambda>_ m si n. (True, n @ [(m, si)])),
     createSubscriber = (\<lambda>_ _ n. (Some 3, n)), getTopicName = (\<lambda>_ _. ''chatter''),
     takeNextData = (\<lambda>_ n. case n of [] \<Rightarrow> (None, []) | (m, si) # n1 \<Rightarrow> (Some (m, True, si), n1))\<rparr>"

definition demo_attr :: role_attributes where
  "demo_attr = RoleAttributes\<lparr>channel_name_opt := Some ''chatter'', channel_id_opt := Some 9, id_opt := Some 4\<rparr>"

definition demo_rtps :: "rtps_transmitter \<times> (underlay_message \<times> sample_identity) list rtps_world" where
  "demo_rtps = RT_Enable demo_lib (\<lambda>_. None) None
     (RtpsTransmitter (\<lambda>_. 77) (replicate 8 5) ''h'' 1 demo_attr (Some 0), \<lparr>rw_net = [], rw_participants = (\<lambda>_. Participant ''h+1'' 11512 False)\<rparr>)"

definition demo_rd :: "nat rtps_dispatcher" where
  "demo_rd = fst (RD_AddListener demo_lib (\<lambda>_. 77) (\<lambda>_. None) None demo_attr 11
     (set_participant (Some 0) RtpsDispatcher, \<lparr>rw_net = [], rw_participants = (\<lambda>_. Participant ''h+1'' 11512 False)\<rparr>))"

definition demo_rtps_info :: message_info where
  "demo_rtps_info = MessageInfo_seq (\<lambda>_. 77) (Identity (\<lambda>_. 77) (Some (replicate 8 5))) 0x500000007"

lemma demo_rtps_eval:
  "enabled (fst demo_rtps)" "rt_participant (fst demo_rtps) = Some 0" "rt_publisher (fst demo_rtps) = Some 2" "rw_net (snd demo_rtps) = []"
  "\<not> pt_shutdown (rw_participants (snd demo_rtps) 0)" "channel_name (ep_attr (fst demo_rtps)) = ''chatter''"
  by (simp_all add: demo_rtps_def RT_Enable_def RtpsTransmitter_def Transmitter_def Endpoint_def Let_def demo_attr_def RoleAttributes_def
      transmitter.defs endpoint.defs FillInPubAttr_def fill_topic_def demo_lib_def QosProfile_def QOS_HISTORY_DEPTH_SYSTEM_DEFAULT_def
      participant_of_def fastrtps_participant_def CreateFastRtpsParticipant_def Participant_def cyber_domain_id_def cyber_ip_def)

lemma demo_rd_eval:
  "um_find (rd_subs demo_rd) 9 = Some \<lparr>sub_sub = Some 3, sub_listener_of = SubListener (\<lambda>_. 77)\<rparr>"
  "rd_base demo_rd = dp_exec (Dp_Add STD_STRING demo_attr None 11) Dispatcher"
  by (simp_all add: demo_rd_def RD_AddListener_def AddSubscriber_def set_participant_def RtpsDispatcher_def Let_def demo_attr_def RoleAttributes_def
      FillInSubAttr_def fill_topic_def demo_lib_def QosProfile_def QOS_HISTORY_DEPTH_SYSTEM_DEFAULT_def
      participant_of_def fastrtps_participant_def CreateFastRtpsParticipant_def Participant_def cyber_domain_id_def cyber_ip_def)

lemma demo_rd_rep: "dispatch_rep (rd_base demo_rd) (\<lambda>c. if c = 9 then Some (STD_STRING, [(4, 11)], \<lambda>_. []) else None)"
proof -
  have "dp_orderly_all [Dp_Add STD_STRING demo_attr None (11 :: nat)] (\<lambda>_. None)"
    by (simp add: dp_orderly_def demo_attr_def RoleAttributes_def no_readers_def)
  from dp_exec_all_rep [OF dispatch_rep_new this]
  have r: "dispatch_rep (rd_base demo_rd) (dp_spec (Dp_Add STD_STRING demo_attr None 11) (\<lambda>_. None))" by (simp add: demo_rd_eval(2))
  have "dp_spec (Dp_Add STD_STRING demo_attr None (11 :: nat)) (\<lambda>_. None) = (\<lambda>c. if c = 9 then Some (STD_STRING, [(4, 11)], \<lambda>_. []) else None)"
    by (rule ext) (simp add: dp_spec_def demo_attr_def RoleAttributes_def no_readers_def)
  then show ?thesis using r by simp
qed


text \<open>
  C38: samples are dispatched by the hash of the topic name, and readers are registered under the id of the
  channel. A channel whose hash was taken by another channel has the next free id, so each of its messages is
  handed to the readers of that other channel and to none of its own.
\<close>

theorem rtps_dispatches_by_hash:
  assumes reg: "RegisterChannel hash g channel = Some (ch, g')" "ahm_ok (channel_id_map g)" "ch \<noteq> hash channel"
    and topic: "getTopicName lib s n = channel" and mi: "mi_ok H info"
    and smp: "takeNextData lib s n = (Some (m, True, write_params guid info), n1)"
    and sb: "um_find (rd_subs d) ch = Some sb" "sl_callback (sub_listener_of sb)"
    and r: "dispatch_rep (rd_base d) S" "channel_type S (hash channel) \<in> {None, Some STD_STRING}"
  shows "GetChannelById g' (hash channel) \<noteq> channel
    \<and> (\<exists>d'. map_option (\<lambda>(d, n, log). (d, n, map fst log)) (new_data lib H hash ch (Some s) (d, n, [])) =
          Some (d', n1, readers_of S (hash channel) (H (id_data (sender_id info)))))"
proof -
  obtain m' where m': "register_name hash (channel_id_map g) channel = Some (ch, m')" "g' = g\<lparr>channel_id_map := m'\<rparr>"
    using reg(1) by (auto simp: RegisterChannel_def)
  have "\<not> probe_stops (channel_id_map g) channel (hash channel)"
    using register_probe_stop [OF reg(2), of channel "hash channel"] register_nameD(4) [OF m'(1) reg(2)] reg(3) by auto
  then obtain other where other: "AHM_Get (channel_id_map g) (hash channel) = Some other" "other \<noteq> channel"
    by (auto simp: probe_stops_def)
  have "GetChannelById g' (hash channel) = other"
    using register_nameD(3) [OF m'(1) reg(2) other(1)] by (simp add: GetChannelById_def name_by_id_def m'(2))
  then show ?thesis
    using other(2) new_data_calls [where hash = hash, OF mi smp sb r(1) _ r(2), of "[]"] by (auto simp: topic o_def)
qed

definition other_attr :: role_attributes where
  "other_attr = RoleAttributes\<lparr>channel_name_opt := Some ''other'', channel_id_opt := Some 8, id_opt := Some 5\<rparr>"

lemma demo_collision:
  assumes "g = GlobalData_static\<lparr>channel_id_map := AHM_Set (AtomicHashMap 512) 8 ''other''\<rparr>"
  shows "ahm_ok (channel_id_map g)" "\<exists>g'. RegisterChannel (\<lambda>_. 8) g ''chatter'' = Some (9, g')"
proof -
  show ok: "ahm_ok (channel_id_map g)" by (simp add: assms AtomicHashMap_ok AHM_Set_ok)
  have get: "AHM_Get (channel_id_map g) 8 = Some ''other''" "AHM_Get (channel_id_map g) 9 = None"
    by (simp_all add: assms AHM_Get_Set AtomicHashMap_ok AtomicHashMap_empty)
  have "register_probe (channel_id_map g) ''chatter'' 8 = register_probe (channel_id_map g) ''chatter'' 9"
    using register_probe_next [OF ok, of "''chatter''" 8] get(1) by (simp add: probe_stops_def)
  also have "\<dots> = Some 9" using register_probe_stop [OF ok, of "''chatter''" 9] get(2) by (simp add: probe_stops_def)
  finally show "\<exists>g'. RegisterChannel (\<lambda>_. 8) g ''chatter'' = Some (9, g')"
    by (simp add: RegisterChannel_def register_name_def)
qed

theorem rtps_dispatches_by_hash_witness:
  "\<exists>d'. map_option (\<lambda>(d, n, log). (d, n, map fst log)) (new_data demo_lib (\<lambda>_. 77) (\<lambda>_. 8) 9 (Some 3)
      (demo_rd\<lparr>rd_base := dp_exec (Dp_Add STD_STRING other_attr None 22) (rd_base demo_rd)\<rparr>,
       [(UnderlayMessage, write_params [] demo_rtps_info)], [])) = Some (d', [], [22])"
proof -
  let ?g = "GlobalData_static\<lparr>channel_id_map := AHM_Set (AtomicHashMap 512) 8 ''other''\<rparr>"
  let ?d = "demo_rd\<lparr>rd_base := dp_exec (Dp_Add STD_STRING other_attr None 22) (rd_base demo_rd)\<rparr>"
  let ?S = "\<lambda>c. if c = 8 then Some (STD_STRING, [(5 :: u64, 22 :: nat)], \<lambda>_. []) else if c = 9 then Some (STD_STRING, [(4, 11)], \<lambda>_. []) else None"
  let ?T = "\<lambda>c. if c = 9 then Some (STD_STRING, [(4 :: u64, 11 :: nat)], \<lambda>_. []) else None"
  obtain g' where reg: "RegisterChannel (\<lambda>_. 8) ?g ''chatter'' = Some (9, g')" using demo_collision(2) [OF refl] by blast
  have mi: "mi_ok (\<lambda>_. 77) demo_rtps_info" by (simp add: mi_ok_def demo_rtps_info_def MessageInfo_seq_def ID_SIZE_def)
  have spec: "dp_spec (Dp_Add STD_STRING other_attr None 22) ?T = ?S"
    by (auto simp: dp_spec_def other_attr_def RoleAttributes_def no_readers_def)
  have "dp_orderly_all [Dp_Add STD_STRING other_attr None 22] ?T"
    by (simp add: dp_orderly_def other_attr_def RoleAttributes_def no_readers_def)
  from dp_exec_all_rep [OF demo_rd_rep this] have rep: "dispatch_rep (rd_base ?d) ?S" unfolding spec [symmetric] by simp
  have sb: "um_find (rd_subs ?d) 9 = Some \<lparr>sub_sub = Some 3, sub_listener_of = SubListener (\<lambda>_. 77)\<rparr>"
    using demo_rd_eval(1) by simp
  have t: "getTopicName demo_lib 3 [(UnderlayMessage, write_params [] demo_rtps_info)] = ''chatter''"
    "takeNextData demo_lib 3 [(UnderlayMessage, write_params [] demo_rtps_info)] = (Some (UnderlayMessage, True, write_params [] demo_rtps_info), [])"
    by (simp_all add: demo_lib_def)
  show ?thesis
    using rtps_dispatches_by_hash [OF reg demo_collision(1) [OF refl] _ t(1) mi t(2) sb _ rep]
    by (simp add: SubListener_def readers_of_def channel_type_def)
qed

text \<open>
  C34: attributes of a publisher. A depth of \<open>2 ^ 31\<close> or more is refused, any other is taken as it is, and a
  depth of zero leaves the library's default. The heartbeat period is \<open>256 / mps\<close> seconds, rounded down to
  \<open>2 ^ -32\<close> s, for a rate limited to between 64 and 1024 messages per second, and so lies between a quarter of
  a second and four seconds; it is one second when no rate is given.
\<close>

theorem publisher_attributes_bounds:
  assumes fill: "FillInPubAttr ch qos (Some a) = (ok, Some b)" and a: "0 \<le> historyQos_depth a"
    and p: "period = heartbeat_seconds b * 2 ^ 32 + uint (heartbeat_fraction b)"
  shows "(ok \<longleftrightarrow> uint (qos_depth qos) < 2 ^ 31)
    \<and> (ok \<longrightarrow> historyQos_depth b = (if qos_depth qos = 0 then historyQos_depth a else uint (qos_depth qos)))
    \<and> (ok \<longrightarrow> period = (if qos_mps qos = 0 then 2 ^ 32 else 2 ^ 40 div max 64 (min 1024 (uint (qos_mps qos)))))
    \<and> (ok \<longrightarrow> 2 ^ 30 \<le> period \<and> period \<le> 2 ^ 34)"
proof -
  note F = FillInPubAttr_cases [OF fill]
  define mps depth where "mps = qos_mps qos" and "depth = qos_depth qos"
  have d: "historyQos_depth (fill_topic ch qos a) = (if depth = 0 then historyQos_depth a else sint depth)"
    by (simp add: fill_topic_depth depth_def)
  have F1: "ok \<longleftrightarrow> 0 \<le> (if depth = 0 then historyQos_depth a else sint depth)"
      "historyQos_depth b = (if depth = 0 then historyQos_depth a else sint depth)"
    using F by (simp_all add: d)
  have "uint depth < 2 ^ 32" using uint_lt2p [of depth] by simp
  then have ok: "ok \<longleftrightarrow> uint depth < 2 ^ 31" using F1(1) a by (simp add: sint_u32)
  have depth: "ok \<Longrightarrow> historyQos_depth b = (if depth = 0 then historyQos_depth a else uint depth)"
    using F1(2) ok by (simp add: sint_u32)
  define c where "c = max 64 (min 1024 (uint mps))"
  have c: "64 \<le> c" "c \<le> 1024" by (auto simp: c_def)
  have le: "(2 :: int) ^ 40 div c \<le> 2 ^ 40 div 64" "(2 :: int) ^ 40 div 1024 \<le> 2 ^ 40 div c"
    using c by (intro zdiv_mono2; simp)+
  have per: "period = (if mps = 0 then 2 ^ 32 else 2 ^ 40 div c)" if ok
  proof (cases "mps = 0")
    case True
    then show ?thesis using F that by (simp add: p mps_def)
  next
    case False
    have u: "uint (heartbeat_fractions mps) = 2 ^ 40 div c" by (simp add: uint_heartbeat_fractions c_def)
    then have "uint (heartbeat_fractions mps) < 2 ^ 63" using le by simp
    from heartbeat_split [OF this] show ?thesis using F that False unfolding u by (simp add: p mps_def)
  qed
  then have "ok \<Longrightarrow> 2 ^ 30 \<le> period \<and> period \<le> 2 ^ 34" using le by simp
  then show ?thesis using ok depth per unfolding c_def mps_def depth_def by blast
qed

theorem publisher_attributes_bounds_witness:
  "\<exists>b. FillInPubAttr ''chatter'' (CreateQosProfile HISTORY_KEEP_LAST 5 100 RELIABILITY_RELIABLE DURABILITY_VOLATILE)
        (Some (default_publisher_attributes demo_lib)) = (True, Some b)
     \<and> historyQos_depth b = 5 \<and> heartbeat_seconds b * 2 ^ 32 + uint (heartbeat_fraction b) = 10995116277"
proof -
  let ?q = "CreateQosProfile HISTORY_KEEP_LAST 5 100 RELIABILITY_RELIABLE DURABILITY_VOLATILE"
  obtain ok b where f: "FillInPubAttr ''chatter'' ?q (Some (default_publisher_attributes demo_lib)) = (ok, Some b)"
    using FillInPubAttr_Some by blast
  have "0 \<le> historyQos_depth (default_publisher_attributes demo_lib)" by (simp add: demo_lib_def)
  from publisher_attributes_bounds [OF f this refl] f show ?thesis by (simp add: CreateQosProfile_def)
qed

end
