(* ===== verification/Shm_Transport.thy ===== *)
theory Shm_Transport
  imports Shm_Segment Shm_Notifier Listener_Dispatch
begin

text \<open>
  \<open>transport/transmitter/shm_transmitter.h\<close> and \<open>transport/dispatcher/shm_dispatcher\<close>: a message goes from a
  transmitter through a segment and a notification to the listeners of another process.

  \<open>shm_world\<close> is what a process sees of its host: the shared objects, the ring of notifications, and its own
  \<open>ConditionNotifier\<close>, a singleton that is constructed on first use. Serialization is a parameter: the size a
  message announces and the bytes \<open>SerializeToArray\<close> writes for a given size, \<open>None\<close> when it returns false.
  Segments are POSIX segments. The result \<open>None\<close> is a null dereference or an access outside a buffer.
  A listener is called through an adapter that parses the block, so a listener has a parse function; the
  calls of the adapters are recorded with the bytes of the block.
\<close>

section \<open>The world of a process\<close>

record shm_world =
  sw_kernel :: shm_kernel
  sw_ind :: indicator
  sw_notifier :: notifier

definition CreateNotifier :: "shm_world \<Rightarrow> shm_world" where
  "CreateNotifier w = (if np_pc (sw_notifier w) = NT_Off then w\<lparr>sw_notifier := ConditionNotifier (sw_ind w)\<rparr> else w)"

text \<open>\<open>Notify\<close> and one look of \<open>Listen\<close>, run without interruption.\<close>

definition Notify_run :: "readable_info \<Rightarrow> notifier \<Rightarrow> indicator \<Rightarrow> bool \<times> indicator" where
  "Notify_run info p ind =
     (if np_shutdown p then (False, ind)
      else
        let (pc1, ind1) = Notify_step (np_pc (Notify info p)) ind;
            (pc2, ind2) = Notify_step pc1 ind1;
            (pc3, ind3) = Notify_step pc2 ind2
        in (True, ind3))"

definition Listen_run :: "notifier \<Rightarrow> indicator \<Rightarrow> notifier \<times> readable_info option" where
  "Listen_run p ind =
     (let (p1, _) = Listen_step (Listen p) ind;
          (p2, _) = Listen_step p1 ind;
          (p3, r) = Listen_step p2 ind
      in (if np_pc p3 = L_Wait then p3\<lparr>np_pc := NT_Idle\<rparr> else p3, r))"

section \<open>Blocks in use\<close>

definition block_of :: "used_block \<Rightarrow> shm_kernel \<Rightarrow> block" where
  "block_of ub k = ob_blocks (k_objs k (fst (wb_block ub))) ! snd (wb_block ub)"

definition set_data_of :: "used_block \<Rightarrow> (block_data \<Rightarrow> block_data) \<Rightarrow> shm_kernel \<Rightarrow> shm_kernel" where
  "set_data_of ub f = upd_block (fst (wb_block ub)) (snd (wb_block ub)) (\<lambda>b. b\<lparr>bl_data := f (bl_data b)\<rparr>)"

definition buffer_of :: "used_block \<Rightarrow> shm_kernel \<Rightarrow> buffer option" where
  "buffer_of ub k = map_option (\<lambda>j. bd_buf (bl_data (ob_blocks (k_objs k (fst (wb_block ub))) ! j))) (wb_buf ub)"

definition set_buffer_of :: "used_block \<Rightarrow> buffer \<Rightarrow> shm_kernel \<Rightarrow> shm_kernel" where
  "set_buffer_of ub buf k =
     (case wb_buf ub of
        None \<Rightarrow> k
      | Some j \<Rightarrow> upd_block (fst (wb_block ub)) j (\<lambda>b. b\<lparr>bl_data := (bl_data b)\<lparr>bd_buf := buf\<rparr>\<rparr>) k)"

section \<open>The transmitter\<close>

record 'm message_traits =
  mt_ByteSize :: "'m \<Rightarrow> int"
  mt_SerializeToArray :: "'m \<Rightarrow> int \<Rightarrow> byte list option"

record shm_transmitter = transmitter +
  st_segment :: "segment option"
  st_channel_id :: u64
  st_host_id :: u64
  st_notifier :: bool

definition ShmTransmitter ::
  "(byte list \<Rightarrow> u64) \<Rightarrow> (string \<Rightarrow> u64) \<Rightarrow> byte list \<Rightarrow> string \<Rightarrow> int \<Rightarrow> role_attributes \<Rightarrow> shm_transmitter" where
  "ShmTransmitter H hash uuid host pid attr = transmitter.extend (Transmitter H uuid host pid attr)
     \<lparr>st_segment = None, st_channel_id = channel_id attr, st_host_id = hash (host_ip attr), st_notifier = False\<rparr>"

definition ST_Enable :: "shm_transmitter \<times> shm_world \<Rightarrow> shm_transmitter \<times> shm_world" where
  "ST_Enable = (\<lambda>(t, w).
     if enabled t then (t, w)
     else (t\<lparr>st_segment := Some (PosixSegment (st_channel_id t)), st_notifier := True, enabled := True\<rparr>, CreateNotifier w))"

definition ST_Disable :: "os_faults \<Rightarrow> shm_transmitter \<times> shm_world \<Rightarrow> (shm_transmitter \<times> shm_world) option" where
  "ST_Disable os = (\<lambda>(t, w).
     if \<not> enabled t then Some (t, w)
     else do {
       k \<leftarrow> (case st_segment t of None \<Rightarrow> Some (sw_kernel w) | Some s \<Rightarrow> map_option (\<lambda>(_, _, k). k) (Destroy os (s, sw_kernel w)));
       Some (t\<lparr>st_segment := None, st_notifier := False, enabled := False\<rparr>, w\<lparr>sw_kernel := k\<rparr>)
     })"

text \<open>Everything \<open>Transmit\<close> does while it holds the block; the flag is whether both serializations succeeded.\<close>

definition write_message :: "'m message_traits \<Rightarrow> 'm \<Rightarrow> message_info \<Rightarrow> u64 \<Rightarrow> used_block \<Rightarrow> shm_kernel \<Rightarrow> (bool \<times> shm_kernel) option" where
  "write_message mt msg info msg_size wb k =
     (case mt_SerializeToArray mt msg (sint (ucast msg_size :: u32)) of
        None \<Rightarrow> Some (False, k)
      | Some bytes \<Rightarrow> do {
          b0 \<leftarrow> buffer_of wb k;
          b1 \<leftarrow> buf_write b0 0 bytes;
          let k1 = set_data_of wb (\<lambda>d. d\<lparr>bd_msg_size := msg_size\<rparr>) (set_buffer_of wb b1 k);
          (written, dst) \<leftarrow> MI_SerializeTo_buf info (Some (b1, unat msg_size)) MI_kSize;
          (b2, _) \<leftarrow> dst;
          let k2 = set_buffer_of wb b2 k1;
          Some (if written then (True, set_data_of wb (\<lambda>d. d\<lparr>bd_msg_info_size := of_nat MI_kSize\<rparr>) k2) else (False, k2))
        })"

definition ST_Transmit ::
  "'m message_traits \<Rightarrow> os_faults \<Rightarrow> 'm \<Rightarrow> message_info \<Rightarrow> shm_transmitter \<times> shm_world \<Rightarrow> (bool \<times> shm_transmitter \<times> shm_world) option" where
  "ST_Transmit mt os msg info = (\<lambda>(t, w).
     if \<not> enabled t then Some (False, t, w)
     else do {
       s \<leftarrow> st_segment t;
       let msg_size = (word_of_int (mt_ByteSize mt msg) :: u64);
       (r, s1, k1) \<leftarrow> AcquireBlockToWrite os msg_size (s, sw_kernel w);
       let t1 = t\<lparr>st_segment := Some s1\<rparr>;
       case r of
         None \<Rightarrow> Some (False, t1, w\<lparr>sw_kernel := k1\<rparr>)
       | Some wb \<Rightarrow> do {
           (written, k2) \<leftarrow> write_message mt msg info msg_size wb k1;
           k3 \<leftarrow> ReleaseWrittenBlock wb (s1, k2);
           if \<not> written then Some (False, t1, w\<lparr>sw_kernel := k3\<rparr>)
           else if \<not> st_notifier t1 then None
           else
             let (sent, ind) = Notify_run \<lparr>ri_host_id = st_host_id t1, ri_block_index = wb_index wb, ri_channel_id = st_channel_id t1\<rparr>
                                 (sw_notifier w) (sw_ind w)
             in Some (sent, t1, w\<lparr>sw_kernel := k3, sw_ind := ind\<rparr>)
         }
     })"

section \<open>The dispatcher\<close>

record 'cb shm_dispatcher =
  sd_base :: "'cb dispatcher"
  sd_host_id :: u64
  sd_segments :: "(u64, segment) umap"
  sd_previous_indexes :: "(u64, u32) umap"

definition ShmDispatcher :: "(string \<Rightarrow> u64) \<Rightarrow> string \<Rightarrow> shm_world \<Rightarrow> 'cb shm_dispatcher \<times> shm_world" where
  "ShmDispatcher hash ip w = (\<lparr>sd_base = Dispatcher, sd_host_id = hash ip, sd_segments = [], sd_previous_indexes = []\<rparr>, CreateNotifier w)"

definition destroy_all :: "os_faults \<Rightarrow> segment list \<Rightarrow> shm_kernel \<Rightarrow> shm_kernel option" where
  "destroy_all os segs k = fold (\<lambda>s r. Option.bind r (\<lambda>k. map_option (\<lambda>(_, _, k). k) (Destroy os (s, k)))) segs (Some k)"

definition SD_Shutdown :: "os_faults \<Rightarrow> 'cb shm_dispatcher \<times> shm_world \<Rightarrow> ('cb shm_dispatcher \<times> shm_world) option" where
  "SD_Shutdown os = (\<lambda>(d, w).
     if dp_is_shutdown (sd_base d) then Some (d, w)
     else do {
       k \<leftarrow> destroy_all os (map snd (sd_segments d)) (sw_kernel w);
       Some (d\<lparr>sd_base := (sd_base d)\<lparr>dp_is_shutdown := True\<rparr>, sd_segments := []\<rparr>, w\<lparr>sw_kernel := k\<rparr>)
     })"

definition AddSegment :: "role_attributes \<Rightarrow> 'cb shm_dispatcher \<Rightarrow> 'cb shm_dispatcher" where
  "AddSegment self_attr d =
     (let ch = channel_id self_attr
      in if um_find (sd_segments d) ch \<noteq> None then d
         else d\<lparr>sd_segments := um_put ch (PosixSegment ch) (sd_segments d),
                sd_previous_indexes := um_put ch (- 1) (sd_previous_indexes d)\<rparr>)"

definition READABLE_BLOCK :: string where
  "READABLE_BLOCK = ''ReadableBlock''"

definition SD_AddListener :: "role_attributes \<Rightarrow> 'cb \<Rightarrow> 'cb shm_dispatcher \<Rightarrow> 'cb shm_dispatcher" where
  "SD_AddListener self_attr listener d = AddSegment self_attr (d\<lparr>sd_base := AddListener READABLE_BLOCK self_attr listener (sd_base d)\<rparr>)"

definition SD_AddListener_from :: "role_attributes \<Rightarrow> role_attributes \<Rightarrow> 'cb \<Rightarrow> 'cb shm_dispatcher \<Rightarrow> 'cb shm_dispatcher" where
  "SD_AddListener_from self_attr opposite_attr listener d =
     AddSegment self_attr (d\<lparr>sd_base := AddListener_from READABLE_BLOCK self_attr opposite_attr listener (sd_base d)\<rparr>)"

type_synonym 'cb block_log = "('cb, byte list) call_log"

definition ReadMessage ::
  "(byte list \<Rightarrow> u64) \<Rightarrow> os_faults \<Rightarrow> u64 \<Rightarrow> u32 \<Rightarrow> 'cb shm_dispatcher \<times> shm_kernel \<times> 'cb block_log
     \<Rightarrow> ('cb shm_dispatcher \<times> shm_kernel \<times> 'cb block_log) option" where
  "ReadMessage H os ch idx = (\<lambda>(d, k, log). do {
     s \<leftarrow> um_find (sd_segments d) ch;
     (r, s1, k1) \<leftarrow> AcquireBlockToRead os idx (s, k);
     let d1 = d\<lparr>sd_segments := um_put ch s1 (sd_segments d)\<rparr>;
     case r of
       None \<Rightarrow> Some (d1, k1, log)
     | Some rb \<Rightarrow> do {
         let bd = bl_data (block_of rb k1);
         buf \<leftarrow> buffer_of rb k1;
         (parsed, info) \<leftarrow> MI_DeserializeFrom_buf H (MessageInfo H) (Some (buf, unat (bd_msg_size bd))) (unat (bd_msg_info_size bd));
         (base, log1) \<leftarrow>
           (if parsed then do { bytes \<leftarrow> buf_read buf 0 (unat (bd_msg_size bd)); OnMessage READABLE_BLOCK ch bytes info (sd_base d1, log) }
            else Some (sd_base d1, log));
         k2 \<leftarrow> ReleaseReadBlock rb (s1, k1);
         Some (d1\<lparr>sd_base := base\<rparr>, k2, log1)
       }
   })"

text \<open>One turn of the loop of \<open>ThreadFunc\<close>.\<close>

definition ThreadFunc ::
  "(byte list \<Rightarrow> u64) \<Rightarrow> os_faults \<Rightarrow> 'cb shm_dispatcher \<times> shm_world \<times> 'cb block_log
     \<Rightarrow> ('cb shm_dispatcher \<times> shm_world \<times> 'cb block_log) option" where
  "ThreadFunc H os = (\<lambda>(d, w, log).
     if dp_is_shutdown (sd_base d) then Some (d, w, log)
     else
       let (p, r) = Listen_run (sw_notifier w) (sw_ind w); w1 = w\<lparr>sw_notifier := p\<rparr>
       in case r of
            None \<Rightarrow> Some (d, w1, log)
          | Some info \<Rightarrow>
              let ch = ri_channel_id info; idx = ri_block_index info
              in if ri_host_id info \<noteq> sd_host_id d then Some (d, w1, log)
                 else if um_find (sd_segments d) ch = None then Some (d, w1, log)
                 else do {
                   (d2, k2, log2) \<leftarrow> ReadMessage H os ch idx
                     (d\<lparr>sd_previous_indexes := um_put ch idx (um_touch (- 1) ch (sd_previous_indexes d))\<rparr>, sw_kernel w1, log);
                   Some (d2, w1\<lparr>sw_kernel := k2\<rparr>, log2)
                 })"

text \<open>What the adapters pass on to the listeners.\<close>

definition adapter_calls :: "('cb \<Rightarrow> byte list \<Rightarrow> 'm option) \<Rightarrow> 'cb block_log \<Rightarrow> ('cb, 'm) call_log" where
  "adapter_calls ParseFromArray log =
     concat (map (\<lambda>(cb, bytes, info). case ParseFromArray cb bytes of None \<Rightarrow> [] | Some m \<Rightarrow> [(cb, m, info)]) log)"

section \<open>Notifications\<close>

lemma Notify_run_eq:
  assumes "\<not> np_shutdown p"
  shows "Notify_run info p ind = (True, ind\<lparr>in_next_seq := in_next_seq ind + 1,
    in_infos := (in_infos ind)(slot_of (in_next_seq ind) := info), in_seqs := (in_seqs ind)(slot_of (in_next_seq ind) := in_next_seq ind)\<rparr>)"
  using assms by (simp add: Notify_run_def Notify_def)

lemma Listen_run_notified:
  assumes "\<not> np_shutdown p" and "\<not> np_shutdown q" and "np_next_seq q = in_next_seq ind" and "Notify_run info p ind = (sent, ind')"
  shows "Listen_run q ind' = (q\<lparr>np_next_seq := in_next_seq ind + 1, np_pc := NT_Idle\<rparr>, Some info) \<and> sent"
  using assms(4) by (auto simp: Notify_run_eq [OF assms(1)] Listen_run_def Listen_def Listen_step_def assms(2,3) Let_def)

section \<open>Writing a block\<close>

lemma upd_block_twice:
  "j < length (ob_blocks (k_objs k ob)) \<Longrightarrow> upd_block ob j f (upd_block ob j g k) = upd_block ob j (\<lambda>b. f (g b)) k"
  by (simp add: upd_block_def)

lemma upd_block_frame [simp]:
  "k_names (upd_block ob j f k) = k_names k" "k_next (upd_block ob j f k) = k_next k"
  "ob_size (k_objs (upd_block ob j f k) x) = ob_size (k_objs k x)" "ob_state (k_objs (upd_block ob j f k) x) = ob_state (k_objs k x)"
  "ob_blocks (k_objs (upd_block ob j f k) ob) = (ob_blocks (k_objs k ob))[j := f (ob_blocks (k_objs k ob) ! j)]"
  by (simp_all add: upd_block_def)

definition holds_message :: "byte list \<Rightarrow> message_info \<Rightarrow> block_data \<Rightarrow> bool" where
  "holds_message bytes info d \<longleftrightarrow> unat (bd_msg_size d) = length bytes \<and> unat (bd_msg_info_size d) = MI_kSize
     \<and> buf_read (bd_buf d) 0 (length bytes) = Some bytes \<and> buf_read (bd_buf d) (length bytes) MI_kSize = Some (MI_SerializeTo info)"

lemma MI_kSize_small: "MI_kSize = 24"
  by (simp add: MI_kSize_def ID_SIZE_def)

text \<open>The assumptions on the serialization of a message: it announces the length of its bytes and writes them.\<close>

definition serializes :: "'m message_traits \<Rightarrow> 'm \<Rightarrow> byte list \<Rightarrow> bool" where
  "serializes mt msg bytes \<longleftrightarrow> mt_ByteSize mt msg = int (length bytes) \<and> mt_SerializeToArray mt msg (int (length bytes)) = Some bytes"

lemma serialized_size:
  assumes "n < 2147483648" and "sz = (word_of_int (int n) :: u64)"
  shows "unat sz = n" "sint (ucast sz :: u32) = int n"
proof -
  show u: "unat sz = n" using assms by (simp add: unat_of_nat of_nat_inverse take_bit_nat_eq_self)
  have "uint sz = int n" using u by (metis uint_nat)
  then have "ucast sz = (word_of_int (int n) :: u32)" by (metis of_int_uint unsigned_of_int)
  then have "sint (ucast sz :: u32) = signed_take_bit 31 (int n)" by (simp add: signed_of_nat)
  then show "sint (ucast sz :: u32) = int n" using assms(1) by (simp add: signed_take_bit_int_eq_self)
qed

lemma write_message_holds:
  assumes ser: "mt_SerializeToArray mt msg (sint (ucast sz :: u32)) = Some bytes" and len: "unat sz = length bytes" and mi: "mi_ok H info"
    and j: "j < length (ob_blocks (k_objs k ob))" and wb: "wb_block wb = (ob, j)" "wb_buf wb = Some j"
    and room: "length bytes + MI_kSize \<le> buf_size (bd_buf (bl_data (ob_blocks (k_objs k ob) ! j)))"
  shows "\<exists>d. write_message mt msg info sz wb k = Some (True, upd_block ob j (\<lambda>b. b\<lparr>bl_data := d\<rparr>) k) \<and> holds_message bytes info d
    \<and> buf_size (bd_buf d) = buf_size (bd_buf (bl_data (ob_blocks (k_objs k ob) ! j)))"
proof -
  define blk where "blk = ob_blocks (k_objs k ob) ! j"
  note L = length_MI_SerializeTo [OF mi]
  obtain b1 where b1: "buf_write (bd_buf (bl_data blk)) 0 bytes = Some b1"
    using buf_write_Some [of 0 bytes "bd_buf (bl_data blk)"] room by (auto simp: blk_def)
  obtain b2 where b2: "buf_write b1 (length bytes) (MI_SerializeTo info) = Some b2"
    using buf_write_Some [of "length bytes" "MI_SerializeTo info" b1] room buf_write_size [OF b1] by (auto simp: blk_def L)
  have "MI_SerializeTo_buf info (Some (b1, length bytes)) MI_kSize = Some (True, Some (b2, length bytes))"
    using MI_SerializeTo_buf_eq [OF mi order_refl] b2 by simp
  moreover have "buffer_of wb k = Some (bd_buf (bl_data blk))" by (simp add: buffer_of_def wb blk_def)
  ultimately have "write_message mt msg info sz wb k =
      Some (True, upd_block ob j (\<lambda>b. b\<lparr>bl_data := (bl_data b)\<lparr>bd_msg_size := sz, bd_buf := b2, bd_msg_info_size := of_nat MI_kSize\<rparr>\<rparr>) k)"
    using ser b1 len j by (simp add: write_message_def set_data_of_def set_buffer_of_def wb upd_block_twice)
  also have "\<dots> = Some (True, upd_block ob j (\<lambda>b. b\<lparr>bl_data := (bl_data blk)\<lparr>bd_msg_size := sz, bd_buf := b2, bd_msg_info_size := of_nat MI_kSize\<rparr>\<rparr>) k)"
    by (simp add: upd_block_def blk_def)
  finally show ?thesis
    using buf_read_write(1) [OF b2] buf_read_write(2) [OF b2, of 0 "length bytes"] buf_read_write(1) [OF b1] len
      buf_write_size [OF b1] buf_write_size [OF b2]
    by (intro exI conjI) (assumption, simp_all add: holds_message_def L MI_kSize_small blk_def)
qed

section \<open>Reading a block\<close>

lemma live_layout:
  assumes ok: "shm_ok nm B segs k" and ob: "sg_map (segs j) = Some ob" and idx: "unat idx < length (ob_blocks (k_objs k ob))"
  shows "idx < block_num (sg_conf (segs j))" "sg_addrs (segs j) idx = Some (unat idx)"
proof -
  have seg: "ob < k_next k" "sg_conf (segs j) = ShmConf_Update (st_ceiling_msg_size (ob_state (k_objs k ob)))"
    "\<And>i. i < block_num (sg_conf (segs j)) \<Longrightarrow> sg_addrs (segs j) i = Some (unat i)"
    using shm_okD(3) [OF ok, of j] ob by (auto simp: seg_ok_def)
  have "length (ob_blocks (k_objs k ob)) = unat (block_num (sg_conf (segs j)))"
    using shm_okD(4) [OF ok seg(1)] by (simp add: obj_ok_def seg(2))
  with idx show "idx < block_num (sg_conf (segs j))" by (simp add: word_less_nat_alt)
  then show "sg_addrs (segs j) idx = Some (unat idx)" by (rule seg(3))
qed

lemma OpenOnly_named:
  assumes ok: "shm_ok nm B segs k" and B: "B + 1 < 4294967296" and named: "k_names k nm = Some ob" and sz: "0 < ob_size (k_objs k ob)"
  obtains s1 k1 ob1 where "OpenOnly no_faults (segs j, k) = (True, s1, k1)" "shm_ok nm (B + 1) (segs(j := s1)) k1" "sg_map s1 = Some ob1"
    "sg_init (segs j) \<Longrightarrow> s1 = segs j" "\<not> sg_init (segs j) \<Longrightarrow> ob1 = ob"
proof -
  obtain r s1 k1 where o: "OpenOnly no_faults (segs j, k) = (r, s1, k1)" by (metis prod.collapse)
  have "r" using o named sz shm_okD(2) [OF ok, of j] by (auto simp: OpenOnly_def split: if_splits)
  moreover have "sg_init (segs j) \<Longrightarrow> s1 = segs j" using o by (simp add: OpenOnly_def)
  moreover have "k_names k1 = k_names k" by (rule OpenOnly_frame(1) [OF o])
  ultimately show thesis using that [of s1 k1] o opened_OpenOnly [OF ok B, of j no_faults] named by (auto simp: opened_def)
qed

lemma Acquire_read_succeeds:
  assumes ok: "shm_ok nm B segs k" and B: "B + 2 < 4294967296" and named: "k_names k nm = Some ob" and sz: "0 < ob_size (k_objs k ob)"
    and idx: "unat idx < length (ob_blocks (k_objs k ob))" and lock: "0 \<le> bl_lock_num (ob_blocks (k_objs k ob) ! unat idx)"
    and fits: "sg_init (segs j) \<Longrightarrow> idx < block_num (sg_conf (segs j))"
  shows "\<exists>s k1. AcquireBlockToRead no_faults idx (segs j, k) = Some (Some \<lparr>wb_index = idx, wb_block = (ob, unat idx), wb_buf = Some (unat idx)\<rparr>, s, k1)
    \<and> sg_map s = Some ob \<and> idx < block_num (sg_conf s)
    \<and> ob_blocks (k_objs k1 ob) = (ob_blocks (k_objs k ob))[unat idx := (ob_blocks (k_objs k ob) ! unat idx)\<lparr>bl_lock_num := bl_lock_num (ob_blocks (k_objs k ob) ! unat idx) + 1\<rparr>]"
proof -
  obtain s1 k1 ob1 where o1: "OpenOnly no_faults (segs j, k) = (True, s1, k1)" and ok1: "shm_ok nm (B + 1) (segs(j := s1)) k1"
    and ob1: "sg_map s1 = Some ob1" and kept: "sg_init (segs j) \<Longrightarrow> s1 = segs j" and fresh: "\<not> sg_init (segs j) \<Longrightarrow> ob1 = ob"
    using OpenOnly_named [OF ok _ named sz, of j] B by (metis add_lessD1 nat_1_add_1 add.assoc)
  note f1 = OpenOnly_frame [OF o1]
  have nb: "(block_num (sg_conf s1) \<le> idx) = False"
  proof (cases "sg_init (segs j)")
    case True
    then show ?thesis using fits kept by (simp add: not_le)
  next
    case False
    then show ?thesis using live_layout(1) [OF ok1, of j ob1 idx] ob1 fresh idx f1(4) by (simp add: not_le)
  qed
  obtain s2 k2 where o2: "(if need_remap (ob_state (k_objs k1 ob1)) then Remap no_faults (s1, k1) else (True, s1, k1)) = (True, s2, k2)"
    and ok2: "shm_ok nm (B + 2) (segs(j := s2)) k2" and ob2: "sg_map s2 = Some ob" and blocks: "ob_blocks (k_objs k2 ob) = ob_blocks (k_objs k ob)"
  proof (cases "need_remap (ob_state (k_objs k1 ob1))")
    case True
    have d: "shm_ok nm (B + 1) (segs(j := Reset (s1\<lparr>sg_init := False\<rparr>))) k1" using shm_ok_detach [OF ok1, of j] by simp
    obtain s2 k2 ob2 where o: "OpenOnly no_faults (Reset (s1\<lparr>sg_init := False\<rparr>), k1) = (True, s2, k2)"
      "shm_ok nm (B + 1 + 1) (segs(j := s2)) k2" "sg_map s2 = Some ob2" "ob2 = ob"
      using OpenOnly_named [OF d, of ob j] B named sz f1(1,3) by (auto simp: Reset_def)
    show ?thesis using that [of s2 k2] True o OpenOnly_frame(4) [OF o(1)] f1(4) by (simp add: Remap_def numeral_2_eq_2)
  next
    case False
    then have "ob1 = ob" using shm_okD(7) [OF ok1, of j ob1] ob1 named f1(1) by simp
    then show ?thesis using that [of s1 k1] False ob1 f1(4) shm_ok_mono [OF ok1, of "B + 2"] by simp
  qed
  have lay: "idx < block_num (sg_conf s2)" "sg_addrs s2 idx = Some (unat idx)"
    using live_layout [OF ok2, of j ob idx] ob2 idx blocks by simp_all
  show ?thesis
    using o1 ob1 o2 nb ob2 lay idx lock blocks
    by (simp add: AcquireBlockToRead_def checked_state_def TryLockForRead_eq)
qed

lemma release_block_in_use:
  assumes "wb_index ub < block_num (sg_conf s)" and "sg_map s = Some ob" and "unat (wb_index ub) < length (ob_blocks (k_objs k ob))"
  shows "ReleaseWrittenBlock ub (s, k) = Some (upd_block ob (unat (wb_index ub)) ReleaseWriteLock k)"
    "ReleaseReadBlock ub (s, k) = Some (upd_block ob (unat (wb_index ub)) ReleaseReadLock k)"
  using assms by (simp_all add: ReleaseWrittenBlock_def ReleaseReadBlock_def release_block_def not_le)

definition received_info :: "(byte list \<Rightarrow> u64) \<Rightarrow> message_info \<Rightarrow> message_info" where
  "received_info H info = mi_received H (MessageInfo H) info"

lemma ReadMessage_delivers:
  assumes ok: "shm_ok nm B segs k" and B: "B + 2 < 4294967296" and named: "k_names k nm = Some ob" and sz: "0 < ob_size (k_objs k ob)"
    and idx: "unat idx < length (ob_blocks (k_objs k ob))" and lock: "0 \<le> bl_lock_num (ob_blocks (k_objs k ob) ! unat idx)"
    and fits: "sg_init (segs j) \<Longrightarrow> idx < block_num (sg_conf (segs j))"
    and msg: "holds_message bytes info (bl_data (ob_blocks (k_objs k ob) ! unat idx))" and mi: "mi_ok H info"
    and seg: "um_find (sd_segments d) ch = Some (segs j)"
    and r: "dispatch_rep (sd_base d) S" and ty: "channel_type S ch \<in> {None, Some READABLE_BLOCK}"
  shows "\<exists>d' k'. ReadMessage H no_faults ch idx (d, k, log) =
      Some (d', k', log @ map (\<lambda>cb. (cb, bytes, received_info H info)) (readers_of S ch (id_hash (sender_id (received_info H info)))))
    \<and> dispatch_rep (sd_base d') S \<and> ob_blocks (k_objs k' ob) = ob_blocks (k_objs k ob)"
proof -
  let ?blk = "ob_blocks (k_objs k ob) ! unat idx" and ?rb = "\<lparr>wb_index = idx, wb_block = (ob, unat idx), wb_buf = Some (unat idx)\<rparr>"
  obtain s k1 where a: "AcquireBlockToRead no_faults idx (segs j, k) = Some (Some ?rb, s, k1)" "sg_map s = Some ob" "idx < block_num (sg_conf s)"
    "ob_blocks (k_objs k1 ob) = (ob_blocks (k_objs k ob))[unat idx := ?blk\<lparr>bl_lock_num := bl_lock_num ?blk + 1\<rparr>]"
    using Acquire_read_succeeds [OF ok B named sz idx lock fits] by blast
  have data: "bl_data (block_of ?rb k1) = bl_data ?blk" "buffer_of ?rb k1 = Some (bd_buf (bl_data ?blk))"
    using idx by (simp_all add: block_of_def buffer_of_def a(4))
  have info: "MI_DeserializeFrom_buf H (MessageInfo H) (Some (bd_buf (bl_data ?blk), unat (bd_msg_size (bl_data ?blk))))
      (unat (bd_msg_info_size (bl_data ?blk))) = Some (True, received_info H info)"
    using MI_DeserializeFrom_buf_read [OF mi, of "bd_buf (bl_data ?blk)" "length bytes" "MessageInfo H"] msg
    by (simp add: holds_message_def received_info_def)
  obtain base where on: "OnMessage READABLE_BLOCK ch bytes (received_info H info) (sd_base d, log) =
      Some (base, log @ map (\<lambda>cb. (cb, bytes, received_info H info)) (readers_of S ch (id_hash (sender_id (received_info H info)))))" "dispatch_rep base S"
    using OnMessage_rep [OF r ty, of bytes "received_info H info" log] by blast
  have rel: "ReleaseReadBlock ?rb (s, k1) = Some (upd_block ob (unat idx) ReleaseReadLock k1)"
    using release_block_in_use(2) [of ?rb s ob k1] a idx by simp
  have "ob_blocks (k_objs (upd_block ob (unat idx) ReleaseReadLock k1) ob) = ob_blocks (k_objs k ob)"
    using idx by (simp add: a(4) ReleaseReadLock_def)
  then show ?thesis
    using seg a(1) data info msg on rel by (simp add: ReadMessage_def holds_message_def)
qed

section \<open>Transmitting\<close>

lemma ST_Transmit_writes:
  assumes ok: "shm_ok nm B segs k" and B: "B + 3 < 4294967296"
    and av: "\<And>ob. k_names k nm = Some ob \<Longrightarrow> avail nm k ob" and none: "k_names k nm = None \<Longrightarrow> sg_map (segs i) = None"
    and msg: "serializes mt msg bytes" "length bytes \<le> 33554432" and mi: "mi_ok H info"
    and t: "enabled t" "st_segment t = Some (segs i)" "st_notifier t" and w: "sw_kernel w = k" "\<not> np_shutdown (sw_notifier w)"
  shows "\<exists>s idx k' ob ind. ST_Transmit mt no_faults msg info (t, w) = Some (True, t\<lparr>st_segment := Some s\<rparr>, w\<lparr>sw_kernel := k', sw_ind := ind\<rparr>)
    \<and> Notify_run \<lparr>ri_host_id = st_host_id t, ri_block_index = idx, ri_channel_id = st_channel_id t\<rparr> (sw_notifier w) (sw_ind w) = (True, ind)
    \<and> shm_ok nm (B + 3) (segs(i := s)) k' \<and> k_names k' nm = Some ob \<and> 0 < ob_size (k_objs k' ob)
    \<and> unat idx < length (ob_blocks (k_objs k' ob)) \<and> bl_lock_num (ob_blocks (k_objs k' ob) ! unat idx) = 0
    \<and> holds_message bytes info (bl_data (ob_blocks (k_objs k' ob) ! unat idx)) \<and> idx < block_num (sg_conf s)
    \<and> (\<forall>ob. k_names k nm = Some ob \<longrightarrow> block_num (sg_conf s) \<le> block_num (ShmConf_Update (st_ceiling_msg_size (ob_state (k_objs k ob)))))"
proof -
  define sz where "sz = (word_of_int (int (length bytes)) :: u64)"
  have sz: "unat sz = length bytes" "sint (ucast sz :: u32) = int (length bytes)"
    using serialized_size [of "length bytes" sz] msg(2) by (simp_all add: sz_def)
  have small: "sz \<le> MESSAGE_SIZE_MORE" using sz(1) msg(2) by (simp add: word_le_nat_alt MESSAGE_SIZE_MORE_def)
  obtain wb s k1 where a: "AcquireBlockToWrite no_faults sz (segs i, k) = Some (Some wb, s, k1)" "acquired nm wb s k1" "sz \<le> ceiling_msg_size (sg_conf s)"
    "\<forall>ob. k_names k nm = Some ob \<longrightarrow> block_num (sg_conf s) \<le> block_num (ShmConf_Update (st_ceiling_msg_size (ob_state (k_objs k ob))))"
    using Acquire_write_succeeds [OF ok B av none, of sz] small by auto
  obtain ob where ob: "sg_map s = Some ob" "k_names k1 nm = Some ob" "wb_block wb = (ob, unat (wb_index wb))" "wb_buf wb = Some (unat (wb_index wb))"
    "wb_index wb < block_num (sg_conf s)" "unat (wb_index wb) < length (ob_blocks (k_objs k1 ob))"
    "bl_lock_num (ob_blocks (k_objs k1 ob) ! unat (wb_index wb)) = WRITE_EXCLUSIVE"
    "buf_size (bd_buf (bl_data (ob_blocks (k_objs k1 ob) ! unat (wb_index wb)))) = unat (ceiling_msg_size (sg_conf s)) + 1024"
    using a(2) by (auto simp: acquired_def)
  have ok1: "shm_ok nm (B + 3) (segs(i := s)) k1" by (rule Acquire_write_ok [OF ok B a(1)])
  have size: "0 < ob_size (k_objs k1 ob)" using shm_okD(3) [OF ok1, of i] ob(1) by (simp add: seg_ok_def)
  have ser: "mt_SerializeToArray mt msg (sint (ucast sz :: u32)) = Some bytes" using msg(1) sz(2) by (simp add: serializes_def)
  have room: "length bytes + MI_kSize \<le> buf_size (bd_buf (bl_data (ob_blocks (k_objs k1 ob) ! unat (wb_index wb))))"
    using a(3) sz(1) by (simp add: ob(8) MI_kSize_small word_le_nat_alt)
  from write_message_holds [OF ser sz(1) mi ob(6,3,4) room]
  obtain dt where wr: "write_message mt msg info sz wb k1 = Some (True, upd_block ob (unat (wb_index wb)) (\<lambda>b. b\<lparr>bl_data := dt\<rparr>) k1)"
    and dt: "holds_message bytes info dt" "buf_size (bd_buf dt) = buf_size (bd_buf (bl_data (ob_blocks (k_objs k1 ob) ! unat (wb_index wb))))"
    by blast
  define k3 where "k3 = upd_block ob (unat (wb_index wb)) (\<lambda>b. ReleaseWriteLock (b\<lparr>bl_data := dt\<rparr>)) k1"
  have rel: "ReleaseWrittenBlock wb (s, upd_block ob (unat (wb_index wb)) (\<lambda>b. b\<lparr>bl_data := dt\<rparr>) k1) = Some k3"
    using release_block_in_use(1) [OF ob(5,1)] ob(6) by (simp add: k3_def upd_block_twice)
  obtain ind where ind: "Notify_run \<lparr>ri_host_id = st_host_id t, ri_block_index = wb_index wb, ri_channel_id = st_channel_id t\<rparr> (sw_notifier w) (sw_ind w) = (True, ind)"
    by (simp add: Notify_run_eq [OF w(2)])
  have "ST_Transmit mt no_faults msg info (t, w) = Some (True, t\<lparr>st_segment := Some s\<rparr>, w\<lparr>sw_kernel := k3, sw_ind := ind\<rparr>)"
    using t w(1) a(1) wr rel ind msg(1) by (simp add: ST_Transmit_def serializes_def sz_def [symmetric, simplified])
  moreover have "shm_ok nm (B + 3) (segs(i := s)) k3"
    unfolding k3_def by (rule shm_ok_upd_block [OF ok1]) (simp add: dt(2) ReleaseWriteLock_def)
  ultimately show ?thesis
    using ob ind size dt(1) a(4)
    by (intro exI [of _ s] exI [of _ "wb_index wb"] exI [of _ k3] exI [of _ ob] exI [of _ ind]) (simp add: k3_def ReleaseWriteLock_def)
qed

lemma ceiling_bound: "unat (ceiling_msg_size (ShmConf_Update n)) \<le> 33554432"
  using ShmConf_Update_cases [of n] by (elim insertE emptyE) (simp_all del: ceiling_Update)

lemma ST_Transmit_overruns:
  assumes ok: "shm_ok nm B segs k" and B: "B + 3 < 4294967296"
    and av: "\<And>ob. k_names k nm = Some ob \<Longrightarrow> avail nm k ob" and none: "k_names k nm = None \<Longrightarrow> sg_map (segs i) = None"
    and msg: "serializes mt msg bytes" "33555456 < length bytes" "length bytes < 2147483648"
    and t: "enabled t" "st_segment t = Some (segs i)" and w: "sw_kernel w = k"
  shows "ST_Transmit mt no_faults msg info (t, w) = None"
proof -
  define sz where "sz = (word_of_int (int (length bytes)) :: u64)"
  have sz: "sint (ucast sz :: u32) = int (length bytes)"
    using serialized_size [of "length bytes" sz] msg(3) by (simp add: sz_def)
  obtain wb s k1 where a: "AcquireBlockToWrite no_faults sz (segs i, k) = Some (Some wb, s, k1)" "acquired nm wb s k1"
    using Acquire_write_succeeds [OF ok B av none, of sz] by auto
  obtain n where "sg_conf s = ShmConf_Update n"
    using shm_okD(3) [OF Acquire_write_ok [OF ok B a(1)], of i] by (auto simp: seg_ok_def)
  then have "unat (ceiling_msg_size (sg_conf s)) + 1024 < length bytes" using ceiling_bound [of n] msg(2) by simp
  then have "Option.bind (buffer_of wb k1) (\<lambda>b. buf_write b 0 bytes) = None"
    using a(2) by (auto simp: acquired_def buffer_of_def buf_write_def)
  then have "write_message mt msg info sz wb k1 = None"
    using msg(1) sz by (auto simp: write_message_def serializes_def bind_eq_None_conv split: Option.bind_splits)
  then show ?thesis
    using t w a(1) msg(1) by (simp add: ST_Transmit_def serializes_def sz_def [symmetric, simplified])
qed

section \<open>Properties\<close>



text \<open>
  A transmitter and a dispatcher on an unused channel: messages are byte strings that serialize to
  themselves, and the dispatcher has one listener for all senders and one for a certain sender.
\<close>

definition raw_traits :: "byte list message_traits" where
  "raw_traits = \<lparr>mt_ByteSize = (\<lambda>m. int (length m)), mt_SerializeToArray = (\<lambda>m n. Some m)\<rparr>"

definition demo_transmitter :: shm_transmitter where
  "demo_transmitter = \<lparr>enabled = True, ep_id = Identity (\<lambda>_. 77) None, ep_attr = RoleAttributes, tr_seq_num = 0, tr_msg_info = demo_info,
     st_segment = Some (PosixSegment 9), st_channel_id = 9, st_host_id = 5, st_notifier = True\<rparr>"

definition demo_world :: shm_world where
  "demo_world = \<lparr>sw_kernel = empty_kernel, sw_ind = Indicator, sw_notifier = ConditionNotifier Indicator\<rparr>"

definition demo_adds :: "nat dp_op list" where
  "demo_adds = [Dp_Add READABLE_BLOCK (reader_attr 9 1) None 11, Dp_Add READABLE_BLOCK (reader_attr 9 2) (Some (reader_attr 0 77)) 22]"

definition demo_dispatcher :: "nat shm_dispatcher" where
  "demo_dispatcher = \<lparr>sd_base = fold dp_exec demo_adds Dispatcher, sd_host_id = 5, sd_segments = [(9, PosixSegment 9)], sd_previous_indexes = []\<rparr>"

lemma demo_unused:
  "case k_names (ss_kernel first_system) (nat_to_string (unat (9 :: u64))) of
     None \<Rightarrow> sg_map (ss_segs first_system i) = None
   | Some ob \<Rightarrow> 0 < ob_size (k_objs (ss_kernel first_system) ob) \<and> (\<exists>b \<in> set (ob_blocks (k_objs (ss_kernel first_system) ob)). bl_lock_num b = 0)"
  by (simp add: first_system_def empty_kernel_def PosixSegment_def)



end
