(* ===== verification/Intra_Dispatch.thy ===== *)
theory Intra_Dispatch
  imports Listener_Dispatch "HOL-Library.List_Lexorder" "HOL-Library.Char_ord"
begin

text \<open>
  \<open>transport/dispatcher/intra_dispatcher\<close> and \<open>transport/transmitter/intra_transmitter.h\<close>: messages that
  stay inside a process, where readers of one channel may have different message types.

  The base dispatcher has one handler per channel, of the type of its first reader, and what is connected to
  it are wrappers, which run the chain of the channel: all handlers of the channel, by type. A message type is
  its name. \<open>ser\<close> is the serialization with a header (\<open>None\<close> when the size is negative or serializing
  fails) and \<open>parse ty\<close> the parsing of such a string as type \<open>ty\<close>. The inner \<open>std::map\<close>, over which
  a run iterates, is kept in the order of its keys. Listeners only record their calls.
\<close>

section \<open>Ordered maps\<close>

fun om_find :: "('k \<times> 'v) list \<Rightarrow> 'k \<Rightarrow> 'v option" where
  "om_find [] k = None"
| "om_find ((a, b) # m) k = (if a = k then Some b else om_find m k)"

fun om_put :: "('k :: linorder) \<Rightarrow> 'v \<Rightarrow> ('k \<times> 'v) list \<Rightarrow> ('k \<times> 'v) list" where
  "om_put k v [] = [(k, v)]"
| "om_put k v ((a, b) # m) = (if k < a then (k, v) # (a, b) # m else if a = k then (k, v) # m else (a, b) # om_put k v m)"

fun om_erase :: "'k \<Rightarrow> ('k \<times> 'v) list \<Rightarrow> ('k \<times> 'v) list" where
  "om_erase k [] = []"
| "om_erase k ((a, b) # m) = (if a = k then m else (a, b) # om_erase k m)"

section \<open>Channel chains\<close>

type_synonym 'cb handlers = "(u64, (string \<times> 'cb listener_handler) list) umap"

record 'cb channel_chain =
  chn_handlers :: "'cb handlers"
  chn_oppo_handlers :: "(u64, 'cb handlers) umap"

text \<open>\<open>GetHandler\<close> and the \<open>Connect\<close> that follows; the flag is whether the handler was created.\<close>

definition chain_connect ::
  "string \<Rightarrow> u64 \<Rightarrow> ('cb listener_handler \<Rightarrow> 'cb listener_handler) \<Rightarrow> 'cb handlers \<Rightarrow> bool \<times> 'cb handlers" where
  "chain_connect ty ch connect hs =
     (let hs1 = (if um_find hs ch = None then um_put ch [] hs else hs); inner = um_at [] hs1 ch
      in case om_find inner ty of
           None \<Rightarrow> (True, um_put ch (om_put ty (connect (ListenerHandler ty)) inner) hs1)
         | Some h \<Rightarrow> if lh_type h \<noteq> ty then (False, hs1) else (False, um_put ch (om_put ty (connect h) inner) hs1))"

definition CC_AddListener :: "u64 \<Rightarrow> u64 \<Rightarrow> string \<Rightarrow> 'cb \<Rightarrow> 'cb channel_chain \<Rightarrow> bool \<times> 'cb channel_chain" where
  "CC_AddListener self_id ch ty listener c =
     (let (created, hs) = chain_connect ty ch (LH_Connect self_id listener) (chn_handlers c)
      in (created, c\<lparr>chn_handlers := hs\<rparr>))"

definition CC_AddListener_from :: "u64 \<Rightarrow> u64 \<Rightarrow> u64 \<Rightarrow> string \<Rightarrow> 'cb \<Rightarrow> 'cb channel_chain \<Rightarrow> bool \<times> 'cb channel_chain" where
  "CC_AddListener_from self_id oppo_id ch ty listener c =
     (let oppo = (if um_find (chn_oppo_handlers c) oppo_id = None then um_put oppo_id [] (chn_oppo_handlers c) else chn_oppo_handlers c);
          (created, hs) = chain_connect ty ch (LH_Connect_from self_id oppo_id listener) (um_at [] oppo oppo_id)
      in (created, c\<lparr>chn_oppo_handlers := um_put oppo_id hs oppo\<rparr>))"

definition RemoveHandler :: "u64 \<Rightarrow> string \<Rightarrow> 'cb handlers \<Rightarrow> 'cb listener_handler option \<times> 'cb handlers" where
  "RemoveHandler ch ty hs =
     (case um_find hs ch of
        None \<Rightarrow> (None, hs)
      | Some inner \<Rightarrow>
          let inner1 = om_erase ty inner
          in (om_find inner ty, if inner1 = [] then um_erase ch hs else um_put ch inner1 hs))"

text \<open>The handler that was removed is disconnected; it is in no map any more and goes away with that.\<close>

definition CC_RemoveListener :: "u64 \<Rightarrow> u64 \<Rightarrow> string \<Rightarrow> 'cb channel_chain \<Rightarrow> 'cb listener_handler option \<times> 'cb channel_chain" where
  "CC_RemoveListener self_id ch ty c =
     (let (h, hs) = RemoveHandler ch ty (chn_handlers c) in (map_option (LH_Disconnect self_id) h, c\<lparr>chn_handlers := hs\<rparr>))"

definition CC_RemoveListener_from ::
  "u64 \<Rightarrow> u64 \<Rightarrow> u64 \<Rightarrow> string \<Rightarrow> 'cb channel_chain \<Rightarrow> 'cb listener_handler option \<times> 'cb channel_chain" where
  "CC_RemoveListener_from self_id oppo_id ch ty c =
     (case um_find (chn_oppo_handlers c) oppo_id of
        None \<Rightarrow> (None, c)
      | Some handlers \<Rightarrow>
          let (h, hs) = RemoveHandler ch ty handlers;
              oppo = um_put oppo_id hs (chn_oppo_handlers c)
          in (map_option (LH_Disconnect_from self_id oppo_id) h, c\<lparr>chn_oppo_handlers := (if hs = [] then um_erase oppo_id oppo else oppo)\<rparr>))"

fun run_handlers ::
  "('m \<Rightarrow> byte list option) \<Rightarrow> (string \<Rightarrow> byte list \<Rightarrow> 'm option) \<Rightarrow> string \<Rightarrow> 'm \<Rightarrow> message_info
     \<Rightarrow> (string \<times> 'cb listener_handler) list \<Rightarrow> ('cb, 'm) call_log \<Rightarrow> (string \<times> 'cb listener_handler) list \<times> ('cb, 'm) call_log" where
  "run_handlers ser parse ty msg info [] log = ([], log)"
| "run_handlers ser parse ty msg info ((name, h) # hs) log =
     (let (h1, log1) =
            (if ty = name then LH_Run msg info (h, log)
             else case ser msg of
                    None \<Rightarrow> (h, log)
                  | Some bytes \<Rightarrow> if bytes = [] then (h, log) else LH_RunFromString (parse name) bytes info (h, log));
          (hs2, log2) = run_handlers ser parse ty msg info hs log1
      in ((name, h1) # hs2, log2))"

definition chain_run ::
  "('m \<Rightarrow> byte list option) \<Rightarrow> (string \<Rightarrow> byte list \<Rightarrow> 'm option) \<Rightarrow> u64 \<Rightarrow> string \<Rightarrow> 'm \<Rightarrow> message_info
     \<Rightarrow> 'cb handlers \<times> ('cb, 'm) call_log \<Rightarrow> 'cb handlers \<times> ('cb, 'm) call_log" where
  "chain_run ser parse ch ty msg info = (\<lambda>(hs, log).
     case um_find hs ch of
       None \<Rightarrow> (hs, log)
     | Some inner \<Rightarrow> let (inner1, log1) = run_handlers ser parse ty msg info inner log in (um_put ch inner1 hs, log1))"

definition CC_Run ::
  "('m \<Rightarrow> byte list option) \<Rightarrow> (string \<Rightarrow> byte list \<Rightarrow> 'm option) \<Rightarrow> u64 \<Rightarrow> string \<Rightarrow> 'm \<Rightarrow> message_info
     \<Rightarrow> 'cb channel_chain \<times> ('cb, 'm) call_log \<Rightarrow> 'cb channel_chain \<times> ('cb, 'm) call_log" where
  "CC_Run ser parse ch ty msg info = (\<lambda>(c, log).
     let (hs, log1) = chain_run ser parse ch ty msg info (chn_handlers c, log) in (c\<lparr>chn_handlers := hs\<rparr>, log1))"

definition CC_Run_from ::
  "('m \<Rightarrow> byte list option) \<Rightarrow> (string \<Rightarrow> byte list \<Rightarrow> 'm option) \<Rightarrow> u64 \<Rightarrow> u64 \<Rightarrow> string \<Rightarrow> 'm \<Rightarrow> message_info
     \<Rightarrow> 'cb channel_chain \<times> ('cb, 'm) call_log \<Rightarrow> 'cb channel_chain \<times> ('cb, 'm) call_log" where
  "CC_Run_from ser parse oppo_id ch ty msg info = (\<lambda>(c, log).
     case um_find (chn_oppo_handlers c) oppo_id of
       None \<Rightarrow> (c, log)
     | Some handlers \<Rightarrow>
         let (hs, log1) = chain_run ser parse ch ty msg info (handlers, log)
         in (c\<lparr>chn_oppo_handlers := um_put oppo_id hs (chn_oppo_handlers c)\<rparr>, log1))"

section \<open>The dispatcher\<close>

text \<open>The closures \<open>listener_wrapper\<close> with the values they capture.\<close>

datatype listener_wrapper = Wrapper u64 u64 string | Wrapper_from u64 u64 u64 string

fun call_wrapper ::
  "('m \<Rightarrow> byte list option) \<Rightarrow> (string \<Rightarrow> byte list \<Rightarrow> 'm option) \<Rightarrow> listener_wrapper \<times> 'm \<times> message_info
     \<Rightarrow> 'cb channel_chain \<times> ('cb, 'm) call_log \<Rightarrow> 'cb channel_chain \<times> ('cb, 'm) call_log" where
  "call_wrapper ser parse (Wrapper self_id ch ty, msg, info) cl = CC_Run ser parse ch ty msg info cl"
| "call_wrapper ser parse (Wrapper_from self_id oppo_id ch ty, msg, info) cl = CC_Run_from ser parse oppo_id ch ty msg info cl"

record 'cb intra_dispatcher =
  id_base :: "listener_wrapper dispatcher"
  id_chain :: "'cb channel_chain"

definition IntraDispatcher :: "'cb intra_dispatcher" where
  "IntraDispatcher = \<lparr>id_base = Dispatcher, id_chain = \<lparr>chn_handlers = [], chn_oppo_handlers = []\<rparr>\<rparr>"

definition ID_OnMessage ::
  "('m \<Rightarrow> byte list option) \<Rightarrow> (string \<Rightarrow> byte list \<Rightarrow> 'm option) \<Rightarrow> string \<Rightarrow> u64 \<Rightarrow> 'm \<Rightarrow> message_info
     \<Rightarrow> 'cb intra_dispatcher \<times> ('cb, 'm) call_log \<Rightarrow> 'cb intra_dispatcher \<times> ('cb, 'm) call_log" where
  "ID_OnMessage ser parse ty ch msg info = (\<lambda>(d, log).
     if dp_is_shutdown (id_base d) then (d, log)
     else case AHM_Get (dp_msg_listeners (id_base d)) ch of
       None \<Rightarrow> (d, log)
     | Some h \<Rightarrow>
         let handler = dp_handlers (id_base d) h;
             (handler1, calls) =
               (if lh_type handler = ty then LH_Run msg info (handler, [])
                else case ser msg of
                       None \<Rightarrow> (handler, [])
                     | Some bytes \<Rightarrow> LH_RunFromString (parse (lh_type handler)) bytes info (handler, []));
             (c, log1) = fold (call_wrapper ser parse) calls (id_chain d, log)
         in (d\<lparr>id_base := (id_base d)\<lparr>dp_handlers := (dp_handlers (id_base d))(h := handler1)\<rparr>, id_chain := c\<rparr>, log1))"

text \<open>\<open>GetHandler\<close> of the dispatcher, and the \<open>Connect\<close> of the wrapper when the chain created a handler.\<close>

definition ID_connect ::
  "string \<Rightarrow> u64 \<Rightarrow> bool \<Rightarrow> (listener_wrapper listener_handler \<Rightarrow> listener_wrapper listener_handler)
     \<Rightarrow> listener_wrapper dispatcher \<Rightarrow> listener_wrapper dispatcher" where
  "ID_connect ty ch created connect b =
     (case AHM_Get (dp_msg_listeners b) ch of
        Some h \<Rightarrow>
          if lh_type (dp_handlers b h) = ty \<and> created then b\<lparr>dp_handlers := (dp_handlers b)(h := connect (dp_handlers b h))\<rparr> else b
      | None \<Rightarrow>
          let h = dp_next b; handler = ListenerHandler ty
          in b\<lparr>dp_msg_listeners := AHM_Set (dp_msg_listeners b) ch h,
               dp_handlers := (dp_handlers b)(h := (if created then connect handler else handler)), dp_next := h + 1\<rparr>)"

definition ID_AddListener :: "string \<Rightarrow> role_attributes \<Rightarrow> 'cb \<Rightarrow> 'cb intra_dispatcher \<Rightarrow> 'cb intra_dispatcher" where
  "ID_AddListener ty self_attr listener d =
     (if dp_is_shutdown (id_base d) then d
      else
        let ch = channel_id self_attr; self_id = role_id self_attr;
            (created, c) = CC_AddListener self_id ch ty listener (id_chain d)
        in d\<lparr>id_base := ID_connect ty ch created (LH_Connect self_id (Wrapper self_id ch ty)) (id_base d), id_chain := c\<rparr>)"

definition ID_AddListener_from :: "string \<Rightarrow> role_attributes \<Rightarrow> role_attributes \<Rightarrow> 'cb \<Rightarrow> 'cb intra_dispatcher \<Rightarrow> 'cb intra_dispatcher" where
  "ID_AddListener_from ty self_attr opposite_attr listener d =
     (if dp_is_shutdown (id_base d) then d
      else
        let ch = channel_id self_attr; self_id = role_id self_attr; oppo_id = role_id opposite_attr;
            (created, c) = CC_AddListener_from self_id oppo_id ch ty listener (id_chain d)
        in d\<lparr>id_base := ID_connect ty ch created (LH_Connect_from self_id oppo_id (Wrapper_from self_id oppo_id ch ty)) (id_base d), id_chain := c\<rparr>)"

definition ID_RemoveListener :: "string \<Rightarrow> role_attributes \<Rightarrow> 'cb intra_dispatcher \<Rightarrow> 'cb intra_dispatcher" where
  "ID_RemoveListener ty self_attr d =
     (if dp_is_shutdown (id_base d) then d
      else d\<lparr>id_base := RemoveListener self_attr (id_base d),
             id_chain := snd (CC_RemoveListener (role_id self_attr) (channel_id self_attr) ty (id_chain d))\<rparr>)"

definition ID_RemoveListener_from :: "string \<Rightarrow> role_attributes \<Rightarrow> role_attributes \<Rightarrow> 'cb intra_dispatcher \<Rightarrow> 'cb intra_dispatcher" where
  "ID_RemoveListener_from ty self_attr opposite_attr d =
     (if dp_is_shutdown (id_base d) then d
      else d\<lparr>id_base := RemoveListener_from self_attr opposite_attr (id_base d),
             id_chain := snd (CC_RemoveListener_from (role_id self_attr) (role_id opposite_attr) (channel_id self_attr) ty (id_chain d))\<rparr>)"

section \<open>The transmitter\<close>

record intra_transmitter = transmitter +
  it_channel_id :: u64
  it_dispatcher :: bool

definition IntraTransmitter :: "(byte list \<Rightarrow> u64) \<Rightarrow> byte list \<Rightarrow> string \<Rightarrow> int \<Rightarrow> role_attributes \<Rightarrow> intra_transmitter" where
  "IntraTransmitter H uuid host pid attr = transmitter.extend (Transmitter H uuid host pid attr)
     \<lparr>it_channel_id = channel_id attr, it_dispatcher = False\<rparr>"

definition IT_Enable :: "intra_transmitter \<Rightarrow> intra_transmitter" where
  "IT_Enable t = (if \<not> enabled t then t\<lparr>it_dispatcher := True, enabled := True\<rparr> else t)"

definition IT_Disable :: "intra_transmitter \<Rightarrow> intra_transmitter" where
  "IT_Disable t = (if enabled t then t\<lparr>it_dispatcher := False, enabled := False\<rparr> else t)"

definition IT_Transmit ::
  "('m \<Rightarrow> byte list option) \<Rightarrow> (string \<Rightarrow> byte list \<Rightarrow> 'm option) \<Rightarrow> string \<Rightarrow> intra_transmitter \<Rightarrow> 'm \<Rightarrow> message_info
     \<Rightarrow> 'cb intra_dispatcher \<times> ('cb, 'm) call_log \<Rightarrow> bool \<times> 'cb intra_dispatcher \<times> ('cb, 'm) call_log" where
  "IT_Transmit ser parse ty t msg info dl =
     (if \<not> enabled t then (False, dl) else (True, ID_OnMessage ser parse ty (it_channel_id t) msg info dl))"

section \<open>Chains and wrappers together\<close>

text \<open>
  When all readers of a channel have one type, the chain has one handler for the readers of all senders, one
  per sender for the readers of that sender, and the first reader of each has its wrapper in the base.
\<close>

definition lead :: "u64 \<Rightarrow> string \<Rightarrow> (u64 \<times> 'cb) list \<Rightarrow> (u64 \<times> listener_wrapper) list" where
  "lead ch ty L = (case L of [] \<Rightarrow> [] | x # _ \<Rightarrow> [(fst x, Wrapper (fst x) ch ty)])"

definition lead_from :: "u64 \<Rightarrow> string \<Rightarrow> u64 \<Rightarrow> (u64 \<times> 'cb) list \<Rightarrow> (u64 \<times> listener_wrapper) list" where
  "lead_from ch ty oppo L = (case L of [] \<Rightarrow> [] | x # _ \<Rightarrow> [(fst x, Wrapper_from (fst x) oppo ch ty)])"

definition base_spec :: "'cb dispatch_spec \<Rightarrow> listener_wrapper dispatch_spec" where
  "base_spec S ch = map_option (\<lambda>(ty, A, F). (ty, lead ch ty A, \<lambda>oppo. lead_from ch ty oppo (F oppo))) (S ch)"

definition inner_rep :: "string \<Rightarrow> 'cb handler_spec \<Rightarrow> (string \<times> 'cb listener_handler) list \<Rightarrow> bool" where
  "inner_rep ty sp inner \<longleftrightarrow>
     (if sp = ([], \<lambda>_. []) then inner = [] else \<exists>h. inner = [(ty, h)] \<and> lh_type h = ty \<and> handler_rep h sp)"

definition only :: "u64 \<Rightarrow> 'a list \<Rightarrow> u64 \<Rightarrow> 'a list" where
  "only oppo L = (\<lambda>_. [])(oppo := L)"

definition spec_at :: "'cb dispatch_spec \<Rightarrow> u64 \<Rightarrow> string \<times> 'cb handler_spec" where
  "spec_at S ch = (case S ch of None \<Rightarrow> ([], no_readers) | Some x \<Rightarrow> x)"

definition chain_rep :: "'cb channel_chain \<Rightarrow> 'cb dispatch_spec \<Rightarrow> bool" where
  "chain_rep c S \<longleftrightarrow> (\<forall>ch ty A F. spec_at S ch = (ty, A, F) \<longrightarrow>
     inner_rep ty (A, \<lambda>_. []) (um_at [] (chn_handlers c) ch)
     \<and> (\<forall>oppo. inner_rep ty ([], only oppo (F oppo)) (um_at [] (um_at [] (chn_oppo_handlers c) oppo) ch)))"

definition intra_rep :: "'cb intra_dispatcher \<Rightarrow> 'cb dispatch_spec \<Rightarrow> bool" where
  "intra_rep d S \<longleftrightarrow> dispatch_rep (id_base d) (base_spec S) \<and> chain_rep (id_chain d) S"

lemma only_simps [simp]: "only oppo L oppo = L" "(only oppo L)(oppo := M) = only oppo M" "only oppo [] = (\<lambda>_. [])" "only oppo L = (\<lambda>_. []) \<longleftrightarrow> L = []"
  by (auto simp: only_def fun_eq_iff)

lemma lh_exec_fun:
  "LH_Connect self cb = lh_exec (Op_Connect self cb)" "LH_Connect_from self oppo cb = lh_exec (Op_Connect_from self oppo cb)"
  by (simp_all add: fun_eq_iff)

fun connects :: "'cb lh_op \<Rightarrow> bool" where
  "connects (Op_Connect _ _) = True"
| "connects (Op_Connect_from _ _ _) = True"
| "connects _ = False"

lemma connects_nonempty: "connects op \<Longrightarrow> lh_spec op sp \<noteq> ([], \<lambda>_. [])"
  by (cases sp; cases op) (auto simp: fun_eq_iff)

lemma chain_connect_rep:
  assumes r: "inner_rep ty sp (um_at [] hs ch)" and op: "connects op" "lh_orderly op sp"
    and eq: "chain_connect ty ch (lh_exec op) hs = (created, hs')"
  shows "(created \<longleftrightarrow> sp = ([], \<lambda>_. [])) \<and> inner_rep ty (lh_spec op sp) (um_at [] hs' ch) \<and> (\<forall>ch'. ch' \<noteq> ch \<longrightarrow> um_at [] hs' ch' = um_at [] hs ch')"
proof -
  define hs1 where "hs1 = (if um_find hs ch = None then um_put ch [] hs else hs)"
  have at1: "um_at [] hs1 c = um_at [] hs c" for c by (auto simp: hs1_def um_simps um_at_None)
  obtain A F where sp: "sp = (A, F)" by (cases sp)
  show ?thesis
  proof (cases "sp = ([], \<lambda>_. [])")
    case True
    then have "um_at [] hs1 ch = []" using r by (simp add: inner_rep_def at1)
    then have "created" "hs' = um_put ch [(ty, lh_exec op (ListenerHandler ty))] hs1"
      using eq by (simp_all add: chain_connect_def hs1_def [symmetric] Let_def)
    moreover have "handler_rep (lh_exec op (ListenerHandler ty)) (lh_spec op sp)"
      using lh_exec_rep [of "ListenerHandler ty" A F op] handler_rep_new [of ty] op(2) True sp by (simp add: no_readers_def)
    ultimately show ?thesis
      using True connects_nonempty [OF op(1), of sp] by (simp add: inner_rep_def um_at_put at1) (simp add: ListenerHandler_def)
  next
    case False
    then obtain h where h: "um_at [] hs1 ch = [(ty, h)]" "lh_type h = ty" "handler_rep h sp" using r by (auto simp: inner_rep_def at1)
    then have "\<not> created" "hs' = um_put ch [(ty, lh_exec op h)] hs1"
      using eq by (simp_all add: chain_connect_def hs1_def [symmetric] Let_def)
    moreover have "handler_rep (lh_exec op h) (lh_spec op sp)" using lh_exec_rep h(3) op(2) sp by auto
    ultimately show ?thesis using False connects_nonempty [OF op(1), of sp] h(2) by (simp add: inner_rep_def um_at_put at1)
  qed
qed

lemma chain_run_rep:
  assumes r: "inner_rep ty (A, F) (um_at [] hs ch)" and eq: "chain_run ser parse ch ty msg info (hs, log) = (hs', log')"
  shows "log' = log @ map (\<lambda>x. (snd x, msg, info)) (A @ F (id_hash (sender_id info)))
    \<and> inner_rep ty (A, F) (um_at [] hs' ch) \<and> (\<forall>ch'. ch' \<noteq> ch \<longrightarrow> um_at [] hs' ch' = um_at [] hs ch')"
proof (cases "(A, F) = ([], \<lambda>_. [])")
  case True
  then have "um_at [] hs ch = []" using r by (simp add: inner_rep_def)
  then show ?thesis using eq True by (auto simp: chain_run_def um_at_def um_find_put inner_rep_def split: option.splits)
next
  case False
  then obtain h where h: "um_at [] hs ch = [(ty, h)]" "lh_type h = ty" "handler_rep h (A, F)" using r by (auto simp: inner_rep_def)
  obtain h1 log1 where run: "LH_Run msg info (h, log) = (h1, log1)" by fastforce
  have "um_find hs ch = Some [(ty, h)]" using h(1) by (auto simp: um_at_def split: option.splits)
  then have "hs' = um_put ch [(ty, h1)] hs" "log' = log1" using eq run by (simp_all add: chain_run_def)
  then show ?thesis using LH_Run_rep [OF h(3) run] False h(2) by (simp add: inner_rep_def um_at_put)
qed

lemma chain_repD:
  assumes "chain_rep c S" and "spec_at S ch = (ty, A, F)"
  shows "inner_rep ty (A, \<lambda>_. []) (um_at [] (chn_handlers c) ch)"
    "inner_rep ty ([], only oppo (F oppo)) (um_at [] (um_at [] (chn_oppo_handlers c) oppo) ch)"
  using assms unfolding chain_rep_def by blast+

text \<open>Changing one channel of the chain.\<close>

lemma chain_rep_update:
  assumes r: "chain_rep c S" and S': "\<And>ch'. ch' \<noteq> ch \<Longrightarrow> S' ch' = S ch'" and sp: "spec_at S' ch = (ty, A, F)"
    and all: "inner_rep ty (A, \<lambda>_. []) (um_at [] (chn_handlers c') ch)" "\<And>ch'. ch' \<noteq> ch \<Longrightarrow> um_at [] (chn_handlers c') ch' = um_at [] (chn_handlers c) ch'"
    and oppos: "\<And>oppo. inner_rep ty ([], only oppo (F oppo)) (um_at [] (um_at [] (chn_oppo_handlers c') oppo) ch)"
    "\<And>oppo ch'. ch' \<noteq> ch \<Longrightarrow> um_at [] (um_at [] (chn_oppo_handlers c') oppo) ch' = um_at [] (um_at [] (chn_oppo_handlers c) oppo) ch'"
  shows "chain_rep c' S'"
  unfolding chain_rep_def
proof (intro allI impI conjI)
  fix x ty' A' F' oppo assume x: "spec_at S' x = (ty', A', F')"
  have old: "spec_at S x = (ty', A', F')" if "x \<noteq> ch" using x S' [OF that] by (simp add: spec_at_def)
  show "inner_rep ty' (A', \<lambda>_. []) (um_at [] (chn_handlers c') x)"
    using chain_repD(1) [OF r old] all sp x by (cases "x = ch") auto
  show "inner_rep ty' ([], only oppo (F' oppo)) (um_at [] (um_at [] (chn_oppo_handlers c') oppo) x)"
    using chain_repD(2) [OF r old, of oppo] oppos sp x by (cases "x = ch") auto
qed

lemma ID_connect_rep:
  assumes r: "dispatch_rep b S" and ty: "S ch = None \<or> S ch = Some (ty, A, F)" and new: "S ch = None \<Longrightarrow> created \<and> (A, F) = no_readers"
    and o: "created \<Longrightarrow> lh_orderly op (A, F)"
  shows "dispatch_rep (ID_connect ty ch created (lh_exec op) b) (S(ch := Some (ty, if created then lh_spec op (A, F) else (A, F))))"
proof (cases "AHM_Get (dp_msg_listeners b) ch")
  case None
  then have "created" "(A, F) = no_readers" using new dispatch_repD(5) [OF r None] by simp_all
  moreover have "handler_rep (lh_exec op (ListenerHandler ty)) (lh_spec op (A, F))"
    using lh_exec_rep [of "ListenerHandler ty" A F op] handler_rep_new [of ty] o calculation by simp
  moreover have "lh_type (lh_exec op (ListenerHandler ty)) = ty" by (simp add: ListenerHandler_def)
  ultimately show ?thesis
    using dispatch_rep_insert [OF r None, of "lh_exec op (ListenerHandler ty)" ty "lh_spec op (A, F)"] None
    by (simp add: ID_connect_def Let_def)
next
  case (Some h)
  have S: "S ch = Some (ty, A, F)" "lh_type (dp_handlers b h) = ty" "handler_rep (dp_handlers b h) (A, F)"
    using dispatch_repD(6) [OF r Some] ty by auto
  show ?thesis
  proof (cases created)
    case True
    then show ?thesis
      using dispatch_rep_change [OF r Some lh_type_exec lh_exec_rep [OF S(3) o [OF True]]] Some S by (simp add: ID_connect_def)
  next
    case False
    then show ?thesis using r Some S by (simp add: ID_connect_def fun_upd_idem)
  qed
qed

type_synonym 'cb reader_add = "string \<times> role_attributes \<times> role_attributes option \<times> 'cb"

fun id_add :: "'cb reader_add \<Rightarrow> 'cb intra_dispatcher \<Rightarrow> 'cb intra_dispatcher" where
  "id_add (ty, self, None, cb) d = ID_AddListener ty self cb d"
| "id_add (ty, self, Some oppo, cb) d = ID_AddListener_from ty self oppo cb d"

fun add_op :: "'cb reader_add \<Rightarrow> 'cb dp_op" where
  "add_op (ty, self, oppo, cb) = Dp_Add ty self oppo cb"

text \<open>No reader is added twice and the readers of a channel have one type.\<close>

fun adds_ok :: "'cb reader_add list \<Rightarrow> 'cb dispatch_spec \<Rightarrow> bool" where
  "adds_ok [] S = True"
| "adds_ok (a # adds) S \<longleftrightarrow>
     channel_type S (dp_channel (add_op a)) \<in> {None, Some (fst a)} \<and> dp_orderly (add_op a) S \<and> adds_ok adds (dp_spec (add_op a) S)"

lemma intra_rep_new: "intra_rep IntraDispatcher (\<lambda>_. None)"
  using dispatch_rep_new [where ?'a = listener_wrapper]
  by (simp add: intra_rep_def IntraDispatcher_def base_spec_def [abs_def] chain_rep_def spec_at_def no_readers_def inner_rep_def um_at_def)

lemma dp_spec_add:
  assumes "channel_type S (dp_channel (Dp_Add ty self oppo cb)) \<in> {None, Some ty}"
  shows "dp_spec (Dp_Add ty self oppo cb) S =
    S(channel_id self := Some (ty, lh_spec (dp_lh_op (Dp_Add ty self oppo cb)) (snd (spec_at S (channel_id self)))))"
  using assms by (auto simp: dp_spec_def spec_at_def channel_type_def split: option.split)

lemma add_facts:
  assumes r: "intra_rep d S" and ty: "channel_type S ch \<in> {None, Some ty}" and AF: "snd (spec_at S ch) = (A, F)"
  shows "dispatch_rep (id_base d) (base_spec S)" "chain_rep (id_chain d) S" "\<not> dp_is_shutdown (id_base d)"
    "inner_rep ty (A, \<lambda>_. []) (um_at [] (chn_handlers (id_chain d)) ch)"
    "inner_rep ty ([], only x (F x)) (um_at [] (um_at [] (chn_oppo_handlers (id_chain d)) x) ch)"
    "base_spec S ch = None \<or> base_spec S ch = Some (ty, lead ch ty A, \<lambda>x. lead_from ch ty x (F x))"
    "base_spec S ch = None \<Longrightarrow> (A, F) = no_readers"
proof -
  show b: "dispatch_rep (id_base d) (base_spec S)" and c: "chain_rep (id_chain d) S" using r by (simp_all add: intra_rep_def)
  show "\<not> dp_is_shutdown (id_base d)" by (rule dispatch_repD(1) [OF b])
  have S: "S ch = None \<and> (A, F) = no_readers \<or> S ch = Some (ty, A, F)"
    using ty AF by (auto simp: spec_at_def channel_type_def split: option.splits)
  show "inner_rep ty (A, \<lambda>_. []) (um_at [] (chn_handlers (id_chain d)) ch)"
    "inner_rep ty ([], only x (F x)) (um_at [] (um_at [] (chn_oppo_handlers (id_chain d)) x) ch)"
    using S chain_repD [OF c, of ch] by (auto simp: spec_at_def no_readers_def inner_rep_def)
  show "base_spec S ch = None \<or> base_spec S ch = Some (ty, lead ch ty A, \<lambda>x. lead_from ch ty x (F x))"
    "base_spec S ch = None \<Longrightarrow> (A, F) = no_readers" using S by (auto simp: base_spec_def)
qed

lemma base_connect_rep:
  assumes r: "intra_rep d S" and ty: "channel_type S ch \<in> {None, Some ty}" and AF: "snd (spec_at S ch) = (A, F)"
    and op: "created \<Longrightarrow> lh_orderly op (lead ch ty A, \<lambda>x. lead_from ch ty x (F x))" and new: "(A, F) = no_readers \<Longrightarrow> created"
    and S': "base_spec S' = (base_spec S)(ch := Some (ty, if created then lh_spec op (lead ch ty A, \<lambda>x. lead_from ch ty x (F x))
        else (lead ch ty A, \<lambda>x. lead_from ch ty x (F x))))"
  shows "dispatch_rep (ID_connect ty ch created (lh_exec op) (id_base d)) (base_spec S')"
  unfolding S'
proof (rule ID_connect_rep)
  note f = add_facts [OF r ty AF]
  show "dispatch_rep (id_base d) (base_spec S)" by (rule f(1))
  show "base_spec S ch = None \<or> base_spec S ch = Some (ty, lead ch ty A, \<lambda>x. lead_from ch ty x (F x))" by (rule f(6))
  show "created \<and> (lead ch ty A, \<lambda>x. lead_from ch ty x (F x)) = no_readers" if "base_spec S ch = None"
    using f(7) [OF that] new by (simp add: no_readers_def lead_def lead_from_def)
qed (rule op)

lemma ID_AddListener_rep:
  assumes r: "intra_rep d S" and ty: "channel_type S ch \<in> {None, Some ty}" and AF: "snd (spec_at S ch) = (A, F)"
    and self: "ch = channel_id self" "i = role_id self" and o: "i \<notin> fst ` set A"
  shows "intra_rep (ID_AddListener ty self cb d) (S(ch := Some (ty, A @ [(i, cb)], F)))"
proof -
  note f = add_facts [OF r ty AF]
  obtain created hs where cc: "chain_connect ty ch (LH_Connect i cb) (chn_handlers (id_chain d)) = (created, hs)" by fastforce
  have R: "created \<longleftrightarrow> A = []" "inner_rep ty (A @ [(i, cb)], \<lambda>_. []) (um_at [] hs ch)"
    "\<And>x. x \<noteq> ch \<Longrightarrow> um_at [] hs x = um_at [] (chn_handlers (id_chain d)) x"
    using chain_connect_rep [OF f(4), of "Op_Connect i cb" created hs] o cc by (auto simp: lh_exec_fun)
  have "dispatch_rep (ID_connect ty ch created (lh_exec (Op_Connect i (Wrapper i ch ty))) (id_base d)) (base_spec (S(ch := Some (ty, A @ [(i, cb)], F))))"
    by (rule base_connect_rep [OF r ty AF])
      (use R(1) in \<open>auto simp: base_spec_def fun_eq_iff lead_def no_readers_def split: list.split\<close>)
  moreover have "chain_rep ((id_chain d)\<lparr>chn_handlers := hs\<rparr>) (S(ch := Some (ty, A @ [(i, cb)], F)))"
    by (rule chain_rep_update [OF f(2), where ch = ch and ty = ty and A = "A @ [(i, cb)]" and F = F])
      (use R f(5) in \<open>simp_all add: spec_at_def\<close>)
  moreover have "ID_AddListener ty self cb d = d\<lparr>id_base := ID_connect ty ch created (LH_Connect i (Wrapper i ch ty)) (id_base d),
      id_chain := (id_chain d)\<lparr>chn_handlers := hs\<rparr>\<rparr>"
    using f(3) by (simp add: ID_AddListener_def CC_AddListener_def self [symmetric] cc Let_def)
  ultimately show ?thesis by (simp add: intra_rep_def lh_exec_fun)
qed

lemma ID_AddListener_from_rep:
  assumes r: "intra_rep d S" and ty: "channel_type S ch \<in> {None, Some ty}" and AF: "snd (spec_at S ch) = (A, F)"
    and self: "ch = channel_id self" "i = role_id self" "q = role_id op" and o: "i \<notin> fst ` set (F q)"
  shows "intra_rep (ID_AddListener_from ty self op cb d) (S(ch := Some (ty, A, F(q := F q @ [(i, cb)]))))"
proof -
  note f = add_facts [OF r ty AF]
  define oh where "oh = (if um_find (chn_oppo_handlers (id_chain d)) q = None then um_put q [] (chn_oppo_handlers (id_chain d)) else chn_oppo_handlers (id_chain d))"
  have oh: "um_at [] oh x = um_at [] (chn_oppo_handlers (id_chain d)) x" for x by (auto simp: oh_def um_simps um_at_None)
  obtain created hs where cc: "chain_connect ty ch (LH_Connect_from i q cb) (um_at [] oh q) = (created, hs)" by fastforce
  have R: "created \<longleftrightarrow> F q = []" "inner_rep ty ([], only q (F q @ [(i, cb)])) (um_at [] hs ch)"
    "\<And>x. x \<noteq> ch \<Longrightarrow> um_at [] hs x = um_at [] (um_at [] (chn_oppo_handlers (id_chain d)) q) x"
    using chain_connect_rep [OF f(5) [of q], of "Op_Connect_from i q cb" created hs] o cc oh by (auto simp: lh_exec_fun)
  have "dispatch_rep (ID_connect ty ch created (lh_exec (Op_Connect_from i q (Wrapper_from i q ch ty))) (id_base d))
      (base_spec (S(ch := Some (ty, A, F(q := F q @ [(i, cb)])))))"
    by (rule base_connect_rep [OF r ty AF])
      (use R(1) in \<open>auto simp: base_spec_def fun_eq_iff lead_from_def no_readers_def split: list.split\<close>)
  moreover have "chain_rep ((id_chain d)\<lparr>chn_oppo_handlers := um_put q hs oh\<rparr>) (S(ch := Some (ty, A, F(q := F q @ [(i, cb)]))))"
    by (rule chain_rep_update [OF f(2), where ch = ch and ty = ty and A = A and F = "F(q := F q @ [(i, cb)])"])
      (use R f(4,5) oh in \<open>auto simp: spec_at_def um_at_put\<close>)
  moreover have "ID_AddListener_from ty self op cb d = d\<lparr>id_base := ID_connect ty ch created (LH_Connect_from i q (Wrapper_from i q ch ty)) (id_base d),
      id_chain := (id_chain d)\<lparr>chn_oppo_handlers := um_put q hs oh\<rparr>\<rparr>"
    using f(3) by (simp add: ID_AddListener_from_def CC_AddListener_from_def self [symmetric] oh_def [symmetric] cc Let_def)
  ultimately show ?thesis by (simp add: intra_rep_def lh_exec_fun)
qed

lemma id_add_rep:
  assumes r: "intra_rep d S" and ty: "channel_type S (dp_channel (add_op a)) \<in> {None, Some (fst a)}" and o: "dp_orderly (add_op a) S"
  shows "intra_rep (id_add a d) (dp_spec (add_op a) S)"
proof -
  obtain ty self oppo cb where a: "a = (ty, self, oppo, cb)" by (cases a)
  obtain A F where AF: "snd (spec_at S (channel_id self)) = (A, F)" by (metis prod.collapse)
  have ty': "channel_type S (channel_id self) \<in> {None, Some ty}" using ty by (simp add: a)
  have ord: "lh_orderly (dp_lh_op (add_op a)) (A, F)"
  proof (cases "S (channel_id self)")
    case None
    then have "A = []" "F = (\<lambda>_. [])" using AF by (simp_all add: spec_at_def no_readers_def)
    then show ?thesis by (cases oppo) (simp_all add: a)
  next
    case (Some x)
    then show ?thesis using o AF by (simp add: dp_orderly_def a spec_at_def split_beta)
  qed
  have spec: "dp_spec (add_op a) S = S(channel_id self := Some (ty, lh_spec (dp_lh_op (add_op a)) (A, F)))"
    using dp_spec_add [of S ty self oppo cb] ty AF by (simp add: a)
  show ?thesis
    using ID_AddListener_rep [OF r ty' AF refl refl] ID_AddListener_from_rep [OF r ty' AF refl refl refl] ord
    unfolding spec by (cases oppo) (simp_all add: a)
qed

lemma id_adds_rep: "intra_rep d S \<Longrightarrow> adds_ok adds S \<Longrightarrow> intra_rep (fold id_add adds d) (fold dp_spec (map add_op adds) S)"
  by (induction adds arbitrary: d S) (auto intro: id_add_rep)

lemma CC_Run_rep:
  assumes c: "chain_rep c S" and S: "S ch = Some (ty, A, F)" and eq: "CC_Run ser parse ch ty msg info (c, log) = (c', log')"
  shows "chain_rep c' S \<and> log' = log @ map (\<lambda>x. (snd x, msg, info)) A"
proof -
  obtain hs log1 where run: "chain_run ser parse ch ty msg info (chn_handlers c, log) = (hs, log1)" by fastforce
  have sp: "spec_at S ch = (ty, A, F)" using S by (simp add: spec_at_def)
  have c': "c' = c\<lparr>chn_handlers := hs\<rparr>" "log' = log1" using eq run by (auto simp: CC_Run_def)
  note R = chain_run_rep [OF chain_repD(1) [OF c sp] run]
  have "chain_rep c' S"
    by (rule chain_rep_update [OF c refl sp]) (use R chain_repD(2) [OF c sp] in \<open>simp_all add: c'\<close>)
  then show ?thesis using R c' by simp
qed

lemma CC_Run_from_rep:
  assumes c: "chain_rep c S" and S: "S ch = Some (ty, A, F)" and q: "q = id_hash (sender_id info)"
    and eq: "CC_Run_from ser parse q ch ty msg info (c, log) = (c', log')"
  shows "chain_rep c' S \<and> log' = log @ map (\<lambda>x. (snd x, msg, info)) (F q)"
proof -
  have sp: "spec_at S ch = (ty, A, F)" using S by (simp add: spec_at_def)
  note I = chain_repD(2) [OF c sp, of q]
  show ?thesis
  proof (cases "um_find (chn_oppo_handlers c) q")
    case None
    then have "F q = []" using I by (auto simp: um_at_def inner_rep_def split: if_splits)
    then show ?thesis using eq c None by (simp add: CC_Run_from_def)
  next
    case (Some handlers)
    obtain hs log1 where run: "chain_run ser parse ch ty msg info (handlers, log) = (hs, log1)" by fastforce
    have c': "c' = c\<lparr>chn_oppo_handlers := um_put q hs (chn_oppo_handlers c)\<rparr>" "log' = log1" using eq run Some by (auto simp: CC_Run_from_def)
    have at: "um_at [] (chn_oppo_handlers c) q = handlers" using Some by (simp add: um_at_def)
    note R = chain_run_rep [OF I [unfolded at] run]
    have "chain_rep c' S"
      by (rule chain_rep_update [OF c refl sp]) (use R chain_repD [OF c sp] at in \<open>auto simp: c' um_at_put\<close>)
    then show ?thesis using R c' q by simp
  qed
qed

lemma ID_OnMessage_rep:
  assumes r: "intra_rep d S" and ty: "channel_type S ch \<in> {None, Some ty}"
  shows "\<exists>d'. ID_OnMessage ser parse ty ch msg info (d, log) =
      (d', log @ map (\<lambda>cb. (cb, msg, info)) (readers_of S ch (id_hash (sender_id info)))) \<and> intra_rep d' S"
proof -
  let ?q = "id_hash (sender_id info)"
  have b: "dispatch_rep (id_base d) (base_spec S)" and c: "chain_rep (id_chain d) S" using r by (simp_all add: intra_rep_def)
  note sh = dispatch_repD(1) [OF b]
  show ?thesis
  proof (cases "AHM_Get (dp_msg_listeners (id_base d)) ch")
    case None
    then have "S ch = None" using dispatch_repD(5) [OF b None] by (simp add: base_spec_def)
    then show ?thesis using None sh r by (simp add: ID_OnMessage_def readers_of_def)
  next
    case (Some h)
    obtain A F where S: "S ch = Some (ty, A, F)" and h: "lh_type (dp_handlers (id_base d) h) = ty"
      "handler_rep (dp_handlers (id_base d) h) (lead ch ty A, \<lambda>x. lead_from ch ty x (F x))"
      using dispatch_repD(6) [OF b Some] ty by (auto simp: base_spec_def channel_type_def)
    obtain h1 calls where run: "LH_Run msg info (dp_handlers (id_base d) h, []) = (h1, calls)" by fastforce
    note R = LH_Run_rep [OF h(2) run]
    obtain c1 log1 where c1: "fold (call_wrapper ser parse) (map (\<lambda>x. (snd x, msg, info)) (lead ch ty A)) (id_chain d, log) = (c1, log1)" by fastforce
    have A: "chain_rep c1 S \<and> log1 = log @ map (\<lambda>x. (snd x, msg, info)) A"
      using c1 CC_Run_rep [OF c S, of ser parse msg info log c1 log1] c by (cases A) (auto simp: lead_def)
    obtain c2 log2 where c2: "fold (call_wrapper ser parse) (map (\<lambda>x. (snd x, msg, info)) (lead_from ch ty ?q (F ?q))) (c1, log1) = (c2, log2)" by fastforce
    have F: "chain_rep c2 S \<and> log2 = log1 @ map (\<lambda>x. (snd x, msg, info)) (F ?q)"
      using c2 CC_Run_from_rep [OF conjunct1 [OF A] S refl, where info = info and ser = ser and parse = parse and msg = msg and log = log1 and c' = c2 and log' = log2] A by (cases "F ?q") (auto simp: lead_from_def)
    have "ID_OnMessage ser parse ty ch msg info (d, log) =
        (d\<lparr>id_base := (id_base d)\<lparr>dp_handlers := (dp_handlers (id_base d))(h := h1)\<rparr>, id_chain := c2\<rparr>, log2)"
      using Some sh h(1) run R c1 c2 by (simp add: ID_OnMessage_def)
    moreover have "dispatch_rep ((id_base d)\<lparr>dp_handlers := (dp_handlers (id_base d))(h := h1)\<rparr>) (base_spec S)"
      using dispatch_rep_change [OF b Some, of h1 "(lead ch ty A, \<lambda>x. lead_from ch ty x (F x))"] R S h(1)
      by (simp add: base_spec_def fun_upd_idem)
    ultimately show ?thesis using A F S by (simp add: intra_rep_def readers_of_def o_def)
  qed
qed

lemma RemoveListener_base: "dispatch_rep b S \<Longrightarrow> dispatch_rep (RemoveListener self b) (dp_spec (Dp_Remove self None) S)"
  using dp_exec_rep [of b S "Dp_Remove self None"] by (simp add: dp_orderly_def split: option.split prod.split)

section \<open>Properties\<close>

text \<open>
  C18: inside a process the same readers are called. After any sequence of \<open>AddListener\<close> on the intra-process
  dispatcher, no reader twice and all readers of a channel with one message type, a message of that type calls
  exactly the listeners the plain dispatcher would call, once each and in the same order, although here they
  are reached through wrappers and chains; and it leaves the dispatcher able to do so again.
\<close>

theorem intra_dispatch_refines:
  assumes "adds_ok adds (\<lambda>_. None)" and "S = fold dp_spec (map add_op adds) (\<lambda>_. None)" and "channel_type S ch \<in> {None, Some ty}"
    and "channel_type S ch' \<in> {None, Some ty'}" and "ID_OnMessage ser parse ty ch msg info (fold id_add adds IntraDispatcher, []) = (d, log)"
  shows "log = map (\<lambda>cb. (cb, msg, info)) (readers_of S ch (id_hash (sender_id info)))
    \<and> snd (ID_OnMessage ser parse ty' ch' msg' info' (d, [])) = map (\<lambda>cb. (cb, msg', info')) (readers_of S ch' (id_hash (sender_id info')))"
proof -
  have r: "intra_rep (fold id_add adds IntraDispatcher) S"
    unfolding assms(2) by (rule id_adds_rep [OF intra_rep_new assms(1)])
  have 1: "intra_rep d S" "log = map (\<lambda>cb. (cb, msg, info)) (readers_of S ch (id_hash (sender_id info)))"
    using ID_OnMessage_rep [OF r assms(3), of ser parse msg info "[]"] assms(5) by auto
  from ID_OnMessage_rep [OF 1(1) assms(4), of ser parse msg' info' "[]"] 1(2) show ?thesis by auto
qed

definition demo_readers :: "nat reader_add list" where
  "demo_readers = [(''t'', reader_attr 9 1, None, 11), (''t'', reader_attr 9 2, Some (reader_attr 0 77), 22), (''t'', reader_attr 9 3, None, 33)]"

lemma demo_readers_spec:
  "adds_ok demo_readers (\<lambda>_. None)" "channel_type (fold dp_spec (map add_op demo_readers) (\<lambda>_. None)) 9 = Some ''t''"
  "readers_of (fold dp_spec (map add_op demo_readers) (\<lambda>_. None)) 9 77 = [11, 33, 22]"
  "fold dp_spec (map add_op demo_readers) (\<lambda>_. None) 9 = Some (''t'', [(1, 11), (3, 33)], (\<lambda>_. [])(77 := [(2, 22)]))"
  by (simp_all add: demo_readers_def dp_orderly_def dp_spec_def reader_attr_def no_readers_def channel_type_def readers_of_def fun_eq_iff)

lemma demo_info_sender: "id_hash (sender_id demo_info) = 77"
  by (simp add: demo_info_def MessageInfo_seq_def Identity_def id_Update_def Let_def)

theorem intra_dispatch_refines_witness:
  "snd (ID_OnMessage (\<lambda>_. None) (\<lambda>_ _. None) ''t'' 9 ''m'' demo_info (fold id_add demo_readers IntraDispatcher, []))
     = [(11, ''m'', demo_info), (33, ''m'', demo_info), (22, ''m'', demo_info)]"
proof -
  obtain d log where m: "ID_OnMessage (\<lambda>_. None) (\<lambda>_ _. None) ''t'' 9 ''m'' demo_info (fold id_add demo_readers IntraDispatcher, []) = (d, log)" by fastforce
  from intra_dispatch_refines [OF demo_readers_spec(1) refl _ _ m, of 9 "''t''" "''m''" demo_info] m
  show ?thesis by (simp add: demo_readers_spec demo_info_sender)
qed



end
