(* ===== verification/Hybrid_Endpoints.thy ===== *)
theory Hybrid_Endpoints
  imports Rtps_Transport Shm_Transport Intra_Dispatch
begin

text \<open>
  \<open>transport/transmitter/hybrid_transmitter.h\<close>, \<open>transport/receiver\<close> and \<open>transport/message/history.h\<close>: a
  writer and a reader that choose between memory of the process, shared memory and RTPS for each partner, and
  the messages a writer keeps for readers that come late.

  A virtual call on one of the three transmitters is a case distinction over \<open>any_transmitter\<close>; the state it
  works on is \<open>tx_world\<close>. What the sources obtain from the environment, from the message type and from
  libraries is collected in \<open>tx_env\<close>. A listener registered with a dispatcher stands for the \<open>OnNewMessage\<close>
  of the receiver it is bound to. A task given to \<open>cyber::Async\<close> is part of the result of the call that
  starts it. \<^const>\<open>None\<close> is a null dereference.
\<close>

section \<open>Modes and relations\<close>

fun mode_number :: "optional_mode \<Rightarrow> nat" where
  "mode_number HYBRID = 0"
| "mode_number INTRA = 1"
| "mode_number SHM = 2"
| "mode_number RTPS = 3"

instantiation optional_mode :: linorder
begin

definition less_eq_optional_mode :: "optional_mode \<Rightarrow> optional_mode \<Rightarrow> bool" where
  "less_eq_optional_mode a b \<longleftrightarrow> mode_number a \<le> mode_number b"

definition less_optional_mode :: "optional_mode \<Rightarrow> optional_mode \<Rightarrow> bool" where
  "less_optional_mode a b \<longleftrightarrow> mode_number a < mode_number b"

instance
proof
  fix a b :: optional_mode
  show "a \<le> b \<Longrightarrow> b \<le> a \<Longrightarrow> a = b" by (cases a; cases b) (simp_all add: less_eq_optional_mode_def)
qed (auto simp: less_eq_optional_mode_def less_optional_mode_def)

end

datatype relation = NO_RELATION | DIFF_HOST | DIFF_PROC | SAME_PROC

definition GetRelation :: "role_attributes \<Rightarrow> role_attributes \<Rightarrow> relation" where
  "GetRelation attr opposite_attr =
     (if channel_name opposite_attr \<noteq> channel_name attr then NO_RELATION
      else if host_ip opposite_attr \<noteq> host_ip attr then DIFF_HOST
      else if process_id opposite_attr \<noteq> process_id attr then DIFF_PROC
      else SAME_PROC)"

definition default_mode :: communication_mode where
  "default_mode = \<lparr>same_proc_opt = None, diff_proc_opt = None, diff_host_opt = None\<rparr>"

text \<open>\<open>InitMode\<close> and \<open>ObtainConfig\<close>; the mapping table is a function of the mode they leave.\<close>

definition ObtainConfig :: "transport_conf option \<Rightarrow> communication_mode" where
  "ObtainConfig conf =
     (case conf of None \<Rightarrow> default_mode
      | Some tc \<Rightarrow> (case communication_mode_opt tc of None \<Rightarrow> default_mode | Some m \<Rightarrow> m))"

fun mapping_table :: "communication_mode \<Rightarrow> relation \<Rightarrow> optional_mode" where
  "mapping_table m SAME_PROC = pb_get INTRA (same_proc_opt m)"
| "mapping_table m DIFF_PROC = pb_get SHM (diff_proc_opt m)"
| "mapping_table m DIFF_HOST = pb_get RTPS (diff_host_opt m)"
| "mapping_table m NO_RELATION = HYBRID"

text \<open>The \<open>std::set\<close> of modes in use, in the order in which it is iterated.\<close>

definition modes_of :: "communication_mode \<Rightarrow> optional_mode list" where
  "modes_of m = sort (remdups [mapping_table m SAME_PROC, mapping_table m DIFF_PROC, mapping_table m DIFF_HOST])"

section \<open>History\<close>

record 'm history =
  hs_enabled :: bool
  hs_depth :: u32
  hs_max_depth :: u32
  hs_msgs :: "('m \<times> message_info) list"

definition History :: "transport_conf option \<Rightarrow> qos_history \<Rightarrow> u32 \<Rightarrow> 'm history" where
  "History conf policy depth =
     (let max_depth = (case Option.bind conf resource_limit_opt of None \<Rightarrow> 1000 | Some limit \<Rightarrow> pb_get 1000 limit)
      in \<lparr>hs_enabled = False,
          hs_depth = (if policy = HISTORY_KEEP_ALL then max_depth else if depth > max_depth then max_depth else depth),
          hs_max_depth = max_depth, hs_msgs = []\<rparr>)"

function pop_front_while :: "nat \<Rightarrow> 'a list \<Rightarrow> 'a list" where
  "pop_front_while depth msgs = (if length msgs > depth then pop_front_while depth (tl msgs) else msgs)"
  by pat_completeness auto
termination by (relation "measure (\<lambda>(_, msgs). length msgs)") auto

declare pop_front_while.simps [simp del]

definition History_Add :: "'m \<Rightarrow> message_info \<Rightarrow> 'm history \<Rightarrow> 'm history" where
  "History_Add msg info h =
     (if \<not> hs_enabled h then h else h\<lparr>hs_msgs := pop_front_while (unat (hs_depth h)) (hs_msgs h @ [(msg, info)])\<rparr>)"

definition History_Clear :: "'m history \<Rightarrow> 'm history" where
  "History_Clear h = h\<lparr>hs_msgs := []\<rparr>"

definition GetCachedMessage :: "'m history \<Rightarrow> ('m \<times> message_info) list option \<Rightarrow> ('m \<times> message_info) list option" where
  "GetCachedMessage h msgs = map_option (\<lambda>v. hs_msgs h @ v) msgs"

definition History_GetSize :: "'m history \<Rightarrow> nat" where
  "History_GetSize h = length (hs_msgs h)"

definition InitHistory :: "transport_conf option \<Rightarrow> role_attributes \<Rightarrow> 'm history" where
  "InitHistory conf attr =
     (let h = History conf (qos_history_of (attr_qos attr)) (qos_depth (attr_qos attr))
      in if qos_durability_of (attr_qos attr) = DURABILITY_TRANSIENT_LOCAL then h\<lparr>hs_enabled := True\<rparr> else h)"

section \<open>The three transmitters behind one interface\<close>

datatype any_transmitter = Intra_Tx intra_transmitter | Shm_Tx shm_transmitter | Rtps_Tx rtps_transmitter

record ('m, 'n) tx_env =
  te_H :: "byte list \<Rightarrow> u64"
  te_hash :: "string \<Rightarrow> u64"
  te_host :: string
  te_pid :: int
  te_conf :: "transport_conf option"
  te_getenv :: "string \<Rightarrow> string option"
  te_os :: os_faults
  te_lib :: "'n fastrtps"
  te_guid :: "byte list"
  te_type :: string
  te_traits :: "'m message_traits"
  te_SerializeToString :: "'m \<Rightarrow> byte list option"
  te_SerializeToHC :: "'m \<Rightarrow> byte list option"
  te_ParseFromHC :: "string \<Rightarrow> byte list \<Rightarrow> 'm option"

record ('cb, 'm, 'n) tx_world =
  tw_intra :: "'cb intra_dispatcher"
  tw_log :: "('cb, 'm) call_log"
  tw_shm :: shm_world
  tw_rtps :: "'n rtps_world"

fun tx_enabled :: "any_transmitter \<Rightarrow> bool" where
  "tx_enabled (Intra_Tx t) = enabled t"
| "tx_enabled (Shm_Tx t) = enabled t"
| "tx_enabled (Rtps_Tx t) = enabled t"

fun AT_Enable :: "('m, 'n) tx_env \<Rightarrow> any_transmitter \<times> ('cb, 'm, 'n) tx_world \<Rightarrow> any_transmitter \<times> ('cb, 'm, 'n) tx_world" where
  "AT_Enable e (Intra_Tx t, w) = (Intra_Tx (IT_Enable t), w)"
| "AT_Enable e (Shm_Tx t, w) = (let (t1, s) = ST_Enable (t, tw_shm w) in (Shm_Tx t1, w\<lparr>tw_shm := s\<rparr>))"
| "AT_Enable e (Rtps_Tx t, w) =
     (let (t1, r) = RT_Enable (te_lib e) (te_getenv e) (te_conf e) (t, tw_rtps w) in (Rtps_Tx t1, w\<lparr>tw_rtps := r\<rparr>))"

fun AT_Disable :: "('m, 'n) tx_env \<Rightarrow> any_transmitter \<times> ('cb, 'm, 'n) tx_world \<Rightarrow> (any_transmitter \<times> ('cb, 'm, 'n) tx_world) option" where
  "AT_Disable e (Intra_Tx t, w) = Some (Intra_Tx (IT_Disable t), w)"
| "AT_Disable e (Shm_Tx t, w) = map_option (\<lambda>(t1, s). (Shm_Tx t1, w\<lparr>tw_shm := s\<rparr>)) (ST_Disable (te_os e) (t, tw_shm w))"
| "AT_Disable e (Rtps_Tx t, w) = Some (Rtps_Tx (RT_Disable t), w)"

fun AT_Transmit ::
  "('m, 'n) tx_env \<Rightarrow> 'm \<Rightarrow> message_info \<Rightarrow> any_transmitter \<times> ('cb, 'm, 'n) tx_world \<Rightarrow> (bool \<times> any_transmitter \<times> ('cb, 'm, 'n) tx_world) option" where
  "AT_Transmit e msg info (Intra_Tx t, w) =
     (let (r, d, log) = IT_Transmit (te_SerializeToHC e) (te_ParseFromHC e) (te_type e) t msg info (tw_intra w, tw_log w)
      in Some (r, Intra_Tx t, w\<lparr>tw_intra := d, tw_log := log\<rparr>))"
| "AT_Transmit e msg info (Shm_Tx t, w) =
     map_option (\<lambda>(r, t1, s). (r, Shm_Tx t1, w\<lparr>tw_shm := s\<rparr>)) (ST_Transmit (te_traits e) (te_os e) msg info (t, tw_shm w))"
| "AT_Transmit e msg info (Rtps_Tx t, w) =
     map_option (\<lambda>(r, n). (r, Rtps_Tx t, w\<lparr>tw_rtps := n\<rparr>)) (RT_Transmit (te_lib e) (te_guid e) (te_SerializeToString e) t msg info (tw_rtps w))"

text \<open>A loop over \<open>transmitters_\<close> or \<open>receivers_\<close> that calls one method of each.\<close>

fun each :: "('a \<times> 'w \<Rightarrow> ('a \<times> 'w) option) \<Rightarrow> ('k \<times> 'a) list \<Rightarrow> 'w \<Rightarrow> (('k \<times> 'a) list \<times> 'w) option" where
  "each f [] w = Some ([], w)"
| "each f ((k, a) # xs) w = do {
     (a1, w1) \<leftarrow> f (a, w);
     (ys, w2) \<leftarrow> each f xs w1;
     Some ((k, a1) # ys, w2)
   }"

section \<open>The hybrid transmitter\<close>

record 'm hybrid_transmitter = transmitter +
  ht_history :: "'m history"
  ht_transmitters :: "(optional_mode, any_transmitter) umap"
  ht_receivers :: "(optional_mode, u64 set) umap"
  ht_mode :: communication_mode
  ht_participant :: "nat option"

fun make_transmitter :: "('m, 'n) tx_env \<Rightarrow> byte list \<Rightarrow> role_attributes \<Rightarrow> nat option \<Rightarrow> optional_mode \<Rightarrow> any_transmitter" where
  "make_transmitter e uuid attr part INTRA = Intra_Tx (IntraTransmitter (te_H e) uuid (te_host e) (te_pid e) attr)"
| "make_transmitter e uuid attr part SHM = Shm_Tx (ShmTransmitter (te_H e) (te_hash e) uuid (te_host e) (te_pid e) attr)"
| "make_transmitter e uuid attr part _ = Rtps_Tx (RtpsTransmitter (te_H e) uuid (te_host e) (te_pid e) attr part)"

definition InitTransmitters ::
  "('m, 'n) tx_env \<Rightarrow> (optional_mode \<Rightarrow> byte list) \<Rightarrow> role_attributes \<Rightarrow> nat option \<Rightarrow> communication_mode \<Rightarrow> (optional_mode, any_transmitter) umap" where
  "InitTransmitters e uuids attr part m = fold (\<lambda>mode. um_put mode (make_transmitter e (uuids mode) attr part mode)) (modes_of m) []"

definition InitReceivers :: "(optional_mode, 'a) umap \<Rightarrow> (optional_mode, u64 set) umap" where
  "InitReceivers transmitters = fold (\<lambda>item. um_put (fst item) {}) transmitters []"

text \<open>\<open>uuid\<close> is the identity of the hybrid transmitter, \<open>uuids\<close> are those of the transmitters it creates.\<close>

definition HybridTransmitter ::
  "('m, 'n) tx_env \<Rightarrow> byte list \<Rightarrow> (optional_mode \<Rightarrow> byte list) \<Rightarrow> role_attributes \<Rightarrow> nat option \<Rightarrow> 'm hybrid_transmitter" where
  "HybridTransmitter e uuid uuids attr part =
     (let t = Transmitter (te_H e) uuid (te_host e) (te_pid e) attr;
          m = ObtainConfig (te_conf e);
          txs = InitTransmitters e uuids (ep_attr t) part m
      in transmitter.extend t \<lparr>ht_history = InitHistory (te_conf e) (ep_attr t), ht_transmitters = txs,
           ht_receivers = InitReceivers txs, ht_mode = m, ht_participant = part\<rparr>)"

definition HT_Enable_all ::
  "('m, 'n) tx_env \<Rightarrow> 'm hybrid_transmitter \<times> ('cb, 'm, 'n) tx_world \<Rightarrow> ('m hybrid_transmitter \<times> ('cb, 'm, 'n) tx_world) option" where
  "HT_Enable_all e = (\<lambda>(t, w). map_option (\<lambda>(txs, w1). (t\<lparr>ht_transmitters := txs\<rparr>, w1)) (each (Some \<circ> AT_Enable e) (ht_transmitters t) w))"

definition HT_Disable_all ::
  "('m, 'n) tx_env \<Rightarrow> 'm hybrid_transmitter \<times> ('cb, 'm, 'n) tx_world \<Rightarrow> ('m hybrid_transmitter \<times> ('cb, 'm, 'n) tx_world) option" where
  "HT_Disable_all e = (\<lambda>(t, w). map_option (\<lambda>(txs, w1). (t\<lparr>ht_transmitters := txs\<rparr>, w1)) (each (AT_Disable e) (ht_transmitters t) w))"

definition TransmitHistoryMsg :: "'m hybrid_transmitter \<Rightarrow> role_attributes \<Rightarrow> (role_attributes \<times> ('m \<times> message_info) list) option" where
  "TransmitHistoryMsg t opposite_attr =
     (if qos_durability_of (attr_qos (ep_attr t)) \<noteq> DURABILITY_TRANSIENT_LOCAL then None
      else case GetCachedMessage (ht_history t) (Some []) of
        None \<Rightarrow> None
      | Some unsent_msgs \<Rightarrow> if unsent_msgs = [] then None else Some (opposite_attr, unsent_msgs))"

definition HT_Enable ::
  "('m, 'n) tx_env \<Rightarrow> role_attributes \<Rightarrow> 'm hybrid_transmitter \<times> ('cb, 'm, 'n) tx_world
     \<Rightarrow> ((role_attributes \<times> ('m \<times> message_info) list) option \<times> 'm hybrid_transmitter \<times> ('cb, 'm, 'n) tx_world) option" where
  "HT_Enable e opposite_attr = (\<lambda>(t, w).
     let r = GetRelation (ep_attr t) opposite_attr
     in if r = NO_RELATION then Some (None, t, w)
        else do {
          let m = mapping_table (ht_mode t) r;
          let t1 = t\<lparr>ht_receivers := um_put m (insert (role_id opposite_attr) (um_at {} (ht_receivers t) m)) (ht_receivers t)\<rparr>;
          tx \<leftarrow> um_find (ht_transmitters t1) m;
          let (tx1, w1) = AT_Enable e (tx, w);
          let t2 = t1\<lparr>ht_transmitters := um_put m tx1 (ht_transmitters t1)\<rparr>;
          Some (TransmitHistoryMsg t2 opposite_attr, t2, w1)
        })"

definition HT_Disable ::
  "('m, 'n) tx_env \<Rightarrow> role_attributes \<Rightarrow> 'm hybrid_transmitter \<times> ('cb, 'm, 'n) tx_world
     \<Rightarrow> ('m hybrid_transmitter \<times> ('cb, 'm, 'n) tx_world) option" where
  "HT_Disable e opposite_attr = (\<lambda>(t, w).
     let r = GetRelation (ep_attr t) opposite_attr
     in if r = NO_RELATION then Some (t, w)
        else
          let m = mapping_table (ht_mode t) r;
              rest = um_at {} (ht_receivers t) m - {role_id opposite_attr};
              t1 = t\<lparr>ht_receivers := um_put m rest (ht_receivers t)\<rparr>
          in if rest \<noteq> {} then Some (t1, w)
             else do {
               tx \<leftarrow> um_find (ht_transmitters t1) m;
               (tx1, w1) \<leftarrow> AT_Disable e (tx, w);
               Some (t1\<lparr>ht_transmitters := um_put m tx1 (ht_transmitters t1)\<rparr>, w1)
             })"

definition HT_Transmit ::
  "('m, 'n) tx_env \<Rightarrow> 'm \<Rightarrow> message_info \<Rightarrow> 'm hybrid_transmitter \<times> ('cb, 'm, 'n) tx_world
     \<Rightarrow> (bool \<times> 'm hybrid_transmitter \<times> ('cb, 'm, 'n) tx_world) option" where
  "HT_Transmit e msg info = (\<lambda>(t, w).
     let t1 = t\<lparr>ht_history := History_Add msg info (ht_history t)\<rparr>
     in map_option (\<lambda>(txs, w1). (True, t1\<lparr>ht_transmitters := txs\<rparr>, w1))
          (each (map_option snd \<circ> AT_Transmit e msg info) (ht_transmitters t1) w))"

text \<open>The channel on which a late reader gets the history of a writer.\<close>

definition history_channel :: "u64 \<Rightarrow> u64 \<Rightarrow> string" where
  "history_channel writer_id reader_id = nat_to_string (unat writer_id) @ nat_to_string (unat reader_id)"

definition HT_ThreadFunc ::
  "('m, 'n) tx_env \<Rightarrow> byte list \<Rightarrow> 'm hybrid_transmitter \<Rightarrow> role_attributes \<times> ('m \<times> message_info) list
     \<Rightarrow> global_data \<times> 'n rtps_world \<Rightarrow> (global_data \<times> 'n rtps_world) option" where
  "HT_ThreadFunc e uuid t = (\<lambda>(opposite_attr, msgs) (g, n). do {
     let new_channel_name = history_channel (role_id (ep_attr t)) (role_id opposite_attr);
     (ch, g1) \<leftarrow> RegisterChannel (te_hash e) g new_channel_name;
     let new_attr = (ep_attr t)\<lparr>channel_name_opt := Some new_channel_name, channel_id_opt := Some ch\<rparr>;
     let (tx, n1) = RT_Enable (te_lib e) (te_getenv e) (te_conf e)
           (RtpsTransmitter (te_H e) uuid (te_host e) (te_pid e) new_attr (ht_participant t), n);
     n2 \<leftarrow> fold (\<lambda>(msg, info) r. Option.bind r (\<lambda>n. map_option snd (RT_Transmit (te_lib e) (te_guid e) (te_SerializeToString e) tx msg info n)))
             msgs (Some n1);
     Some (g1, n2)
   })"


definition HT_destroy ::
  "('m, 'n) tx_env \<Rightarrow> 'm hybrid_transmitter \<times> ('cb, 'm, 'n) tx_world \<Rightarrow> ('m hybrid_transmitter \<times> ('cb, 'm, 'n) tx_world) option" where
  "HT_destroy e = (\<lambda>(t, w).
     map_option (\<lambda>(_, w1). (t\<lparr>ht_receivers := [], ht_transmitters := []\<rparr>, w1)) (each (AT_Disable e) (ht_transmitters t) w))"

section \<open>Receivers\<close>

record 'cb receiver = endpoint +
  rc_listener :: 'cb

definition Receiver :: "('m, 'n) tx_env \<Rightarrow> byte list \<Rightarrow> role_attributes \<Rightarrow> 'cb \<Rightarrow> 'cb receiver" where
  "Receiver e uuid attr listener = endpoint.extend (Endpoint (te_H e) uuid (te_host e) (te_pid e) attr) \<lparr>rc_listener = listener\<rparr>"

datatype 'cb any_receiver = Intra_Rx "'cb receiver" | Shm_Rx "'cb receiver" | Rtps_Rx "'cb receiver"

record ('cb, 'n) rx_world =
  xw_intra :: "'cb intra_dispatcher"
  xw_shm :: "'cb shm_dispatcher"
  xw_rtps :: "'cb rtps_dispatcher"
  xw_net :: "'n rtps_world"

fun AR_Enable :: "('m, 'n) tx_env \<Rightarrow> 'cb any_receiver \<times> ('cb, 'n) rx_world \<Rightarrow> 'cb any_receiver \<times> ('cb, 'n) rx_world" where
  "AR_Enable e (Intra_Rx r, w) =
     (if enabled r then (Intra_Rx r, w)
      else (Intra_Rx (r\<lparr>enabled := True\<rparr>), w\<lparr>xw_intra := ID_AddListener (te_type e) (ep_attr r) (rc_listener r) (xw_intra w)\<rparr>))"
| "AR_Enable e (Shm_Rx r, w) =
     (if enabled r then (Shm_Rx r, w)
      else (Shm_Rx (r\<lparr>enabled := True\<rparr>), w\<lparr>xw_shm := SD_AddListener (ep_attr r) (rc_listener r) (xw_shm w)\<rparr>))"
| "AR_Enable e (Rtps_Rx r, w) =
     (if enabled r then (Rtps_Rx r, w)
      else
        let (d, n) = RD_AddListener (te_lib e) (te_H e) (te_getenv e) (te_conf e) (ep_attr r) (rc_listener r) (xw_rtps w, xw_net w)
        in (Rtps_Rx (r\<lparr>enabled := True\<rparr>), w\<lparr>xw_rtps := d, xw_net := n\<rparr>))"

fun AR_Disable :: "('m, 'n) tx_env \<Rightarrow> 'cb any_receiver \<times> ('cb, 'n) rx_world \<Rightarrow> 'cb any_receiver \<times> ('cb, 'n) rx_world" where
  "AR_Disable e (Intra_Rx r, w) =
     (if \<not> enabled r then (Intra_Rx r, w)
      else (Intra_Rx (r\<lparr>enabled := False\<rparr>), w\<lparr>xw_intra := ID_RemoveListener (te_type e) (ep_attr r) (xw_intra w)\<rparr>))"
| "AR_Disable e (Shm_Rx r, w) =
     (if \<not> enabled r then (Shm_Rx r, w)
      else (Shm_Rx (r\<lparr>enabled := False\<rparr>), w\<lparr>xw_shm := (xw_shm w)\<lparr>sd_base := RemoveListener (ep_attr r) (sd_base (xw_shm w))\<rparr>\<rparr>))"
| "AR_Disable e (Rtps_Rx r, w) =
     (if \<not> enabled r then (Rtps_Rx r, w)
      else (Rtps_Rx (r\<lparr>enabled := False\<rparr>), w\<lparr>xw_rtps := (xw_rtps w)\<lparr>rd_base := RemoveListener (ep_attr r) (rd_base (xw_rtps w))\<rparr>\<rparr>))"

fun AR_Enable_from :: "('m, 'n) tx_env \<Rightarrow> role_attributes \<Rightarrow> 'cb any_receiver \<Rightarrow> ('cb, 'n) rx_world \<Rightarrow> ('cb, 'n) rx_world" where
  "AR_Enable_from e oppo (Intra_Rx r) w = w\<lparr>xw_intra := ID_AddListener_from (te_type e) (ep_attr r) oppo (rc_listener r) (xw_intra w)\<rparr>"
| "AR_Enable_from e oppo (Shm_Rx r) w = w\<lparr>xw_shm := SD_AddListener_from (ep_attr r) oppo (rc_listener r) (xw_shm w)\<rparr>"
| "AR_Enable_from e oppo (Rtps_Rx r) w =
     (let (d, n) = RD_AddListener_from (te_lib e) (te_H e) (te_getenv e) (te_conf e) (ep_attr r) oppo (rc_listener r) (xw_rtps w, xw_net w)
      in w\<lparr>xw_rtps := d, xw_net := n\<rparr>)"

fun AR_Disable_from :: "('m, 'n) tx_env \<Rightarrow> role_attributes \<Rightarrow> 'cb any_receiver \<Rightarrow> ('cb, 'n) rx_world \<Rightarrow> ('cb, 'n) rx_world" where
  "AR_Disable_from e oppo (Intra_Rx r) w = w\<lparr>xw_intra := ID_RemoveListener_from (te_type e) (ep_attr r) oppo (xw_intra w)\<rparr>"
| "AR_Disable_from e oppo (Shm_Rx r) w = w\<lparr>xw_shm := (xw_shm w)\<lparr>sd_base := RemoveListener_from (ep_attr r) oppo (sd_base (xw_shm w))\<rparr>\<rparr>"
| "AR_Disable_from e oppo (Rtps_Rx r) w = w\<lparr>xw_rtps := (xw_rtps w)\<lparr>rd_base := RemoveListener_from (ep_attr r) oppo (rd_base (xw_rtps w))\<rparr>\<rparr>"

section \<open>The hybrid receiver\<close>

record ('cb, 'm) hybrid_receiver = "'cb receiver" +
  hr_history :: "'m history"
  hr_receivers :: "(optional_mode, 'cb any_receiver) umap"
  hr_transmitters :: "(optional_mode, (u64, role_attributes) umap) umap"
  hr_mode :: communication_mode

fun make_receiver :: "('m, 'n) tx_env \<Rightarrow> byte list \<Rightarrow> role_attributes \<Rightarrow> 'cb \<Rightarrow> optional_mode \<Rightarrow> 'cb any_receiver" where
  "make_receiver e uuid attr listener INTRA = Intra_Rx (Receiver e uuid attr listener)"
| "make_receiver e uuid attr listener SHM = Shm_Rx (Receiver e uuid attr listener)"
| "make_receiver e uuid attr listener _ = Rtps_Rx (Receiver e uuid attr listener)"

definition HybridReceiver ::
  "('m, 'n) tx_env \<Rightarrow> byte list \<Rightarrow> (optional_mode \<Rightarrow> byte list) \<Rightarrow> role_attributes \<Rightarrow> 'cb \<Rightarrow> ('cb, 'm) hybrid_receiver" where
  "HybridReceiver e uuid uuids attr listener =
     (let r = Receiver e uuid attr listener;
          m = ObtainConfig (te_conf e);
          rxs = fold (\<lambda>mode. um_put mode (make_receiver e (uuids mode) (ep_attr r) listener mode)) (modes_of m) []
      in receiver.extend r \<lparr>hr_history = InitHistory (te_conf e) (ep_attr r), hr_receivers = rxs,
           hr_transmitters = fold (\<lambda>item. um_put (fst item) []) rxs [], hr_mode = m\<rparr>)"

definition HR_Enable_all ::
  "('m, 'n) tx_env \<Rightarrow> ('cb, 'm) hybrid_receiver \<times> ('cb, 'n) rx_world \<Rightarrow> (('cb, 'm) hybrid_receiver \<times> ('cb, 'n) rx_world) option" where
  "HR_Enable_all e = (\<lambda>(r, w). map_option (\<lambda>(rxs, w1). (r\<lparr>hr_receivers := rxs\<rparr>, w1)) (each (Some \<circ> AR_Enable e) (hr_receivers r) w))"

definition HR_Disable_all ::
  "('m, 'n) tx_env \<Rightarrow> ('cb, 'm) hybrid_receiver \<times> ('cb, 'n) rx_world \<Rightarrow> (('cb, 'm) hybrid_receiver \<times> ('cb, 'n) rx_world) option" where
  "HR_Disable_all e = (\<lambda>(r, w). map_option (\<lambda>(rxs, w1). (r\<lparr>hr_receivers := rxs\<rparr>, w1)) (each (Some \<circ> AR_Disable e) (hr_receivers r) w))"

definition ReceiveHistoryMsg :: "role_attributes \<Rightarrow> role_attributes option" where
  "ReceiveHistoryMsg opposite_attr =
     (if qos_durability_of (attr_qos opposite_attr) \<noteq> DURABILITY_TRANSIENT_LOCAL then None else Some opposite_attr)"

definition HR_Enable ::
  "('m, 'n) tx_env \<Rightarrow> role_attributes \<Rightarrow> ('cb, 'm) hybrid_receiver \<times> ('cb, 'n) rx_world
     \<Rightarrow> (role_attributes option \<times> ('cb, 'm) hybrid_receiver \<times> ('cb, 'n) rx_world) option" where
  "HR_Enable e opposite_attr = (\<lambda>(r, w).
     let rel = GetRelation (ep_attr r) opposite_attr
     in if rel = NO_RELATION then Some (None, r, w)
        else
          let m = mapping_table (hr_mode r) rel; known = um_at [] (hr_transmitters r) m
          in if um_find known (role_id opposite_attr) \<noteq> None then Some (None, r\<lparr>hr_transmitters := um_put m known (hr_transmitters r)\<rparr>, w)
             else do {
               let r1 = r\<lparr>hr_transmitters := um_put m (um_put (role_id opposite_attr) opposite_attr known) (hr_transmitters r)\<rparr>;
               rx \<leftarrow> um_find (hr_receivers r1) m;
               Some (ReceiveHistoryMsg opposite_attr, r1, AR_Enable_from e opposite_attr rx w)
             })"

definition HR_Disable ::
  "('m, 'n) tx_env \<Rightarrow> role_attributes \<Rightarrow> ('cb, 'm) hybrid_receiver \<times> ('cb, 'n) rx_world
     \<Rightarrow> (('cb, 'm) hybrid_receiver \<times> ('cb, 'n) rx_world) option" where
  "HR_Disable e opposite_attr = (\<lambda>(r, w).
     let rel = GetRelation (ep_attr r) opposite_attr
     in if rel = NO_RELATION then Some (r, w)
        else
          let m = mapping_table (hr_mode r) rel; known = um_at [] (hr_transmitters r) m
          in if um_find known (role_id opposite_attr) = None then Some (r\<lparr>hr_transmitters := um_put m known (hr_transmitters r)\<rparr>, w)
             else do {
               let r1 = r\<lparr>hr_transmitters := um_put m (um_erase (role_id opposite_attr) known) (hr_transmitters r)\<rparr>;
               rx \<leftarrow> um_find (hr_receivers r1) m;
               Some (r1, AR_Disable_from e opposite_attr rx w)
             })"

definition ClearTransmitters ::
  "('m, 'n) tx_env \<Rightarrow> ('cb, 'm) hybrid_receiver \<times> ('cb, 'n) rx_world \<Rightarrow> (('cb, 'm) hybrid_receiver \<times> ('cb, 'n) rx_world) option" where
  "ClearTransmitters e = (\<lambda>(r, w).
     map_option (\<lambda>w1. (r\<lparr>hr_transmitters := []\<rparr>, w1))
       (fold (\<lambda>(m, known) acc. fold (\<lambda>upper_reach acc. do {
                 w \<leftarrow> acc;
                 rx \<leftarrow> um_find (hr_receivers r) m;
                 Some (AR_Disable_from e (snd upper_reach) rx w)
               }) known acc)
          (hr_transmitters r) (Some w)))"

text \<open>
  \<open>ThreadFunc\<close> of the receiver up to the loop that waits until no message arrives for a second; \<open>listener\<close> is
  its closure. After the loop it calls \<open>Disable\<close> of the receiver that is returned here.
\<close>

definition HR_ThreadFunc_begin ::
  "('m, 'n) tx_env \<Rightarrow> byte list \<Rightarrow> ('cb, 'm) hybrid_receiver \<Rightarrow> role_attributes \<Rightarrow> 'cb \<Rightarrow> global_data \<times> ('cb, 'n) rx_world
     \<Rightarrow> ('cb any_receiver \<times> global_data \<times> ('cb, 'n) rx_world) option" where
  "HR_ThreadFunc_begin e uuid r opposite_attr listener = (\<lambda>(g, w). do {
     let name = history_channel (role_id opposite_attr) (role_id (ep_attr r));
     (ch, g1) \<leftarrow> RegisterChannel (te_hash e) g name;
     let attr = (ep_attr r)\<lparr>channel_name_opt := Some name, channel_id_opt := Some ch, qos_profile_opt := Some (attr_qos opposite_attr)\<rparr>;
     let (rx, w1) = AR_Enable e (Rtps_Rx (Receiver e uuid attr listener), w);
     Some (rx, g1, w1)
   })"

section \<open>Creating endpoints\<close>

record transport =
  tp_is_shutdown :: bool
  tp_participant :: "nat option"

datatype 'm created_transmitter = Single_Tx any_transmitter | Hybrid_Tx "'m hybrid_transmitter"
datatype ('cb, 'm) created_receiver = Single_Rx "'cb any_receiver" | Hybrid_Rx "('cb, 'm) hybrid_receiver"

definition with_qos :: "role_attributes \<Rightarrow> role_attributes" where
  "with_qos attr = (if qos_profile_opt attr = None then attr\<lparr>qos_profile_opt := Some QOS_PROFILE_DEFAULT\<rparr> else attr)"

definition CreateTransmitter ::
  "('m, 'n) tx_env \<Rightarrow> byte list \<Rightarrow> (optional_mode \<Rightarrow> byte list) \<Rightarrow> transport \<Rightarrow> role_attributes \<Rightarrow> optional_mode \<Rightarrow> ('cb, 'm, 'n) tx_world
     \<Rightarrow> 'm created_transmitter option \<times> ('cb, 'm, 'n) tx_world" where
  "CreateTransmitter e uuid uuids tp attr mode w =
     (if tp_is_shutdown tp then (None, w)
      else if mode = HYBRID then (Some (Hybrid_Tx (HybridTransmitter e uuid uuids (with_qos attr) (tp_participant tp))), w)
      else
        let (t, w1) = AT_Enable e (make_transmitter e uuid (with_qos attr) (tp_participant tp) mode, w)
        in (Some (Single_Tx t), w1))"

definition CreateReceiver ::
  "('m, 'n) tx_env \<Rightarrow> byte list \<Rightarrow> (optional_mode \<Rightarrow> byte list) \<Rightarrow> transport \<Rightarrow> role_attributes \<Rightarrow> 'cb \<Rightarrow> optional_mode \<Rightarrow> ('cb, 'n) rx_world
     \<Rightarrow> ('cb, 'm) created_receiver option \<times> ('cb, 'n) rx_world" where
  "CreateReceiver e uuid uuids tp attr listener mode w =
     (if tp_is_shutdown tp then (None, w)
      else if mode = HYBRID then (Some (Hybrid_Rx (HybridReceiver e uuid uuids (with_qos attr) listener)), w)
      else
        let (r, w1) = AR_Enable e (make_receiver e uuid (with_qos attr) listener mode, w)
        in (Some (Single_Rx r), w1))"


section \<open>What a history keeps\<close>

lemma pop_front_while_drop: "pop_front_while n xs = drop (length xs - n) xs"
proof (induction n xs rule: pop_front_while.induct)
  case (1 n xs)
  show ?case
  proof (cases "length xs > n")
    case True
    then have "length xs - n = Suc (length (tl xs) - n)" by simp
    then have "drop (length xs - n) xs = drop (length (tl xs) - n) (tl xs)" by (simp only: drop_Suc)
    then show ?thesis using 1 True by (subst pop_front_while.simps) simp
  qed (subst pop_front_while.simps, simp)
qed

definition add_all :: "('m \<times> message_info) list \<Rightarrow> 'm history \<Rightarrow> 'm history" where
  "add_all ms h = fold (\<lambda>(msg, info). History_Add msg info) ms h"

lemma History_Add_frame [simp]:
  "hs_enabled (History_Add msg info h) = hs_enabled h" "hs_depth (History_Add msg info h) = hs_depth h"
  "hs_max_depth (History_Add msg info h) = hs_max_depth h"
  by (simp_all add: History_Add_def)

lemma add_all_frame:
  "hs_enabled (add_all ms h) = hs_enabled h" "hs_depth (add_all ms h) = hs_depth h" "hs_max_depth (add_all ms h) = hs_max_depth h"
  by (induction ms arbitrary: h) (auto simp: add_all_def)

lemma drop_keep: "drop (length (drop (length xs - n) xs @ ys) - n) (drop (length xs - n) xs @ ys) = drop (length (xs @ ys) - n) (xs @ ys)"
  by (cases "n \<le> length xs") (auto simp: add.commute)

lemma add_all_msgs:
  assumes "hs_enabled h" and "hs_msgs h = drop (length old - unat (hs_depth h)) old"
  shows "hs_msgs (add_all ms h) = drop (length (old @ ms) - unat (hs_depth h)) (old @ ms)"
  using assms
proof (induction ms arbitrary: h old)
  case (Cons m ms)
  obtain msg info where m: "m = (msg, info)" by (cases m)
  let ?h = "History_Add msg info h"
  have "hs_msgs ?h = drop (length (old @ [m]) - unat (hs_depth h)) (old @ [m])"
    using Cons.prems drop_keep [of old "unat (hs_depth h)" "[m]"] by (simp only: History_Add_def) (simp add: pop_front_while_drop m)
  moreover have "hs_depth ?h = hs_depth h" "hs_enabled ?h" using Cons.prems by (simp_all add: History_Add_def)
  ultimately show ?case using Cons.IH [of ?h "old @ [m]"] by (simp only: add_all_def) (simp add: m)
qed (simp add: add_all_def)

lemma add_all_off: "\<not> hs_enabled h \<Longrightarrow> add_all ms h = h"
  by (induction ms) (auto simp: add_all_def History_Add_def)

section \<open>Modes in use\<close>

lemma set_modes_of: "set (modes_of m) = {mapping_table m SAME_PROC, mapping_table m DIFF_PROC, mapping_table m DIFF_HOST}"
  by (auto simp: modes_of_def)

lemma mapping_table_mode: "r \<noteq> NO_RELATION \<Longrightarrow> mapping_table m r \<in> set (modes_of m)"
  by (cases r) (simp_all add: set_modes_of)

lemma GetRelation_sym: "GetRelation a b = GetRelation b a"
  by (auto simp: GetRelation_def)

lemma um_find_fold_put: "um_find (fold (\<lambda>k. um_put k (f k)) ks m) k = (if k \<in> set ks then Some (f k) else um_find m k)"
  by (induction ks arbitrary: m) (auto simp: um_simps)

lemma um_ok_fold_put: "um_ok m \<Longrightarrow> um_ok (fold (\<lambda>k. um_put k (f k)) ks m)"
  by (induction ks arbitrary: m) auto

lemma fold_put_keys: "fold (\<lambda>item. um_put (fst item) v) xs m = fold (\<lambda>k. um_put k v) (map fst xs) m"
  by (induction xs arbitrary: m) simp_all

section \<open>Loops over the endpoints\<close>

lemma each_related:
  assumes "each f xs w = Some (ys, w')" and "\<And>a w b w'. f (a, w) = Some (b, w') \<Longrightarrow> R a b"
  shows "map fst ys = map fst xs \<and> (\<forall>k. rel_option R (um_find xs k) (um_find ys k))"
  using assms(1)
proof (induction xs arbitrary: w ys w')
  case (Cons x xs)
  obtain k a where x: "x = (k, a)" by (cases x)
  obtain b w1 zs where b: "f (a, w) = Some (b, w1)" "each f xs w1 = Some (zs, w')" "ys = (k, b) # zs"
    using Cons.prems by (auto simp: x bind_eq_Some_conv)
  show ?case using Cons.IH [OF b(2)] assms(2) [OF b(1)] by (simp add: x b(3))
qed simp

text \<open>When a method does nothing on all endpoints but one, the loop calls it on that one.\<close>

lemma each_idle: "(\<And>k a. (k, a) \<in> set xs \<Longrightarrow> f (a, w) = Some (a, w)) \<Longrightarrow> each f xs w = Some (xs, w)"
proof (induction xs)
  case (Cons x xs)
  have "f (snd x, w) = Some (snd x, w)" using Cons.prems [of "fst x" "snd x"] by simp
  moreover have "each f xs w = Some (xs, w)" by (rule Cons.IH, rule Cons.prems) (erule list.set_intros(2))
  ultimately show ?case by (cases x) simp
qed simp

lemma each_single:
  assumes "distinct (map fst xs)" and "um_find xs k = Some a" and "f (a, w) = Some (b, w')"
    and "\<And>k' a' v. (k', a') \<in> set xs \<Longrightarrow> k' \<noteq> k \<Longrightarrow> f (a', v) = Some (a', v)"
  shows "each f xs w = Some (um_put k b xs, w')"
  using assms
proof (induction xs)
  case (Cons x xs)
  obtain k0 a0 where x: "x = (k0, a0)" by (cases x)
  show ?case
  proof (cases "k0 = k")
    case True
    have "each f xs w' = Some (xs, w')"
    proof (rule each_idle)
      fix k' a' assume m: "(k', a') \<in> set xs"
      then have "k' \<noteq> k" using Cons.prems(1) True by (auto simp: x rev_image_eqI)
      then show "f (a', w') = Some (a', w')" using Cons.prems(4) [of k' a'] m by simp
    qed
    then show ?thesis using Cons.prems(2,3) True by (simp add: x)
  next
    case False
    then have "f (a0, w) = Some (a0, w)" using Cons.prems(4) [of k0 a0 w] by (simp add: x)
    moreover have "each f xs w = Some (um_put k b xs, w')"
    proof (rule Cons.IH)
      show "distinct (map fst xs)" "um_find xs k = Some a" using Cons.prems(1,2) False by (simp_all add: x)
      show "f (a', v) = Some (a', v)" if "(k', a') \<in> set xs" "k' \<noteq> k" for k' a' v
        using Cons.prems(4) [of k' a' v] that by simp
    qed (rule Cons.prems(3))
    ultimately show ?thesis using False by (simp add: x)
  qed
qed simp

section \<open>The transmitters behind the interface\<close>

text \<open>What enabling and disabling rely on: a segment that was opened is mapped, and RTPS accepts the attributes.\<close>

fun tx_ready :: "('m, 'n) tx_env \<Rightarrow> role_attributes \<Rightarrow> any_transmitter \<Rightarrow> bool" where
  "tx_ready e attr (Intra_Tx t) \<longleftrightarrow> it_channel_id t = channel_id attr"
| "tx_ready e attr (Shm_Tx t) \<longleftrightarrow> (\<forall>s. st_segment t = Some s \<longrightarrow> sg_init s \<longrightarrow> sg_map s \<noteq> None)"
| "tx_ready e attr (Rtps_Tx t) \<longleftrightarrow> rt_participant t \<noteq> None
     \<and> fst (FillInPubAttr (channel_name (ep_attr t)) (attr_qos (ep_attr t)) (Some (default_publisher_attributes (te_lib e))))"

definition publishes :: "('m, 'n) tx_env \<Rightarrow> bool" where
  "publishes e \<longleftrightarrow> (\<forall>part a n. fst (createPublisher (te_lib e) part a n) \<noteq> None)"

lemma RT_Enable_ready:
  assumes "publishes e" and "tx_ready e attr (Rtps_Tx t)" and "RT_Enable (te_lib e) (te_getenv e) (te_conf e) (t, w) = (t', w')"
  shows "enabled t' \<and> tx_ready e attr (Rtps_Tx t')"
proof (cases "enabled t")
  case True
  then show ?thesis using assms by (simp add: RT_Enable_def)
next
  case False
  obtain i where i: "rt_participant t = Some i" using assms(2) by auto
  obtain a where a: "FillInPubAttr (channel_name (ep_attr t)) (attr_qos (ep_attr t)) (Some (default_publisher_attributes (te_lib e))) = (True, Some a)"
    using assms(2) FillInPubAttr_Some [of "channel_name (ep_attr t)" "attr_qos (ep_attr t)" "default_publisher_attributes (te_lib e)"] by auto
  obtain part w1 where w1: "participant_of (te_lib e) (te_getenv e) (te_conf e) i w = (part, w1)" by fastforce
  obtain pub n where p: "createPublisher (te_lib e) part a (rw_net w1) = (Some pub, n)"
    using assms(1) by (metis option.exhaust prod.collapse publishes_def)
  have "t' = t\<lparr>rt_publisher := Some pub, enabled := True\<rparr>" using assms(3) False i a w1 p by (simp add: RT_Enable_def)
  then show ?thesis using i a by simp
qed

lemma AT_Enable_ready:
  assumes "publishes e" and "tx_ready e attr tx" and "AT_Enable e (tx, w) = (tx', w')"
  shows "tx_enabled tx' \<and> tx_ready e attr tx'"
proof (cases tx)
  case (Rtps_Tx t)
  obtain t1 r where "RT_Enable (te_lib e) (te_getenv e) (te_conf e) (t, tw_rtps w) = (t1, r)" by fastforce
  then show ?thesis using RT_Enable_ready [OF assms(1), of attr t "tw_rtps w" t1 r] assms(2,3) Rtps_Tx by auto
qed (use assms in \<open>auto simp: IT_Enable_def ST_Enable_def PosixSegment_def split: if_splits prod.splits\<close>)

lemma AT_Disable_ready:
  assumes "tx_ready e attr tx"
  shows "\<exists>tx' w'. AT_Disable e (tx, w) = Some (tx', w') \<and> \<not> tx_enabled tx' \<and> tx_ready e attr tx'"
  using assms
  by (cases tx) (auto simp: IT_Disable_def RT_Disable_def ST_Disable_def Destroy_def Let_def split: option.splits)

lemma AT_Transmit_off: "\<not> tx_enabled tx \<Longrightarrow> map_option snd (AT_Transmit e msg info (tx, w)) = Some (tx, w)"
  by (cases tx) (simp_all add: IT_Transmit_def ST_Transmit_def RT_Transmit_def)

lemma OpenOnly_mapped: "OpenOnly os (s, k) = (r, s', k') \<Longrightarrow> (sg_init s \<longrightarrow> sg_map s \<noteq> None) \<Longrightarrow> sg_init s' \<longrightarrow> sg_map s' \<noteq> None"
  by (auto simp: OpenOnly_def attach_def Let_def split: if_splits option.splits)

lemma OpenOrCreate_mapped: "OpenOrCreate os (s, k) = (r, s', k') \<Longrightarrow> (sg_init s \<longrightarrow> sg_map s \<noteq> None) \<Longrightarrow> sg_init s' \<longrightarrow> sg_map s' \<noteq> None"
  using OpenOnly_mapped [of os s k r s' k']
  by (auto simp: OpenOrCreate_def attach_def Let_def split: if_splits option.splits)

lemma Remap_mapped: "Remap os (s, k) = (r, s', k') \<Longrightarrow> sg_init s' \<longrightarrow> sg_map s' \<noteq> None"
  using OpenOnly_mapped [of os "Reset (s\<lparr>sg_init := False\<rparr>)" k r s' k'] by (simp add: Remap_def Reset_def)

lemma Recreate_mapped: "Recreate os sz (s, k) = Some (r, s', k') \<Longrightarrow> sg_init s' \<longrightarrow> sg_map s' \<noteq> None"
  by (auto simp: Recreate_def Recreate_begin_def Remove_def Reset_def Let_def split: option.splits if_splits dest: OpenOrCreate_mapped)

lemma AcquireBlockToWrite_mapped:
  assumes "AcquireBlockToWrite os sz (s, k) = Some (r, s', k')" and "sg_init s \<longrightarrow> sg_map s \<noteq> None"
  shows "sg_init s' \<longrightarrow> sg_map s' \<noteq> None"
proof -
  obtain r1 s1 k1 where 1: "OpenOrCreate os (s, k) = (r1, s1, k1)" by (metis prod.collapse)
  note m1 = OpenOrCreate_mapped [OF 1 assms(2)]
  show ?thesis
  proof (cases r1)
    case False
    then show ?thesis using assms(1) 1 m1 by (simp add: AcquireBlockToWrite_def)
  next
    case True
    obtain st where st: "checked_state (s1, k1) = Some st" using assms(1) True by (auto simp: AcquireBlockToWrite_def 1 bind_eq_Some_conv)
    obtain r2 s2 k2 where 2: "(if need_remap st then Remap os (s1, k1) else (True, s1, k1)) = (r2, s2, k2)" by (metis prod.collapse)
    have m2: "sg_init s2 \<longrightarrow> sg_map s2 \<noteq> None" using 2 m1 Remap_mapped by (auto split: if_splits)
    obtain r3 s3 k3 where 3: "(if sz > ceiling_msg_size (sg_conf s2) then Recreate os sz (s2, k2) else Some (r2, s2, k2)) = Some (r3, s3, k3)"
      using assms(1) True by (auto simp: AcquireBlockToWrite_def 1 2 st bind_eq_Some_conv)
    have m3: "sg_init s3 \<longrightarrow> sg_map s3 \<noteq> None" using 3 m2 Recreate_mapped by (auto split: if_splits)
    have "s' = s3" using assms(1) True by (auto simp: AcquireBlockToWrite_def 1 2 3 st bind_eq_Some_conv split: if_splits)
    then show ?thesis using m3 by simp
  qed
qed

lemma ST_Transmit_ready:
  assumes "ST_Transmit mt os msg info (t, w) = Some (r, t', w')" and "tx_ready e attr (Shm_Tx t)"
  shows "enabled t' = enabled t \<and> tx_ready e attr (Shm_Tx t')"
proof (cases "enabled t")
  case True
  obtain s where s: "st_segment t = Some s" using assms(1) True by (auto simp: ST_Transmit_def bind_eq_Some_conv)
  obtain b s1 k1 where a: "AcquireBlockToWrite os (word_of_int (mt_ByteSize mt msg)) (s, sw_kernel w) = Some (b, s1, k1)"
    using assms(1) True by (auto simp: ST_Transmit_def s bind_eq_Some_conv Let_def)
  have "t' = t\<lparr>st_segment := Some s1\<rparr>"
    using assms(1) True by (auto simp: ST_Transmit_def s a bind_eq_Some_conv Let_def split: option.splits if_splits prod.splits)
  then show ?thesis using AcquireBlockToWrite_mapped [OF a] assms(2) s by simp
qed (use assms in \<open>simp add: ST_Transmit_def\<close>)

lemma AT_Transmit_ready:
  assumes "AT_Transmit e msg info (tx, w) = Some (r, tx', w')" and "tx_ready e attr tx"
  shows "tx_enabled tx' = tx_enabled tx \<and> tx_ready e attr tx'"
  using assms by (cases tx) (auto split: prod.splits dest: ST_Transmit_ready)

section \<open>Which transmitters a hybrid transmitter has enabled\<close>

datatype 'm ht_op = Ht_Enable role_attributes | Ht_Disable role_attributes | Ht_Transmit 'm message_info

fun ht_exec ::
  "('m, 'n) tx_env \<Rightarrow> 'm ht_op \<Rightarrow> 'm hybrid_transmitter \<times> ('cb, 'm, 'n) tx_world \<Rightarrow> ('m hybrid_transmitter \<times> ('cb, 'm, 'n) tx_world) option" where
  "ht_exec e (Ht_Enable oppo) tw = map_option snd (HT_Enable e oppo tw)"
| "ht_exec e (Ht_Disable oppo) tw = HT_Disable e oppo tw"
| "ht_exec e (Ht_Transmit msg info) tw = map_option snd (HT_Transmit e msg info tw)"

fun ht_run ::
  "('m, 'n) tx_env \<Rightarrow> 'm ht_op list \<Rightarrow> 'm hybrid_transmitter \<times> ('cb, 'm, 'n) tx_world \<Rightarrow> ('m hybrid_transmitter \<times> ('cb, 'm, 'n) tx_world) option" where
  "ht_run e [] tw = Some tw"
| "ht_run e (op # ops) tw = Option.bind (ht_exec e op tw) (ht_run e ops)"

text \<open>The readers of each mode: those enabled and not disabled since.\<close>

fun ht_spec :: "communication_mode \<Rightarrow> role_attributes \<Rightarrow> 'm ht_op \<Rightarrow> (optional_mode \<Rightarrow> u64 set) \<Rightarrow> optional_mode \<Rightarrow> u64 set" where
  "ht_spec m attr (Ht_Enable oppo) A =
     (if GetRelation attr oppo = NO_RELATION then A
      else A(mapping_table m (GetRelation attr oppo) := insert (role_id oppo) (A (mapping_table m (GetRelation attr oppo)))))"
| "ht_spec m attr (Ht_Disable oppo) A =
     (if GetRelation attr oppo = NO_RELATION then A
      else A(mapping_table m (GetRelation attr oppo) := A (mapping_table m (GetRelation attr oppo)) - {role_id oppo}))"
| "ht_spec m attr (Ht_Transmit _ _) A = A"

definition ht_at :: "('m, 'n) tx_env \<Rightarrow> 'm hybrid_transmitter \<Rightarrow> (optional_mode \<Rightarrow> u64 set) \<Rightarrow> optional_mode \<Rightarrow> bool" where
  "ht_at e t A m \<longleftrightarrow> (\<exists>tx. um_find (ht_transmitters t) m = Some tx \<and> um_find (ht_receivers t) m = Some (A m)
     \<and> (tx_enabled tx \<longleftrightarrow> A m \<noteq> {}) \<and> tx_ready e (ep_attr t) tx)"

definition ht_ok :: "('m, 'n) tx_env \<Rightarrow> 'm hybrid_transmitter \<Rightarrow> (optional_mode \<Rightarrow> u64 set) \<Rightarrow> bool" where
  "ht_ok e t A \<longleftrightarrow> um_ok (ht_transmitters t) \<and> um_keys (ht_transmitters t) = set (modes_of (ht_mode t)) \<and> (\<forall>m \<in> set (modes_of (ht_mode t)). ht_at e t A m)"

lemma ht_okD:
  assumes "ht_ok e t A" and "m \<in> set (modes_of (ht_mode t))"
  shows "\<exists>tx. um_find (ht_transmitters t) m = Some tx \<and> um_find (ht_receivers t) m = Some (A m)
     \<and> (tx_enabled tx \<longleftrightarrow> A m \<noteq> {}) \<and> tx_ready e (ep_attr t) tx"
  using assms by (auto simp: ht_ok_def ht_at_def)

lemma ht_ok_update:
  assumes "ht_ok e t A" and m: "m \<in> set (modes_of (ht_mode t))" and "tx_enabled tx \<longleftrightarrow> R \<noteq> {}" and "tx_ready e (ep_attr t) tx"
  shows "ht_ok e (t\<lparr>ht_receivers := um_put m R (ht_receivers t), ht_transmitters := um_put m tx (ht_transmitters t)\<rparr>) (A(m := R))"
  using assms by (auto simp: ht_ok_def ht_at_def um_simps)

lemma HT_Enable_ok:
  assumes ok: "ht_ok e t A" and pub: "publishes e"
  shows "\<exists>task t' w'. HT_Enable e oppo (t, w) = Some (task, t', w') \<and> ht_ok e t' (ht_spec (ht_mode t) (ep_attr t) (Ht_Enable oppo) A)
    \<and> ep_attr t' = ep_attr t \<and> ht_mode t' = ht_mode t \<and> ht_history t' = ht_history t"
proof (cases "GetRelation (ep_attr t) oppo = NO_RELATION")
  case True
  then show ?thesis using ok by (simp add: HT_Enable_def)
next
  case False
  define m where "m = mapping_table (ht_mode t) (GetRelation (ep_attr t) oppo)"
  have m: "m \<in> set (modes_of (ht_mode t))" unfolding m_def by (rule mapping_table_mode [OF False])
  obtain tx where tx: "um_find (ht_transmitters t) m = Some tx" "um_find (ht_receivers t) m = Some (A m)" "tx_ready e (ep_attr t) tx"
    using ht_okD [OF ok m] by blast
  obtain tx' w' where en: "AT_Enable e (tx, w) = (tx', w')" by fastforce
  note R = AT_Enable_ready [OF pub tx(3) en]
  show ?thesis
    using ht_ok_update [OF ok m, of tx' "insert (role_id oppo) (A m)"] R False tx(2)
    by (simp add: HT_Enable_def m_def [symmetric] tx(1) en um_at_def Let_def)
qed

lemma HT_Disable_ok:
  assumes ok: "ht_ok e t A"
  shows "\<exists>t' w'. HT_Disable e oppo (t, w) = Some (t', w') \<and> ht_ok e t' (ht_spec (ht_mode t) (ep_attr t) (Ht_Disable oppo) A)
    \<and> ep_attr t' = ep_attr t \<and> ht_mode t' = ht_mode t \<and> ht_history t' = ht_history t"
proof (cases "GetRelation (ep_attr t) oppo = NO_RELATION")
  case True
  then show ?thesis using ok by (simp add: HT_Disable_def)
next
  case False
  define m where "m = mapping_table (ht_mode t) (GetRelation (ep_attr t) oppo)"
  have m: "m \<in> set (modes_of (ht_mode t))" unfolding m_def by (rule mapping_table_mode [OF False])
  obtain tx where tx: "um_find (ht_transmitters t) m = Some tx" "um_find (ht_receivers t) m = Some (A m)"
      "tx_enabled tx \<longleftrightarrow> A m \<noteq> {}" "tx_ready e (ep_attr t) tx"
    using ht_okD [OF ok m] by blast
  have at: "um_at {} (ht_receivers t) m = A m" using tx(2) by (simp add: um_at_def)
  define rest where "rest = A m - {role_id oppo}"
  have sub: "A m \<subseteq> {role_id oppo} \<longleftrightarrow> rest = {}" by (auto simp: rest_def)
  show ?thesis
  proof (cases "rest = {}")
    case True
    obtain tx' w' where dis: "AT_Disable e (tx, w) = Some (tx', w')" "\<not> tx_enabled tx'" "tx_ready e (ep_attr t) tx'"
      using AT_Disable_ready [OF tx(4)] by blast
    show ?thesis
      using ht_ok_update [OF ok m, of tx' rest] dis True False by (simp add: HT_Disable_def m_def [symmetric] rest_def [symmetric] tx(1) at Let_def sub)
  next
    case ne: False
    have "um_put m tx (ht_transmitters t) = ht_transmitters t" using tx(1) ok by (simp add: update_triv ht_ok_def um_ok_def)
    moreover have "tx_enabled tx \<longleftrightarrow> rest \<noteq> {}" using tx(3) ne by (auto simp: rest_def)
    ultimately have "ht_ok e (t\<lparr>ht_receivers := um_put m rest (ht_receivers t)\<rparr>) (A(m := rest))"
      using ht_ok_update [OF ok m _ tx(4), of rest] by simp
    then show ?thesis using ne False by (simp add: HT_Disable_def m_def [symmetric] rest_def [symmetric] at Let_def sub)
  qed
qed

lemma HT_Transmit_ok:
  assumes ok: "ht_ok e t A" and tr: "HT_Transmit e msg info (t, w) = Some (r, t', w')"
  shows "r \<and> ht_ok e t' A \<and> ep_attr t' = ep_attr t \<and> ht_mode t' = ht_mode t \<and> ht_history t' = History_Add msg info (ht_history t)"
proof -
  obtain txs where each: "each (map_option snd \<circ> AT_Transmit e msg info) (ht_transmitters t) w = Some (txs, w')"
    and t': "r" "t' = t\<lparr>ht_history := History_Add msg info (ht_history t), ht_transmitters := txs\<rparr>"
    using tr by (auto simp: HT_Transmit_def)
  let ?R = "\<lambda>a b. \<forall>attr. tx_ready e attr a \<longrightarrow> tx_ready e attr b \<and> tx_enabled b = tx_enabled a"
  have "map fst txs = map fst (ht_transmitters t) \<and> (\<forall>k. rel_option ?R (um_find (ht_transmitters t) k) (um_find txs k))"
    by (rule each_related [OF each]) (auto dest: AT_Transmit_ready)
  then have keys: "map fst txs = map fst (ht_transmitters t)" and rel: "\<And>k. rel_option ?R (um_find (ht_transmitters t) k) (um_find txs k)" by auto
  have "ht_at e t' A m" if "m \<in> set (modes_of (ht_mode t))" for m
  proof -
    from ht_okD [OF ok that] obtain tx where tx: "um_find (ht_transmitters t) m = Some tx" "um_find (ht_receivers t) m = Some (A m)"
      "tx_enabled tx \<longleftrightarrow> A m \<noteq> {}" "tx_ready e (ep_attr t) tx" by blast
    obtain b where "um_find txs m = Some b" "?R tx b" using rel [of m] tx(1) by (cases "um_find txs m") auto
    then show ?thesis using tx by (auto simp: ht_at_def t')
  qed
  moreover have "um_ok txs" "um_keys txs = um_keys (ht_transmitters t)"
    using ok keys by (simp_all add: ht_ok_def um_ok_def) (metis list.set_map)
  ultimately show ?thesis using ok by (simp add: ht_ok_def t')
qed

section \<open>New endpoints\<close>

lemma Endpoint_keeps:
  "channel_name_opt (ep_attr (Endpoint H uuid host pid attr)) = channel_name_opt attr"
  "channel_id_opt (ep_attr (Endpoint H uuid host pid attr)) = channel_id_opt attr"
  "qos_profile_opt (ep_attr (Endpoint H uuid host pid attr)) = qos_profile_opt attr"
  "enabled (Endpoint H uuid host pid attr) = False"
  by (simp_all add: Endpoint_def Let_def)

lemmas endpoint_defs = Transmitter_def IntraTransmitter_def ShmTransmitter_def RtpsTransmitter_def transmitter.defs endpoint.defs Let_def Endpoint_keeps

lemma make_transmitter_new:
  assumes "part \<noteq> None" and "fst (FillInPubAttr (channel_name attr) (attr_qos attr) (Some (default_publisher_attributes (te_lib e))))"
  shows "tx_ready e attr (make_transmitter e uuid attr part m)"
  using assms by (cases m) (simp_all add: endpoint_defs)

lemma make_transmitter_off: "\<not> tx_enabled (make_transmitter e uuid attr part m)"
  by (cases m) (simp_all add: endpoint_defs)

lemma InitTransmitters_find:
  "um_find (InitTransmitters e uuids attr part md) m =
     (if m \<in> set (modes_of md) then Some (make_transmitter e (uuids m) attr part m) else None)"
  "um_ok (InitTransmitters e uuids attr part md)" "um_keys (InitTransmitters e uuids attr part md) = set (modes_of md)"
proof -
  show find: "um_find (InitTransmitters e uuids attr part md) m =
     (if m \<in> set (modes_of md) then Some (make_transmitter e (uuids m) attr part m) else None)" for m
    by (simp add: InitTransmitters_def um_find_fold_put)
  show "um_ok (InitTransmitters e uuids attr part md)" by (simp add: InitTransmitters_def um_ok_fold_put)
  show "um_keys (InitTransmitters e uuids attr part md) = set (modes_of md)"
    by (rule set_eqI) (simp only: um_keys_find find, simp)
qed

lemma InitReceivers_find: "um_find (InitReceivers txs) m = (if m \<in> um_keys txs then Some {} else None)"
  by (simp add: InitReceivers_def fold_put_keys um_find_fold_put)

lemma HybridTransmitter_simps:
  "ep_attr (HybridTransmitter e uuid uuids attr part) = ep_attr (Endpoint (te_H e) uuid (te_host e) (te_pid e) attr)"
  "ht_mode (HybridTransmitter e uuid uuids attr part) = ObtainConfig (te_conf e)"
  "ht_transmitters (HybridTransmitter e uuid uuids attr part) =
     InitTransmitters e uuids (ep_attr (HybridTransmitter e uuid uuids attr part)) part (ObtainConfig (te_conf e))"
  "ht_receivers (HybridTransmitter e uuid uuids attr part) = InitReceivers (ht_transmitters (HybridTransmitter e uuid uuids attr part))"
  "ht_history (HybridTransmitter e uuid uuids attr part) = InitHistory (te_conf e) (ep_attr (HybridTransmitter e uuid uuids attr part))"
  by (simp_all add: HybridTransmitter_def Transmitter_def transmitter.defs endpoint.defs Let_def)

lemma HybridTransmitter_ok:
  assumes "part \<noteq> None" and "fst (FillInPubAttr (channel_name attr) (attr_qos attr) (Some (default_publisher_attributes (te_lib e))))"
  shows "ht_ok e (HybridTransmitter e uuid uuids attr part) (\<lambda>_. {})"
proof -
  let ?t = "HybridTransmitter e uuid uuids attr part"
  have "fst (FillInPubAttr (channel_name (ep_attr ?t)) (attr_qos (ep_attr ?t)) (Some (default_publisher_attributes (te_lib e))))"
    using assms(2) by (simp add: HybridTransmitter_simps(1) Endpoint_keeps)
  then show ?thesis
    using make_transmitter_new [OF assms(1), of "ep_attr ?t" e]
    by (auto simp: ht_ok_def ht_at_def HybridTransmitter_simps(2-) InitTransmitters_find InitReceivers_find make_transmitter_off)
qed

fun transmitted :: "'m ht_op list \<Rightarrow> ('m \<times> message_info) list" where
  "transmitted [] = []"
| "transmitted (Ht_Transmit msg info # ops) = (msg, info) # transmitted ops"
| "transmitted (_ # ops) = transmitted ops"

lemma ht_exec_ok:
  assumes ok: "ht_ok e t A" and pub: "publishes e" and ex: "ht_exec e op (t, w) = Some (t', w')"
  shows "ht_ok e t' (ht_spec (ht_mode t) (ep_attr t) op A) \<and> ep_attr t' = ep_attr t \<and> ht_mode t' = ht_mode t
    \<and> ht_history t' = add_all (transmitted [op]) (ht_history t)"
proof (cases op)
  case (Ht_Enable oppo)
  then show ?thesis using HT_Enable_ok [OF ok pub, of oppo w] ex by (auto simp: add_all_def)
next
  case (Ht_Disable oppo)
  then show ?thesis using HT_Disable_ok [OF ok, of oppo w] ex by (auto simp: add_all_def)
next
  case (Ht_Transmit msg info)
  then show ?thesis using HT_Transmit_ok [OF ok, of msg info w] ex by (auto simp: add_all_def)
qed

lemma transmitted_Cons: "transmitted (op # ops) = transmitted [op] @ transmitted ops"
  by (cases op) simp_all

lemma ht_run_ok:
  assumes "ht_run e ops (t, w) = Some (t', w')" and "ht_ok e t A" and "publishes e"
  shows "ht_ok e t' (fold (ht_spec (ht_mode t) (ep_attr t)) ops A) \<and> ep_attr t' = ep_attr t \<and> ht_mode t' = ht_mode t
    \<and> ht_history t' = add_all (transmitted ops) (ht_history t)"
  using assms(1,2)
proof (induction ops arbitrary: t w A)
  case (Cons op ops)
  obtain t1 w1 where 1: "ht_exec e op (t, w) = Some (t1, w1)" "ht_run e ops (t1, w1) = Some (t', w')"
    using Cons.prems(1) by (auto simp: bind_eq_Some_conv)
  note S = ht_exec_ok [OF Cons.prems(2) assms(3) 1(1)]
  have "add_all (transmitted (op # ops)) h = add_all (transmitted ops) (add_all (transmitted [op]) h)" for h :: "'a history"
    by (subst transmitted_Cons) (simp add: add_all_def)
  then show ?case using Cons.IH [OF 1(2) conjunct1 [OF S]] S by simp
qed (simp add: add_all_def)

lemma ht_run_returns:
  assumes "\<forall>op \<in> set ops. transmitted [op] = []" and "ht_ok e t A" and "publishes e"
  shows "\<exists>t' w'. ht_run e ops (t, w) = Some (t', w')"
  using assms(1,2)
proof (induction ops arbitrary: t w A)
  case (Cons op ops)
  have "\<exists>t1 w1. ht_exec e op (t, w) = Some (t1, w1)"
    using Cons.prems HT_Enable_ok [OF Cons.prems(2) assms(3)] HT_Disable_ok [OF Cons.prems(2)] by (cases op) fastforce+
  then obtain t1 w1 where 1: "ht_exec e op (t, w) = Some (t1, w1)" by blast
  then show ?case using Cons.IH [OF _ conjunct1 [OF ht_exec_ok [OF Cons.prems(2) assms(3) 1]], of w1] Cons.prems(1) by simp
qed simp

section \<open>A reader in the same process\<close>

lemma Endpoint_again: "ep_attr (Endpoint H u host pid (ep_attr (Endpoint H' u' host' pid' attr))) = ep_attr (Endpoint H' u' host' pid' attr)"
  by (simp add: Endpoint_def Let_def)

lemma HybridReceiver_simps:
  "ep_attr (HybridReceiver e uuid uuids attr cb) = ep_attr (Endpoint (te_H e) uuid (te_host e) (te_pid e) attr)"
  "hr_mode (HybridReceiver e uuid uuids attr cb) = ObtainConfig (te_conf e)"
  "m \<in> set (modes_of (ObtainConfig (te_conf e))) \<Longrightarrow> um_find (hr_receivers (HybridReceiver e uuid uuids attr cb)) m =
     Some (make_receiver e (uuids m) (ep_attr (HybridReceiver e uuid uuids attr cb)) cb m)"
  "um_at [] (hr_transmitters (HybridReceiver e uuid uuids attr cb)) m = []"
  by (simp_all add: HybridReceiver_def Receiver_def receiver.defs endpoint.defs Let_def um_find_fold_put fold_put_keys um_at_def)

lemma HR_Enable_intra:
  assumes r: "r = HybridReceiver e uuid uuids attr cb" and m: "mapping_table (ObtainConfig (te_conf e)) SAME_PROC = INTRA"
    and rel: "GetRelation (ep_attr r) oppo = SAME_PROC" and en: "HR_Enable e oppo (r, w) = Some (task, r1, w1)"
  shows "xw_intra w1 = ID_AddListener_from (te_type e) (ep_attr r) oppo cb (xw_intra w)"
proof -
  have "INTRA \<in> set (modes_of (ObtainConfig (te_conf e)))" using mapping_table_mode [of SAME_PROC "ObtainConfig (te_conf e)"] m by simp
  then have rx: "um_find (hr_receivers r) INTRA = Some (Intra_Rx (Receiver e (uuids INTRA) (ep_attr r) cb))"
    unfolding r by (simp add: HybridReceiver_simps(3))
  have mode: "mapping_table (hr_mode r) SAME_PROC = INTRA" "um_at [] (hr_transmitters r) INTRA = []"
    by (simp_all add: r HybridReceiver_simps(2,4) m del: mapping_table.simps)
  have a: "ep_attr (Receiver e (uuids INTRA) (ep_attr r) cb) = ep_attr r" "rc_listener (Receiver e (uuids INTRA) (ep_attr r) cb) = cb"
    unfolding r HybridReceiver_simps(1) by (simp_all add: Receiver_def endpoint.defs Endpoint_again)
  have "w1 = AR_Enable_from e oppo (Intra_Rx (Receiver e (uuids INTRA) (ep_attr r) cb)) w"
    using en by (simp add: HR_Enable_def rel mode rx del: AR_Enable_from.simps mapping_table.simps)
  then show ?thesis by (simp add: a)
qed

lemma HT_Enable_intra:
  assumes t: "t = HybridTransmitter e uuid uuids attr part" and m: "mapping_table (ObtainConfig (te_conf e)) SAME_PROC = INTRA"
    and rel: "GetRelation (ep_attr t) oppo = SAME_PROC" and en: "HT_Enable e oppo (t, w) = Some (task, t1, w1)"
  shows "w1 = w \<and> um_ok (ht_transmitters t1)
    \<and> (\<exists>it. um_find (ht_transmitters t1) INTRA = Some (Intra_Tx it) \<and> enabled it \<and> it_channel_id it = channel_id (ep_attr t))
    \<and> (\<forall>k tx. (k, tx) \<in> set (ht_transmitters t1) \<longrightarrow> k \<noteq> INTRA \<longrightarrow> \<not> tx_enabled tx)"
proof -
  define it where "it = IntraTransmitter (te_H e) (uuids INTRA) (te_host e) (te_pid e) (ep_attr t)"
  have "INTRA \<in> set (modes_of (ObtainConfig (te_conf e)))" using mapping_table_mode [of SAME_PROC "ObtainConfig (te_conf e)"] m by simp
  then have tx: "um_find (ht_transmitters t) INTRA = Some (Intra_Tx it)"
    unfolding t it_def HybridTransmitter_simps(3) by (simp add: InitTransmitters_find)
  have mode: "mapping_table (ht_mode t) SAME_PROC = INTRA" by (simp add: t HybridTransmitter_simps(2) m del: mapping_table.simps)
  have ok: "um_ok (ht_transmitters t)" unfolding t HybridTransmitter_simps(3) by (rule InitTransmitters_find(2))
  have off: "\<not> tx_enabled x" if "um_find (ht_transmitters t) k = Some x" for k x
    using that unfolding t HybridTransmitter_simps(3) by (auto simp: InitTransmitters_find(1) make_transmitter_off split: if_splits)
  have 1: "w1 = w" "ht_transmitters t1 = um_put INTRA (Intra_Tx (IT_Enable it)) (ht_transmitters t)"
    using en by (auto simp: HT_Enable_def rel mode tx Let_def simp del: mapping_table.simps)
  have "\<not> tx_enabled x" if x: "(k, x) \<in> set (ht_transmitters t1)" "k \<noteq> INTRA" for k x
  proof -
    have "um_find (ht_transmitters t1) k = Some x" using x(1) ok unfolding 1(2) by (subst um_set_iff [symmetric]) simp_all
    then show ?thesis using off x(2) by (simp add: 1(2) um_simps)
  qed
  moreover have "enabled (IT_Enable it)" "it_channel_id (IT_Enable it) = channel_id (ep_attr t)"
    by (simp_all add: IT_Enable_def it_def endpoint_defs)
  ultimately show ?thesis using ok 1 by (simp add: um_simps)
qed

lemma HT_Transmit_intra:
  assumes "um_ok (ht_transmitters t)" and it: "um_find (ht_transmitters t) INTRA = Some (Intra_Tx it)" "enabled it"
    and off: "\<forall>k tx. (k, tx) \<in> set (ht_transmitters t) \<longrightarrow> k \<noteq> INTRA \<longrightarrow> \<not> tx_enabled tx"
    and msg: "ID_OnMessage (te_SerializeToHC e) (te_ParseFromHC e) (te_type e) (it_channel_id it) msg info (tw_intra w, tw_log w) = (d, log)"
  shows "\<exists>t'. HT_Transmit e msg info (t, w) = Some (True, t', w\<lparr>tw_intra := d, tw_log := log\<rparr>)"
proof -
  have "each (map_option snd \<circ> AT_Transmit e msg info) (ht_transmitters t) w =
      Some (um_put INTRA (Intra_Tx it) (ht_transmitters t), w\<lparr>tw_intra := d, tw_log := log\<rparr>)"
  proof (rule each_single [OF _ it(1)])
    show "distinct (map fst (ht_transmitters t))" using assms(1) by (simp add: um_ok_def)
    show "(map_option snd \<circ> AT_Transmit e msg info) (Intra_Tx it, w) = Some (Intra_Tx it, w\<lparr>tw_intra := d, tw_log := log\<rparr>)"
      using msg it(2) by (simp add: IT_Transmit_def)
    show "(map_option snd \<circ> AT_Transmit e msg info) (tx, v) = Some (tx, v)" if "(k, tx) \<in> set (ht_transmitters t)" "k \<noteq> INTRA" for k tx v
      unfolding comp_def by (rule AT_Transmit_off) (use off that in blast)
  qed
  then show ?thesis by (simp add: HT_Transmit_def)
qed

section \<open>Properties\<close>


definition demo_env :: "(byte list, (underlay_message \<times> sample_identity) list) tx_env" where
  "demo_env = \<lparr>te_H = (\<lambda>_. 77), te_hash = (\<lambda>_. 9), te_host = ''h'', te_pid = 1, te_conf = None, te_getenv = (\<lambda>_. None), te_os = no_faults,
     te_lib = demo_lib, te_guid = replicate 16 0, te_type = ''t'', te_traits = \<lparr>mt_ByteSize = int \<circ> length, mt_SerializeToArray = (\<lambda>m _. Some m)\<rparr>,
     te_SerializeToString = Some, te_SerializeToHC = (\<lambda>_. None), te_ParseFromHC = (\<lambda>_ _. None)\<rparr>"

definition demo_tx_world :: "(nat, byte list, (underlay_message \<times> sample_identity) list) tx_world" where
  "demo_tx_world = \<lparr>tw_intra = IntraDispatcher, tw_log = [], tw_shm = demo_world,
     tw_rtps = \<lparr>rw_net = [], rw_participants = (\<lambda>_. Participant ''h+1'' 11512 False)\<rparr>\<rparr>"

definition demo_role :: "int \<Rightarrow> string \<Rightarrow> u64 \<Rightarrow> role_attributes" where
  "demo_role pid ip i = demo_attr\<lparr>process_id_opt := Some pid, host_ip_opt := Some ip, id_opt := Some i\<rparr>"

definition demo_writer :: "byte list hybrid_transmitter" where
  "demo_writer = HybridTransmitter demo_env (replicate 8 5) (\<lambda>_. replicate 8 6) (demo_role 1 ''a'' 77) (Some 0)"

lemma demo_relations:
  "GetRelation (ep_attr demo_writer) (demo_role 1 ''a'' i) = SAME_PROC" "GetRelation (ep_attr demo_writer) (demo_role 2 ''a'' i) = DIFF_PROC"
  "GetRelation (ep_attr demo_writer) (demo_role 1 ''b'' i) = DIFF_HOST"
  by (simp_all add: demo_writer_def HybridTransmitter_simps(1) Endpoint_def Let_def demo_role_def demo_attr_def RoleAttributes_def GetRelation_def)

lemma demo_hypotheses:
  "publishes demo_env"
  "fst (FillInPubAttr (channel_name (demo_role 1 ''a'' 77)) (attr_qos (demo_role 1 ''a'' 77)) (Some (default_publisher_attributes (te_lib demo_env))))"
  by (simp_all add: publishes_def demo_env_def demo_role_def demo_attr_def RoleAttributes_def FillInPubAttr_def fill_topic_def QosProfile_def
      QOS_HISTORY_DEPTH_SYSTEM_DEFAULT_def demo_lib_def Let_def)


text \<open>
  C4: a writer and a reader of one process meet in memory, once. When both are hybrid endpoints with the same
  configuration, in which the mode inside a process is \<open>INTRA\<close>, and each has been told of the other, then a
  message of the writer calls the listener of the reader exactly once, after the listeners that were there
  before; nothing goes through shared memory or RTPS.
\<close>

theorem hybrid_same_process_delivery:
  assumes t0: "t0 = HybridTransmitter e uuid uuids attr part" and r0: "r0 = HybridReceiver e' ruuid ruuids rattr cb"
    and conf: "te_conf e' = te_conf e" "te_type e' = te_type e" "mapping_table (ObtainConfig (te_conf e)) SAME_PROC = INTRA"
    and rel: "GetRelation (ep_attr t0) (ep_attr r0) = SAME_PROC" and ch: "channel_id (ep_attr t0) = ch" "channel_id (ep_attr r0) = ch"
    and rx: "HR_Enable e' (ep_attr t0) (r0, xw) = Some (task, r1, xw1)"
    and tx: "HT_Enable e (ep_attr r0) (t0, w0) = Some (task', t1, w1)" and shared: "tw_intra w0 = xw_intra xw1"
    and rep: "intra_rep (xw_intra xw) S" "channel_type S ch \<in> {None, Some (te_type e)}" and fresh: "role_id (ep_attr r0) \<notin> fst ` set (snd (snd (spec_at S ch)) (role_id (ep_attr t0)))"
    and sender: "id_hash (sender_id info) = role_id (ep_attr t0)"
  shows "\<exists>t2 d. HT_Transmit e msg info (t1, w1) =
    Some (True, t2, w1\<lparr>tw_intra := d, tw_log := tw_log w0 @ map (\<lambda>cb. (cb, msg, info)) (readers_of S ch (role_id (ep_attr t0)) @ [cb])\<rparr>)"
proof -
  let ?q = "role_id (ep_attr t0)"
  obtain A F where AF: "snd (spec_at S ch) = (A, F)" by (metis prod.collapse)
  define S1 where "S1 = S(ch := Some (te_type e, A, F(?q := F ?q @ [(role_id (ep_attr r0), cb)])))"
  have rel': "GetRelation (ep_attr r0) (ep_attr t0) = SAME_PROC" using rel GetRelation_sym [of "ep_attr r0" "ep_attr t0"] by simp
  have "xw_intra xw1 = ID_AddListener_from (te_type e) (ep_attr r0) (ep_attr t0) cb (xw_intra xw)"
    using HR_Enable_intra [OF r0 _ rel' rx] conf by simp
  moreover have "role_id (ep_attr r0) \<notin> fst ` set (F ?q)" using fresh unfolding AF by simp
  ultimately have d: "intra_rep (tw_intra w0) S1"
    unfolding S1_def shared using ID_AddListener_from_rep [OF rep AF ch(2) [symmetric] refl refl] by simp
  have T: "w1 = w0" and ok: "um_ok (ht_transmitters t1)"
    and off: "\<forall>k tx. (k, tx) \<in> set (ht_transmitters t1) \<longrightarrow> k \<noteq> INTRA \<longrightarrow> \<not> tx_enabled tx"
    using HT_Enable_intra [OF t0 conf(3) rel tx] by blast+
  obtain it where it: "um_find (ht_transmitters t1) INTRA = Some (Intra_Tx it)" "enabled it" "it_channel_id it = ch"
    using HT_Enable_intra [OF t0 conf(3) rel tx] ch(1) by blast
  have "channel_type S1 ch \<in> {None, Some (te_type e)}" by (simp add: S1_def channel_type_def)
  from ID_OnMessage_rep [OF d this, of "te_SerializeToHC e" "te_ParseFromHC e" msg info "tw_log w0"]
  obtain d' where "ID_OnMessage (te_SerializeToHC e) (te_ParseFromHC e) (te_type e) ch msg info (tw_intra w0, tw_log w0) =
      (d', tw_log w0 @ map (\<lambda>cb. (cb, msg, info)) (readers_of S1 ch ?q))" unfolding sender by blast
  moreover have "readers_of S1 ch ?q = readers_of S ch ?q @ [cb]"
    using AF by (auto simp: readers_of_def S1_def spec_at_def no_readers_def split: option.splits)
  ultimately show ?thesis using HT_Transmit_intra [where e = e and msg = msg and info = info and w = w0, OF ok it(1,2) off] it(3) unfolding T by auto
qed

lemma HR_Enable_returns:
  assumes r: "r = HybridReceiver e uuid uuids attr cb"
  shows "\<exists>task r1 w1. HR_Enable e oppo (r, w) = Some (task, r1, w1)"
proof (cases "GetRelation (ep_attr r) oppo = NO_RELATION")
  case False
  define m where "m = mapping_table (hr_mode r) (GetRelation (ep_attr r) oppo)"
  have "m \<in> set (modes_of (ObtainConfig (te_conf e)))"
    unfolding m_def using mapping_table_mode [OF False, of "hr_mode r"] by (simp add: r HybridReceiver_simps(2))
  then have "um_find (hr_receivers r) m = Some (make_receiver e (uuids m) (ep_attr r) cb m)" unfolding r by (rule HybridReceiver_simps(3))
  then show ?thesis using False by (simp add: HR_Enable_def m_def [symmetric] Let_def)
qed (simp add: HR_Enable_def)

definition demo_rx_world :: "(nat, (underlay_message \<times> sample_identity) list) rx_world" where
  "demo_rx_world = \<lparr>xw_intra = IntraDispatcher, xw_shm = demo_dispatcher, xw_rtps = RtpsDispatcher, xw_net = tw_rtps demo_tx_world\<rparr>"

definition demo_receiver :: "(nat, byte list) hybrid_receiver" where
  "demo_receiver = HybridReceiver demo_env (replicate 8 7) (\<lambda>_. replicate 8 8) (demo_role 1 ''a'' 5) 11"

theorem hybrid_same_process_delivery_witness:
  "\<exists>task r1 xw1 task' t1 w1 t2 d. HR_Enable demo_env (ep_attr demo_writer) (demo_receiver, demo_rx_world) = Some (task, r1, xw1)
     \<and> HT_Enable demo_env (ep_attr demo_receiver) (demo_writer, demo_tx_world\<lparr>tw_intra := xw_intra xw1\<rparr>) = Some (task', t1, w1)
     \<and> HT_Transmit demo_env [1, 2] demo_info (t1, w1) = Some (True, t2, w1\<lparr>tw_intra := d, tw_log := [(11, [1, 2], demo_info)]\<rparr>)"
proof -
  have w: "channel_id (ep_attr demo_writer) = 9" "role_id (ep_attr demo_writer) = 77"
    by (simp_all add: demo_writer_def HybridTransmitter_simps(1) Endpoint_def Let_def demo_role_def demo_attr_def RoleAttributes_def)
  have r: "channel_id (ep_attr demo_receiver) = 9"
    by (simp_all add: demo_receiver_def HybridReceiver_simps(1) Endpoint_def Let_def demo_role_def demo_attr_def RoleAttributes_def)
  have rel: "GetRelation (ep_attr demo_writer) (ep_attr demo_receiver) = SAME_PROC"
    by (simp add: demo_writer_def demo_receiver_def HybridTransmitter_simps(1) HybridReceiver_simps(1) Endpoint_def Let_def demo_role_def
        demo_attr_def RoleAttributes_def GetRelation_def)
  have m: "mapping_table (ObtainConfig (te_conf demo_env)) SAME_PROC = INTRA" by (simp add: demo_env_def ObtainConfig_def default_mode_def)
  obtain task r1 xw1 where rx: "HR_Enable demo_env (ep_attr demo_writer) (demo_receiver, demo_rx_world) = Some (task, r1, xw1)"
    using HR_Enable_returns [OF demo_receiver_def] by blast
  have ok: "ht_ok demo_env demo_writer (\<lambda>_. {})" unfolding demo_writer_def by (rule HybridTransmitter_ok [OF _ demo_hypotheses(2)]) simp
  define w0 where "w0 = demo_tx_world\<lparr>tw_intra := xw_intra xw1\<rparr>"
  obtain task' t1 w1 where tx: "HT_Enable demo_env (ep_attr demo_receiver) (demo_writer, w0) = Some (task', t1, w1)"
    using HT_Enable_ok [OF ok demo_hypotheses(1)] by blast
  have rep: "intra_rep (xw_intra demo_rx_world) (\<lambda>_. None)" by (simp add: demo_rx_world_def intra_rep_new)
  have i: "id_hash (sender_id demo_info) = role_id (ep_attr demo_writer)" unfolding w demo_info_sender ..
  from hybrid_same_process_delivery [OF demo_writer_def demo_receiver_def refl refl m rel w(1) r rx tx _ rep _ _ i, of "[1, 2]"]
  obtain t2 d where "HT_Transmit demo_env [1, 2] demo_info (t1, w1) =
      Some (True, t2, w1\<lparr>tw_intra := d, tw_log := tw_log w0 @ [(11, [1, 2], demo_info)]\<rparr>)"
    by (auto simp: w0_def channel_type_def spec_at_def no_readers_def readers_of_def)
  then show ?thesis using rx tx by (simp add: w0_def demo_tx_world_def) blast
qed

text \<open>
  C33: the history of a writer. It holds the last \<open>depth\<close> of the messages added since it was enabled, in
  order, where the depth is the one of the quality of service, cut off at the limit of the configuration, or
  that limit when everything is to be kept; a history that is not enabled stays empty.
\<close>

theorem history_keeps_last:
  assumes h: "h = (History conf policy depth)\<lparr>hs_enabled := on\<rparr>"
  shows "hs_msgs (add_all ms h) = (if on then drop (length ms - unat (hs_depth h)) ms else [])
    \<and> hs_depth h = (if policy = HISTORY_KEEP_ALL then hs_max_depth h else min depth (hs_max_depth h))
    \<and> History_GetSize (add_all ms h) \<le> unat (hs_max_depth h)"
proof -
  have d: "hs_depth h = (if policy = HISTORY_KEEP_ALL then hs_max_depth h else min depth (hs_max_depth h))"
    by (auto simp: h History_def Let_def min_def)
  then have le: "unat (hs_depth h) \<le> unat (hs_max_depth h)" by (simp add: unat_mono word_le_nat_alt [symmetric])
  have m: "hs_msgs (add_all ms h) = (if on then drop (length ms - unat (hs_depth h)) ms else [])"
    using add_all_msgs [of h "[]" ms] add_all_off [of h ms] by (simp add: h History_def Let_def)
  have "History_GetSize (add_all ms h) \<le> unat (hs_max_depth h)" using le by (auto simp: m History_GetSize_def)
  then show ?thesis using d m by blast
qed

theorem history_keeps_last_witness:
  "hs_msgs (add_all [(''a'', demo_info), (''b'', demo_info), (''c'', demo_info)] ((History None HISTORY_KEEP_LAST 2)\<lparr>hs_enabled := True\<rparr>))
     = [(''b'', demo_info), (''c'', demo_info)]"
  using history_keeps_last [OF refl, where ms = "[(''a'', demo_info), (''b'', demo_info), (''c'', demo_info)]" and conf = None
      and policy = HISTORY_KEEP_LAST and depth = 2 and on = True]
  by (simp add: History_def Let_def)

text \<open>Two pairs of a writer and a reader can share the channel on which a late reader gets the history.\<close>

lemma history_channel_ambiguous: "history_channel 1 23 = history_channel 12 3"
  by (simp add: history_channel_def nat_to_string.simps)

end
