(* ===== verification/Spec2Isabelle.thy ===== *)
theory Spec2Isabelle
  imports Topology_Manager Data_Visitor Cyber_Timer Bounded_Queue Object_Pool Shm_Segment Shm_Notifier Listener_Dispatch Hybrid_Endpoints
begin

text \<open>
  Verification of the Cyber RT runtime of this repository, \<open>src/IntelligentDriving/my_cyber\<close>. Paths below
  are relative to that directory. The runtime lets nodes of many processes and hosts exchange messages over
  named channels: service discovery keeps every process informed of who writes and reads what, the transport
  carries messages inside a process, through shared memory or over RTPS, the data layer queues and fuses them for their
  readers, and timers and task queues run the callbacks.

  \<^bold>\<open>Conventions.\<close> A class is a \<open>record\<close> named like it, a constructor the definition with the class's
  name, a method the definition with the method's name, prefixed where two classes share it. Unsigned
  integers are words of their width and wrap. An \<open>unordered_map\<close> is an association list with distinct keys
  whose order is arbitrary. Pointers to shared data are addresses into a store that is part of the state; an
  output pointer is an option; a result of \<open>None\<close> is a null dereference, an access out of bounds, an uncaught
  exception or a loop that does not end, as the theory says. A mutex or lock around a method makes the method
  one step. Lock-free code is a step machine: one step per atomic access, a program counter with the locals
  for every thread, and an inductive relation that interleaves any number of threads; ghost fields record
  histories. Clocks, hashing, system calls, Fast-RTPS and protobuf are arguments. Logging is left out.

  \<^bold>\<open>Foundations.\<close>
  \<^item> \<open>Cyber_Prelude\<close>: words, maps, and the locale \<open>invariant_system\<close> (an initial predicate, a step
    relation, an inductive invariant) that every step machine below interprets.
  \<^item> \<open>Cyber_Text\<close>: the string searches, decimal conversions and path functions of \<open>common/file.cc\<close>.
  \<^item> \<open>Atomic_Hash_Map\<close>: \<open>base/atomic_hash_map.h\<close>; its contract is the locale \<open>key_table\<close>.
  \<^item> \<open>Signal_Slots\<close>: \<open>base/signal.h\<close>; what an emission calls, while callbacks connect and disconnect.
  \<^item> \<open>RW_Lock\<close>: \<open>base/atomic_rw_lock.h\<close>, \<open>base/reentrant_rw_lock.h\<close>; mutual exclusion in every interleaving.
  \<^item> \<open>Bounded_Queue\<close>: \<open>base/bounded_queue.h\<close>, \<open>base/wait_strategy.h\<close>; first in, first out, progress.
  \<^item> \<open>Object_Pool\<close>: \<open>base/object_pool.h\<close>, \<open>base/concurrent_object_pool.h\<close>; no object is handed out twice.

  \<^bold>\<open>Service discovery.\<close>
  \<^item> \<open>Global_Data\<close>: \<open>common/global_data\<close>; the registries give different names different ids, whatever the hash.
  \<^item> \<open>Topology_Graph\<close>: \<open>service_discovery/container/graph\<close>; the breadth-first search ends and decides
    reachability in the graph of writers and readers.
  \<^item> \<open>Role_Warehouse\<close>: roles and both warehouse containers; their contract is the locale \<open>role_warehouse\<close>.
  \<^item> \<open>Discovery_Manager\<close>: the base class \<open>specific_manager/manager\<close>, with the virtual functions as arguments
    and the locale \<open>topology_element\<close> for what a derived class provides.
  \<^item> \<open>Node_Manager\<close>, \<open>Channel_Manager\<close>, \<open>Service_Manager\<close>: the three derived classes; indexes refine the
    set of present roles, remote processes converge to the same view.
  \<^item> \<open>Topology_Manager\<close>: start, shutdown and participant changes; a vanished process is purged everywhere.

  \<^bold>\<open>Messages inside a process.\<close>
  \<^item> \<open>Cache_Buffer\<close>: \<open>data/cache_buffer.h\<close>, \<open>data/channel_buffer.h\<close>; the ring keeps the newest messages.
  \<^item> \<open>Data_Visitor\<close>: dispatcher, notifier, fusion of up to four channels (locale \<open>latest_fusion\<close>), visitors.
  \<^item> \<open>Listener_Dispatch\<close>: \<open>transport/message/listener_handler.h\<close>, \<open>transport/dispatcher/dispatcher\<close>; who is
    called when a message arrives.
  \<^item> \<open>Intra_Dispatch\<close>: \<open>transport/dispatcher/intra_dispatcher\<close>, \<open>transport/transmitter/intra_transmitter.h\<close>; the
    channel chain calls the same readers as the listener handlers.

  \<^bold>\<open>Messages between processes.\<close>
  \<^item> \<open>Message_Codec\<close>: identities, the two wire formats byte by byte, numbering of messages.
  \<^item> \<open>Shm_Block\<close>: layout of a segment and the lock of a block; no torn reads.
  \<^item> \<open>Shm_Segment\<close>: POSIX segments that processes create, map, grow and remove.
  \<^item> \<open>Shm_Notifier\<close>: the ring of notifications; in order and complete for listeners that keep up.
  \<^item> \<open>Shm_Transport\<close>: \<open>transport/transmitter/shm_transmitter.h\<close>, \<open>transport/dispatcher/shm_dispatcher\<close>; composes
    segment, notifier, codec and listeners: what is transmitted is what the reader's callback gets.
  \<^item> \<open>Rtps_Transport\<close>: \<open>transport/rtps\<close>, \<open>transport/qos\<close>, the RTPS transmitter and dispatcher over a record of the functions
    of Fast-RTPS; ids and sequence numbers survive the way through the sample identity.
  \<^item> \<open>Hybrid_Endpoints\<close>: hybrid transmitter and receiver, history, \<open>transport/transport.h\<close>; which of the three
    transports is used for which partner, and that a partner in the same process is reached exactly once.

  \<^bold>\<open>Time.\<close>
  \<^item> \<open>Timing_Wheel\<close>, \<open>Cyber_Timer\<close>: both wheels and timers; a timer fires after exactly its period in ticks.

  \<^bold>\<open>What the properties show.\<close> Safety and refinement theorems hold for every interleaving and every order of
  the maps. Theorems of kind error exhibit, for the code as written, a run in which something goes wrong:
  lost or silenced listeners, messages handed to another channel, a message written past the end of a block. Theorems that
  the code returns are proved as such: the searches and the registry are total, the waiting loops end when a
  slot is free.

  \<^bold>\<open>Bounds.\<close> No fuel is used: loops are structural recursion, have a termination proof, or are
  \<open>partial_function (option)\<close> with a proof that they return. Counters are 64 bits wide; theorems on runs state
  as hypothesis that fewer than \<open>2 ^ 64\<close> operations happened where that matters. The counters of the reader-writer locks,
  32 bits wide in the code, are unbounded integers because they count threads.

  \<^bold>\<open>Not modelled.\<close>
  \<^item> Code whose effect is in the operating system or a library that is not part of the sources: CDR serialization,
    multicast sockets, System V shared memory, file access, \<open>dlopen\<close>, threads and their affinities, logging.
  \<^item> Coroutine switching (assembly), the scheduler policies on top of it and the node, component and service
    classes that tie the modelled parts together.
  \<^item> Generated code: protobuf classes and build files.
  \<^item> The rest of the repository (muduo, web servers, notes, exercises): other programs, independent of the
    runtime.
\<close>

end
